(* ===== verification/Xilou_Prelude.thy ===== *)
theory Xilou_Prelude
  imports Main "HOL-Library.Word" "HOL-Library.Multiset"
begin

text \<open>
  Shared vocabulary of the development: the machine-integer types of the sources, the C library's
  \<open>memcpy\<close> on an array held as a list, splitting of a byte sequence into fixed-size blocks, and the
  list and word facts several components use. The collection \<open>codec\<close> gathers rewrite rules that the
  codec proofs pass to the simplifier.
\<close>

unbundle bit_operations_syntax

type_synonym byte = "8 word"
type_synonym u16 = "16 word"
type_synonym u32 = "32 word"
type_synonym u64 = "64 word"
type_synonym bytes = "8 word list"

named_theorems codec \<open>rewrite rules shared by the codec components\<close>

section \<open>Arrays as lists\<close>

text \<open>
  \<open>memcpy dst off src\<close> overwrites \<open>src\<close> into \<open>dst\<close> from offset \<open>off\<close>. The result keeps the length of
  \<open>dst\<close> exactly when the C call stays inside the array, so an invariant on the length of a buffer is
  also a proof that no copy runs past its end.
\<close>

definition memcpy :: "'a list \<Rightarrow> nat \<Rightarrow> 'a list \<Rightarrow> 'a list" where
  "memcpy dst off src = take off dst @ src @ drop (off + length src) dst"

lemma length_memcpy [simp]:
  "off + length src \<le> length dst \<Longrightarrow> length (memcpy dst off src) = length dst"
  by (simp add: memcpy_def)

lemma memcpy_overrun:
  "off \<le> length dst \<Longrightarrow> length dst < off + length src \<Longrightarrow> length (memcpy dst off src) > length dst"
  by (simp add: memcpy_def)

lemma take_memcpy:
  "off + length src \<le> length dst \<Longrightarrow> take (off + length src) (memcpy dst off src) = take off dst @ src"
  by (simp add: memcpy_def)

lemma nth_memcpy:
  "off + length src \<le> length dst \<Longrightarrow> i < length dst \<Longrightarrow>
   memcpy dst off src ! i = (if i < off then dst ! i
     else if i < off + length src then src ! (i - off) else dst ! i)"
  by (auto simp: memcpy_def nth_append min_def)

text \<open>\<open>swap\<close> models \<open>std::swap\<close> on two slots of an array.\<close>

definition swap :: "'a list \<Rightarrow> nat \<Rightarrow> nat \<Rightarrow> 'a list" where
  "swap xs i j = xs[i := xs ! j, j := xs ! i]"

lemma length_swap [simp]: "length (swap xs i j) = length xs"
  by (simp add: swap_def)

lemma mset_swap_slots [simp]:
  "i < length xs \<Longrightarrow> j < length xs \<Longrightarrow> mset (swap xs i j) = mset xs"
  by (simp add: swap_def mset_swap)

lemma set_swap_slots [simp]:
  "i < length xs \<Longrightarrow> j < length xs \<Longrightarrow> set (swap xs i j) = set xs"
  using mset_eq_setD mset_swap_slots by blast

section \<open>Array initialisation loops\<close>

lemma length_fold_update [simp]: "length (fold (\<lambda>x l. l[g x := h x]) xs l) = length l"
  by (induction xs arbitrary: l) auto

lemma fold_update_other:
  "k \<notin> g ` set xs \<Longrightarrow> fold (\<lambda>x l. l[g x := h x]) xs l ! k = l ! k"
  by (induction xs arbitrary: l) auto

lemma fold_update_nth:
  assumes "inj_on g (set xs)" and "\<forall>x\<in>set xs. g x < length l" and "y \<in> set xs"
  shows "fold (\<lambda>x l. l[g x := h x]) xs l ! g y = h y"
  using assms
proof (induction xs arbitrary: l)
  case (Cons x xs)
  show ?case
  proof (cases "y \<in> set xs")
    case True
    then show ?thesis using Cons by (auto simp: inj_on_def)
  next
    case False
    then have "y = x" "g y \<notin> g ` set xs" using Cons.prems by (auto simp: inj_on_def)
    then show ?thesis using Cons.prems fold_update_other [of "g x" g xs h "l[g x := h x]"] by simp
  qed
qed simp

section \<open>Machine words through their natural values\<close>

lemma unat_take_bit: "unat (take_bit n w) = unat w mod 2 ^ n"
  by (metis take_bit_eq_mod unsigned_take_bit_eq)

lemma unat_and_mask: "unat (w AND mask n) = unat w mod 2 ^ n"
  by (simp add: unat_take_bit flip: take_bit_eq_mask)

lemma unat_ucast_mod:
  "unat (ucast (w :: 'a::len word) :: 'b::len word) = unat w mod 2 ^ LENGTH('b)"
  by (simp add: unsigned_ucast_eq take_bit_eq_mod)

lemma unat_push_bit: "unat (push_bit n (w :: 'a::len word)) = unat w * 2 ^ n mod 2 ^ LENGTH('a)"
  by (subst unsigned_push_bit_eq) (simp add: take_bit_eq_mod push_bit_eq_mult)

lemma unat_drop_bit_div: "unat (drop_bit n w) = unat w div 2 ^ n"
  by (subst unat_drop_bit_eq) (simp add: drop_bit_eq_div)

lemmas unat_simps =
  unat_take_bit unat_and_mask unat_ucast_mod unat_push_bit unat_drop_bit_div unat_of_nat unat_word_ariths

lemma unat_u32_less: "unat (w :: u32) < 2 ^ 32"
  by (rule order_less_le_trans [OF unsigned_less]) simp

lemma unat_u64_less: "unat (w :: u64) < 2 ^ 64"
  by (rule order_less_le_trans [OF unsigned_less]) simp

lemma of_nat_u64_eqI: "a mod 2 ^ 64 = b mod 2 ^ 64 \<Longrightarrow> (of_nat a :: u64) = of_nat b"
  by (simp add: word_unat_eq_iff unat_of_nat)

text \<open>
  A double-word counter: adding \<open>v\<close> to the low word and the carry, detected by comparing the new low
  word with \<open>v\<close>, to the high word.
\<close>

lemma carry_count:
  fixes u0 u1 v W :: nat
  assumes "u0 < W" and "v < W" and k: "k = (if (u0 + v) mod W < v then 1 else 0)"
  shows "((u1 + k) mod W * W + (u0 + v) mod W) mod (W * W) = (u1 * W + u0 + v) mod (W * W)"
proof -
  have sum: "k * W + (u0 + v) mod W = u0 + v"
  proof (cases "u0 + v < W")
    case True
    then show ?thesis using k by simp
  next
    case False
    then have "(u0 + v) mod W = u0 + v - W"
      using assms(1,2) by (simp add: le_mod_geq)
    then show ?thesis using k False assms(1,2) by simp
  qed
  have "(u1 + k) mod W * W mod (W * W) = (u1 + k) * W mod (W * W)"
    using mult_mod_right [of W "u1 + k" W] by (simp add: mult.commute)
  then have "((u1 + k) mod W * W + (u0 + v) mod W) mod (W * W) =
      ((u1 + k) * W + (u0 + v) mod W) mod (W * W)"
    by (metis mod_add_left_eq)
  also have "(u1 + k) * W + (u0 + v) mod W = u1 * W + u0 + v"
    using sum by (simp add: add_mult_distrib)
  finally show ?thesis .
qed

text \<open>The low-bit masks the sources write as hexadecimal literals.\<close>

lemma literal_masks:
  "(0x7 :: 'a::len word) = mask 3" "(0xF :: 'a::len word) = mask 4" "(0x3F :: 'a::len word) = mask 6"
  "(0x7F :: 'a::len word) = mask 7" "(0xFF :: 'a::len word) = mask 8"
  "(0xFFFFFFFF :: 'a::len word) = mask 32"
  by (simp_all add: mask_eq_exp_minus_1)

lemma mask_full_word: "w AND (0xFFFFFFFF :: u32) = w"
  by (simp add: literal_masks(6) flip: take_bit_eq_mask) (simp add: take_bit_word_eq_self)

end
