(* ===== verification/Block_Hash.thy ===== *)
theory Block_Hash
  imports Xilou_Prelude
begin

text \<open>
  The streaming discipline shared by the digests of core/fdrm: a hash keeps a chaining state, a
  buffer for the bytes that do not fill a block yet, and a counter. \<open>hash_blocks\<close> is the loop
  \<open>while (size >= B) process(...)\<close> every update function contains; \<open>md_absorb\<close> is the body that
  \<open>CRYPT_MD5Update\<close>, \<open>CRYPT_SHA256Update\<close> and \<open>CRYPT_SHA384Update\<close> have in common. The locale
  \<open>streaming_hash\<close> states what a digest promises to its callers and derives from it that the way a
  message is cut into update calls does not matter.
\<close>

section \<open>Consuming whole blocks\<close>

function hash_blocks :: "nat \<Rightarrow> ('s \<Rightarrow> bytes \<Rightarrow> 's) \<Rightarrow> 's \<Rightarrow> bytes \<Rightarrow> 's \<times> bytes" where
  "hash_blocks B process st data =
     (if B = 0 \<or> length data < B then (st, data)
      else hash_blocks B process (process st (take B data)) (drop B data))"
  by pat_completeness auto
termination
  by (relation "measure (\<lambda>(B, p, st, data). length data)") auto

declare hash_blocks.simps [simp del]

lemma hash_blocks_short [simp]: "length data < B \<Longrightarrow> hash_blocks B p st data = (st, data)"
  by (simp add: hash_blocks.simps)

lemma hash_blocks_step:
  "0 < B \<Longrightarrow> length blk = B \<Longrightarrow> hash_blocks B p st (blk @ data) = hash_blocks B p (p st blk) data"
  by (subst hash_blocks.simps) simp

lemma length_hash_blocks_rest:
  "0 < B \<Longrightarrow> length (snd (hash_blocks B p st data)) = length data mod B"
proof (induction B p st data rule: hash_blocks.induct)
  case (1 B p st data)
  show ?case
  proof (cases "length data < B")
    case True
    then show ?thesis by simp
  next
    case False
    with "1" show ?thesis
      by (subst hash_blocks.simps) (simp add: le_mod_geq)
  qed
qed

lemma hash_blocks_append:
  assumes "0 < B"
  shows "hash_blocks B p st (a @ b) =
    hash_blocks B p (fst (hash_blocks B p st a)) (snd (hash_blocks B p st a) @ b)"
  using assms
proof (induction B p st a rule: hash_blocks.induct)
  case (1 B p st a)
  show ?case
  proof (cases "length a < B")
    case True
    then show ?thesis by simp
  next
    case False
    have "hash_blocks B p st (a @ b) = hash_blocks B p (p st (take B a)) (drop B a @ b)"
      using False "1.prems" hash_blocks_step [of B "take B a" p st "drop B a @ b"]
      by (simp flip: append_assoc)
    also have "\<dots> = hash_blocks B p (fst (hash_blocks B p (p st (take B a)) (drop B a)))
        (snd (hash_blocks B p (p st (take B a)) (drop B a)) @ b)"
      using False "1" by simp
    also have "hash_blocks B p (p st (take B a)) (drop B a) = hash_blocks B p st a"
      using False "1.prems" by (subst (2) hash_blocks.simps) simp
    finally show ?thesis .
  qed
qed

lemma hash_blocks_length:
  "(\<And>s b. length (p s b) = n) \<Longrightarrow> length st = n \<Longrightarrow> length (fst (hash_blocks B p st data)) = n"
  by (induction B p st data rule: hash_blocks.induct) (subst hash_blocks.simps, simp)

section \<open>The common update body\<close>

definition md_absorb ::
  "nat \<Rightarrow> ('s \<Rightarrow> bytes \<Rightarrow> 's) \<Rightarrow> nat \<Rightarrow> 's \<Rightarrow> bytes \<Rightarrow> bytes \<Rightarrow> 's \<times> bytes" where
  "md_absorb B process left st buffer data =
     (let fill = B - left;
          (st, buffer, left, data) =
            (if left \<noteq> 0 \<and> fill \<le> length data
             then let buffer = memcpy buffer left (take fill data)
                  in (process st (take B buffer), buffer, 0, drop fill data)
             else (st, buffer, left, data));
          (st, data) = hash_blocks B process st data
      in (st, if data \<noteq> [] then memcpy buffer left data else buffer))"

lemma md_absorb_Nil [simp]: "left < B \<Longrightarrow> md_absorb B p left st buf [] = (st, buf)"
  by (auto simp: md_absorb_def)

text \<open>
  One call of the body leaves the chaining state and the pending bytes that processing the pending
  bytes followed by the new data in one go would leave, and never writes past the buffer. The three
  lemmas follow the three ways through the code: the data completes the pending block, nothing is
  pending, or the data does not complete the block.
\<close>

definition absorbs :: "nat \<Rightarrow> ('s \<Rightarrow> bytes \<Rightarrow> 's) \<Rightarrow> nat \<Rightarrow> 's \<Rightarrow> bytes \<Rightarrow> bytes \<Rightarrow> 's \<times> bytes \<Rightarrow> bool" where
  "absorbs B p left st buf data r \<longleftrightarrow>
     fst r = fst (hash_blocks B p st (take left buf @ data)) \<and>
     take ((left + length data) mod B) (snd r) = snd (hash_blocks B p st (take left buf @ data)) \<and>
     length (snd r) = length buf"

lemma absorbs_aligned:
  assumes "0 < B" "B \<le> length buf" and r: "hash_blocks B p st data = (s2, r)"
  shows "take (length data mod B) (if r \<noteq> [] then memcpy buf 0 r else buf) = r"
    and "length (if r \<noteq> [] then memcpy buf 0 r else buf) = length buf"
proof -
  have len_r: "length r = length data mod B"
    using length_hash_blocks_rest [of B p st data] assms by simp
  moreover have "length data mod B < B" using assms by simp
  ultimately have "length r \<le> length buf" using assms by linarith
  then show "take (length data mod B) (if r \<noteq> [] then memcpy buf 0 r else buf) = r"
    and "length (if r \<noteq> [] then memcpy buf 0 r else buf) = length buf"
    using take_memcpy [of 0 r buf] len_r by auto
qed

lemma md_absorb_fill:
  assumes B: "left < B" "B \<le> length buf" and fill: "left \<noteq> 0" "B - left \<le> length data"
  shows "absorbs B p left st buf data (md_absorb B p left st buf data)"
proof -
  define b1 where "b1 = memcpy buf left (take (B - left) data)"
  define d1 where "d1 = drop (B - left) data"
  have b1: "take B b1 = take left buf @ take (B - left) data" "length b1 = length buf"
    using assms take_memcpy [of left "take (B - left) data" buf] by (simp_all add: b1_def)
  have split: "hash_blocks B p st (take left buf @ data) = hash_blocks B p (p st (take B b1)) d1"
    using assms hash_blocks_step [of B "take left buf @ take (B - left) data" p st d1] b1
    by (simp add: d1_def)
  have "left + length data = length d1 + B"
    using assms unfolding d1_def length_drop by arith
  then have len: "(left + length data) mod B = length d1 mod B" by simp
  obtain s2 r where r: "hash_blocks B p (p st (take B b1)) d1 = (s2, r)" by fastforce
  have "md_absorb B p left st buf data = (s2, if r \<noteq> [] then memcpy b1 0 r else b1)"
    using fill r by (auto simp: md_absorb_def Let_def b1_def d1_def)
  then show ?thesis
    using absorbs_aligned [OF _ _ r, of b1] B b1 split r len by (simp add: absorbs_def)
qed

lemma md_absorb_aligned:
  assumes "0 < B" "B \<le> length buf"
  shows "absorbs B p 0 st buf data (md_absorb B p 0 st buf data)"
proof -
  obtain s2 r where r: "hash_blocks B p st data = (s2, r)" by fastforce
  then have "md_absorb B p 0 st buf data = (s2, if r \<noteq> [] then memcpy buf 0 r else buf)"
    by (auto simp: md_absorb_def)
  then show ?thesis
    using absorbs_aligned [OF assms r] r by (simp add: absorbs_def)
qed

lemma md_absorb_short:
  assumes "left + length data < B" "B \<le> length buf" "left \<noteq> 0"
  shows "absorbs B p left st buf data (md_absorb B p left st buf data)"
proof -
  have "md_absorb B p left st buf data = (st, if data \<noteq> [] then memcpy buf left data else buf)"
    using assms by (auto simp: md_absorb_def Let_def)
  then show ?thesis
    using assms take_memcpy [of left data buf] by (auto simp: absorbs_def)
qed

lemma md_absorb_correct:
  assumes "left < B" "B \<le> length buf" and res: "md_absorb B p left st buf data = (st', buf')"
  shows "st' = fst (hash_blocks B p st (take left buf @ data))"
    and "take ((left + length data) mod B) buf' = snd (hash_blocks B p st (take left buf @ data))"
    and "length buf' = length buf"
proof -
  have "absorbs B p left st buf data (md_absorb B p left st buf data)"
  proof (cases "left = 0")
    case True
    then show ?thesis using assms(1,2) md_absorb_aligned by simp
  next
    case False
    show ?thesis
    proof (cases "B - left \<le> length data")
      case True
      with False assms show ?thesis by (intro md_absorb_fill)
    next
      case not_filled: False
      with assms(1) have "left + length data < B" by linarith
      with False assms show ?thesis by (intro md_absorb_short)
    qed
  qed
  then show "st' = fst (hash_blocks B p st (take left buf @ data))"
    and "take ((left + length data) mod B) buf' = snd (hash_blocks B p st (take left buf @ data))"
    and "length buf' = length buf" by (simp_all add: absorbs_def res)
qed

section \<open>What a streaming digest promises\<close>

text \<open>
  The contract of an update function: the context always stands for some message, of which the
  whole blocks are in the chaining state and the rest is pending.
\<close>

locale streaming_hash =
  fixes B :: nat
    and process :: "'s \<Rightarrow> bytes \<Rightarrow> 's"
    and chain :: "'c \<Rightarrow> 's"
    and pending :: "'c \<Rightarrow> bytes"
    and ok :: "'c \<Rightarrow> bool"
    and start :: 'c
    and update :: "'c \<Rightarrow> bytes \<Rightarrow> 'c"
  assumes block_pos: "0 < B"
    and ok_start: "ok start"
    and pending_start: "pending start = []"
    and ok_update: "ok c \<Longrightarrow> ok (update c d)"
    and chain_update: "ok c \<Longrightarrow> chain (update c d) = fst (hash_blocks B process (chain c) (pending c @ d))"
    and pending_update: "ok c \<Longrightarrow> pending (update c d) = snd (hash_blocks B process (chain c) (pending c @ d))"
begin

lemma ok_updates: "ok c \<Longrightarrow> ok (foldl update c ds)"
  by (induction ds arbitrary: c) (simp_all add: ok_update)

lemma updates_concat:
  assumes "ok c" and "length (pending c) < B"
  shows "(chain (foldl update c ds), pending (foldl update c ds)) =
    hash_blocks B process (chain c) (pending c @ concat ds)"
  using assms
proof (induction ds arbitrary: c)
  case Nil
  then show ?case by simp
next
  case (Cons d ds)
  have "length (pending (update c d)) < B"
    using Cons.prems block_pos by (simp add: pending_update length_hash_blocks_rest)
  with Cons have "(chain (foldl update c (d # ds)), pending (foldl update c (d # ds))) =
      hash_blocks B process (chain (update c d)) (pending (update c d) @ concat ds)"
    by (simp add: ok_update)
  also have "\<dots> = hash_blocks B process (chain c) (pending c @ d @ concat ds)"
    using Cons.prems hash_blocks_append [OF block_pos, of process "chain c" "pending c @ d" "concat ds"]
    by (simp add: chain_update pending_update)
  finally show ?case by simp
qed

text \<open>How a message is cut into calls of \<open>update\<close> does not show in the chaining state.\<close>

lemma chunking_irrelevant:
  "concat ds = concat es \<Longrightarrow> chain (foldl update start ds) = chain (foldl update start es)"
  using updates_concat [OF ok_start, of ds] updates_concat [OF ok_start, of es] block_pos
  by (metis list.size(3) pending_start prod.inject)

lemma length_pending_updates: "length (pending (foldl update start ds)) = length (concat ds) mod B"
  using updates_concat [OF ok_start, of ds] block_pos length_hash_blocks_rest [OF block_pos]
  by (metis append_Nil list.size(3) pending_start snd_conv)

end

text \<open>
  A digest function built on it adds a bit counter and a finish call that absorbs a padding and the
  encoded counter. \<open>fits\<close> is the side condition under which one update counts its bytes correctly.
\<close>

locale padded_hash = streaming_hash +
  fixes bits :: "'c \<Rightarrow> u64"
    and fits :: "bytes \<Rightarrow> bool"
    and pad :: "nat \<Rightarrow> bytes"
    and enc :: "u64 \<Rightarrow> bytes"
    and emit :: "'s \<Rightarrow> bytes"
    and finish :: "'c \<Rightarrow> bytes"
  assumes bits_start: "bits start = 0"
    and bits_update: "ok c \<Longrightarrow> fits d \<Longrightarrow> bits (update c d) = bits c + 8 * of_nat (length d)"
    and finish: "ok c \<Longrightarrow> finish c =
      emit (fst (hash_blocks B process (chain c) (pending c @ pad (length (pending c)) @ enc (bits c))))"
begin

lemma bits_updates:
  "ok c \<Longrightarrow> list_all fits ds \<Longrightarrow> bits (foldl update c ds) = bits c + 8 * of_nat (length (concat ds))"
  by (induction ds arbitrary: c) (simp_all add: ok_update bits_update algebra_simps)

text \<open>
  The digest of a message fed in any pieces is the digest of the padded message processed block by
  block from the initial state.
\<close>

lemma digest_is_padded_chain:
  assumes "list_all fits ds" and "concat ds = m"
  shows "finish (foldl update start ds) =
    emit (fst (hash_blocks B process (chain start)
      (m @ pad (length m mod B) @ enc (8 * of_nat (length m)))))"
proof -
  let ?c = "foldl update start ds"
  have c: "hash_blocks B process (chain start) m = (chain ?c, pending ?c)"
    using updates_concat [OF ok_start, of ds] block_pos assms by (simp add: pending_start)
  have "bits ?c = 8 * of_nat (length m)"
    using bits_updates [OF ok_start assms(1)] assms(2) by (simp add: bits_start)
  moreover have "length (pending ?c) = length m mod B"
    using length_pending_updates [of ds] assms(2) by simp
  ultimately show ?thesis
    using finish [OF ok_updates [OF ok_start], of ds] c
      hash_blocks_append [OF block_pos, of process "chain start" m]
    by simp
qed

end

end
