(* ===== verification/Md5.thy ===== *)
theory Md5
  imports Block_Hash
begin

text \<open>
  MD5 as core/fdrm/fx_crypt.cpp implements it: the context of \<open>CRYPT_md5_context\<close>, the compression
  function \<open>md5_process\<close>, and the streaming calls \<open>CRYPT_MD5Start\<close>, \<open>CRYPT_MD5Update\<close>,
  \<open>CRYPT_MD5Finish\<close> and \<open>CRYPT_MD5Generate\<close>. The context is shown to be a padded streaming hash
  as long as no single update call passes 2 to the 29 bytes or more; beyond that the carry into the
  upper counter word is counted twice.
\<close>

section \<open>Context and little-endian access\<close>

record CRYPT_md5_context =
  md5_total0 :: u32
  md5_total1 :: u32
  md5_state :: "u32 list"
  md5_buffer :: bytes

definition GET_UINT32 :: "bytes \<Rightarrow> nat \<Rightarrow> u32" where
  "GET_UINT32 b i =
     ucast (b ! i) OR push_bit 8 (ucast (b ! (i + 1))) OR
     push_bit 16 (ucast (b ! (i + 2))) OR push_bit 24 (ucast (b ! (i + 3)))"

definition PUT_UINT32 :: "u32 \<Rightarrow> bytes" where
  "PUT_UINT32 n = [ucast (n AND 0xFF), ucast (drop_bit 8 n AND 0xFF),
     ucast (drop_bit 16 n AND 0xFF), ucast (drop_bit 24 n AND 0xFF)]"

definition md5_padding :: bytes where
  "md5_padding = 0x80 # replicate 63 0"

section \<open>The compression function\<close>

text \<open>
  Each line \<open>P(a, b, c, d, k, s, t)\<close> of the source is a step with message word \<open>k\<close>, rotation \<open>s\<close> and
  constant \<open>t\<close>; the four registers take the roles a, b, c, d in rotation, which the step function
  does by returning them in the order the next line names them.
\<close>

definition md5_S :: "u32 \<Rightarrow> nat \<Rightarrow> u32" where
  "md5_S x n = push_bit n x OR drop_bit (32 - n) (x AND 0xFFFFFFFF)"

fun md5_P :: "(u32 \<Rightarrow> u32 \<Rightarrow> u32 \<Rightarrow> u32) \<Rightarrow> u32 list \<Rightarrow> u32 \<times> u32 \<times> u32 \<times> u32 \<Rightarrow>
    nat \<times> nat \<times> u32 \<Rightarrow> u32 \<times> u32 \<times> u32 \<times> u32" where
  "md5_P F X (a, b, c, d) (k, s, t) =
     (let a = a + (F b c d + X ! k + t); a = md5_S a s + b in (d, a, b, c))"

definition md5_F1 :: "u32 \<Rightarrow> u32 \<Rightarrow> u32 \<Rightarrow> u32" where
  "md5_F1 x y z = z XOR (x AND (y XOR z))"

definition md5_F2 :: "u32 \<Rightarrow> u32 \<Rightarrow> u32 \<Rightarrow> u32" where
  "md5_F2 x y z = y XOR (z AND (x XOR y))"

definition md5_F3 :: "u32 \<Rightarrow> u32 \<Rightarrow> u32 \<Rightarrow> u32" where
  "md5_F3 x y z = x XOR y XOR z"

definition md5_F4 :: "u32 \<Rightarrow> u32 \<Rightarrow> u32 \<Rightarrow> u32" where
  "md5_F4 x y z = y XOR (x OR NOT z)"

definition md5_round1 :: "(nat \<times> nat \<times> u32) list" where
  "md5_round1 = [
    (0, 7, 0xD76AA478), (1, 12, 0xE8C7B756), (2, 17, 0x242070DB), (3, 22, 0xC1BDCEEE),
    (4, 7, 0xF57C0FAF), (5, 12, 0x4787C62A), (6, 17, 0xA8304613), (7, 22, 0xFD469501),
    (8, 7, 0x698098D8), (9, 12, 0x8B44F7AF), (10, 17, 0xFFFF5BB1), (11, 22, 0x895CD7BE),
    (12, 7, 0x6B901122), (13, 12, 0xFD987193), (14, 17, 0xA679438E), (15, 22, 0x49B40821)]"

definition md5_round2 :: "(nat \<times> nat \<times> u32) list" where
  "md5_round2 = [
    (1, 5, 0xF61E2562), (6, 9, 0xC040B340), (11, 14, 0x265E5A51), (0, 20, 0xE9B6C7AA),
    (5, 5, 0xD62F105D), (10, 9, 0x02441453), (15, 14, 0xD8A1E681), (4, 20, 0xE7D3FBC8),
    (9, 5, 0x21E1CDE6), (14, 9, 0xC33707D6), (3, 14, 0xF4D50D87), (8, 20, 0x455A14ED),
    (13, 5, 0xA9E3E905), (2, 9, 0xFCEFA3F8), (7, 14, 0x676F02D9), (12, 20, 0x8D2A4C8A)]"

definition md5_round3 :: "(nat \<times> nat \<times> u32) list" where
  "md5_round3 = [
    (5, 4, 0xFFFA3942), (8, 11, 0x8771F681), (11, 16, 0x6D9D6122), (14, 23, 0xFDE5380C),
    (1, 4, 0xA4BEEA44), (4, 11, 0x4BDECFA9), (7, 16, 0xF6BB4B60), (10, 23, 0xBEBFBC70),
    (13, 4, 0x289B7EC6), (0, 11, 0xEAA127FA), (3, 16, 0xD4EF3085), (6, 23, 0x04881D05),
    (9, 4, 0xD9D4D039), (12, 11, 0xE6DB99E5), (15, 16, 0x1FA27CF8), (2, 23, 0xC4AC5665)]"

definition md5_round4 :: "(nat \<times> nat \<times> u32) list" where
  "md5_round4 = [
    (0, 6, 0xF4292244), (7, 10, 0x432AFF97), (14, 15, 0xAB9423A7), (5, 21, 0xFC93A039),
    (12, 6, 0x655B59C3), (3, 10, 0x8F0CCC92), (10, 15, 0xFFEFF47D), (1, 21, 0x85845DD1),
    (8, 6, 0x6FA87E4F), (15, 10, 0xFE2CE6E0), (6, 15, 0xA3014314), (13, 21, 0x4E0811A1),
    (4, 6, 0xF7537E82), (11, 10, 0xBD3AF235), (2, 15, 0x2AD7D2BB), (9, 21, 0xEB86D391)]"

definition md5_process :: "u32 list \<Rightarrow> bytes \<Rightarrow> u32 list" where
  "md5_process state data =
     (let X = map (\<lambda>i. GET_UINT32 data (4 * i)) [0..<16];
          r = (state ! 0, state ! 1, state ! 2, state ! 3);
          r = foldl (md5_P md5_F1 X) r md5_round1;
          r = foldl (md5_P md5_F2 X) r md5_round2;
          r = foldl (md5_P md5_F3 X) r md5_round3;
          (A, B, C, D) = foldl (md5_P md5_F4 X) r md5_round4
      in [state ! 0 + A, state ! 1 + B, state ! 2 + C, state ! 3 + D])"

section \<open>The streaming interface\<close>

definition CRYPT_MD5Start :: CRYPT_md5_context where
  "CRYPT_MD5Start = \<lparr>md5_total0 = 0, md5_total1 = 0,
     md5_state = [0x67452301, 0xEFCDAB89, 0x98BADCFE, 0x10325476],
     md5_buffer = replicate 64 0\<rparr>"

definition md5_left :: "CRYPT_md5_context \<Rightarrow> nat" where
  "md5_left context = unat (drop_bit 3 (md5_total0 context) AND 0x3F)"

definition CRYPT_MD5Update :: "CRYPT_md5_context \<Rightarrow> bytes \<Rightarrow> CRYPT_md5_context" where
  "CRYPT_MD5Update context data =
     (if data = [] then context
      else let left = md5_left context;
               size = of_nat (length data) :: u64;
               t0 = md5_total0 context + ucast (push_bit 3 size);
               t1 = md5_total1 context + ucast (drop_bit 29 size);
               t0 = t0 AND 0xFFFFFFFF;
               t1 = t1 + (if ucast t0 < push_bit 3 size then 1 else 0);
               (st, buf) = md_absorb 64 md5_process left (md5_state context) (md5_buffer context) data
           in \<lparr>md5_total0 = t0, md5_total1 = t1, md5_state = st, md5_buffer = buf\<rparr>)"

definition CRYPT_MD5Finish :: "CRYPT_md5_context \<Rightarrow> CRYPT_md5_context \<times> bytes" where
  "CRYPT_MD5Finish context =
     (let msglen = PUT_UINT32 (md5_total0 context) @ PUT_UINT32 (md5_total1 context);
          last = md5_left context;
          padn = (if last < 56 then 56 - last else 120 - last);
          context = CRYPT_MD5Update context (take padn md5_padding);
          context = CRYPT_MD5Update context msglen
      in (context, concat (map (\<lambda>i. PUT_UINT32 (md5_state context ! i)) [0..<4])))"

definition CRYPT_MD5Generate :: "bytes \<Rightarrow> bytes" where
  "CRYPT_MD5Generate data =
     (let ctx = CRYPT_MD5Start; ctx = CRYPT_MD5Update ctx data in snd (CRYPT_MD5Finish ctx))"

section \<open>The context as a padded streaming hash\<close>

definition md5_ok :: "CRYPT_md5_context \<Rightarrow> bool" where
  "md5_ok c \<longleftrightarrow> length (md5_buffer c) = 64 \<and> length (md5_state c) = 4"

definition md5_pending :: "CRYPT_md5_context \<Rightarrow> bytes" where
  "md5_pending c = take (md5_left c) (md5_buffer c)"

definition md5_bits :: "CRYPT_md5_context \<Rightarrow> u64" where
  "md5_bits c = push_bit 32 (ucast (md5_total1 c)) + ucast (md5_total0 c)"

definition md5_pad :: "nat \<Rightarrow> bytes" where
  "md5_pad n = take (if n < 56 then 56 - n else 120 - n) md5_padding"

definition md5_length_block :: "u64 \<Rightarrow> bytes" where
  "md5_length_block w = PUT_UINT32 (ucast w) @ PUT_UINT32 (ucast (drop_bit 32 w))"

definition md5_emit :: "u32 list \<Rightarrow> bytes" where
  "md5_emit st = concat (map (\<lambda>i. PUT_UINT32 (st ! i)) [0..<4])"

text \<open>The digest of a message as RFC 1321 describes it: pad, append the bit count, chain the blocks.\<close>

definition md5_reference :: "bytes \<Rightarrow> bytes" where
  "md5_reference m = md5_emit (fst (hash_blocks 64 md5_process
     [0x67452301, 0xEFCDAB89, 0x98BADCFE, 0x10325476]
     (m @ md5_pad (length m mod 64) @ md5_length_block (8 * of_nat (length m)))))"

lemma md5_left_alt: "md5_left c = unat (md5_total0 c) div 8 mod 64"
  by (simp add: md5_left_def literal_masks unat_simps)

lemma md5_left_less: "md5_left c < 64"
  by (simp add: md5_left_alt)

lemma md5_total0_step:
  "unat (t + ucast (push_bit 3 (of_nat n :: u64)) :: u32) = (unat t + 8 * n) mod 2 ^ 32"
  by (simp add: unat_simps mod_simps mod_mod_cancel mult.commute)

lemma div_mod_pow: "(x::nat) mod (2 ^ 32) div 8 mod 64 = x div 8 mod 64"
proof -
  have "x mod 2 ^ 32 div 8 = x div 8 mod 2 ^ 29"
    using mod_mult2_eq [of x 8 "2 ^ 29"] by simp
  then show ?thesis by (simp add: mod_mod_cancel)
qed

lemma length_md5_process [simp]: "length (md5_process st data) = 4"
  by (simp add: md5_process_def Let_def split: prod.splits)

lemma CRYPT_MD5Update_absorb:
  "md5_left (CRYPT_MD5Update c d) = (md5_left c + length d) mod 64"
  "(md5_state (CRYPT_MD5Update c d), md5_buffer (CRYPT_MD5Update c d)) =
     md_absorb 64 md5_process (md5_left c) (md5_state c) (md5_buffer c) d"
proof -
  show "md5_left (CRYPT_MD5Update c d) = (md5_left c + length d) mod 64"
  proof (cases "d = []")
    case True
    then show ?thesis by (simp add: CRYPT_MD5Update_def md5_left_alt)
  next
    case False
    then have "md5_total0 (CRYPT_MD5Update c d) =
        md5_total0 c + ucast (push_bit 3 (of_nat (length d) :: u64))"
      by (simp add: CRYPT_MD5Update_def Let_def mask_full_word split: prod.splits)
    then have "md5_left (CRYPT_MD5Update c d) = (unat (md5_total0 c) + 8 * length d) div 8 mod 64"
      by (simp only: md5_left_alt md5_total0_step div_mod_pow)
    then show ?thesis by (simp add: md5_left_alt mod_simps add.commute)
  qed
  show "(md5_state (CRYPT_MD5Update c d), md5_buffer (CRYPT_MD5Update c d)) =
     md_absorb 64 md5_process (md5_left c) (md5_state c) (md5_buffer c) d"
    by (cases "d = []") (simp_all add: CRYPT_MD5Update_def Let_def md5_left_less split: prod.splits)
qed

lemma MD5Update_laws:
  assumes "md5_ok c"
  shows "md5_ok (CRYPT_MD5Update c d)"
    and "md5_state (CRYPT_MD5Update c d) =
      fst (hash_blocks 64 md5_process (md5_state c) (md5_pending c @ d))"
    and "md5_pending (CRYPT_MD5Update c d) =
      snd (hash_blocks 64 md5_process (md5_state c) (md5_pending c @ d))"
proof -
  let ?c' = "CRYPT_MD5Update c d"
  have buf: "64 \<le> length (md5_buffer c)" using assms by (simp add: md5_ok_def)
  note core = md_absorb_correct [OF md5_left_less buf CRYPT_MD5Update_absorb(2) [symmetric]]
  show "md5_state ?c' = fst (hash_blocks 64 md5_process (md5_state c) (md5_pending c @ d))"
    and "md5_pending ?c' = snd (hash_blocks 64 md5_process (md5_state c) (md5_pending c @ d))"
    using core by (simp_all add: md5_pending_def CRYPT_MD5Update_absorb(1))
  then show "md5_ok ?c'"
    using core(3) assms by (simp add: md5_ok_def hash_blocks_length)
qed


lemma md5_bits_alt:
  "md5_bits c = of_nat (unat (md5_total1 c) * 2 ^ 32 + unat (md5_total0 c))"
proof -
  have "unat (md5_total1 c) < 2 ^ 32" "unat (md5_total0 c) < 2 ^ 32"
    by (rule unat_u32_less)+
  then show ?thesis
    by (simp add: md5_bits_def word_unat_eq_iff unat_simps)
qed

lemma MD5Update_bits:
  assumes "length d < 2 ^ 29"
  shows "md5_bits (CRYPT_MD5Update c d) = md5_bits c + 8 * of_nat (length d)"
proof (cases "d = []")
  case True
  then show ?thesis by (simp add: CRYPT_MD5Update_def)
next
  case False
  let ?n = "length d" and ?u0 = "unat (md5_total0 c)" and ?c' = "CRYPT_MD5Update c d"
  let ?t0 = "md5_total0 c + ucast (push_bit 3 (of_nat ?n :: u64))"
  let ?k = "if (?u0 + 8 * ?n) mod 2 ^ 32 < 8 * ?n then 1 else 0 :: nat"
  have "unat (push_bit 3 (of_nat ?n :: u64)) = 8 * ?n" "unat (ucast ?t0 :: u64) = unat ?t0"
    using assms by (simp_all add: unat_simps)
  then have carry: "ucast ?t0 < push_bit 3 (of_nat ?n :: u64) \<longleftrightarrow> (?u0 + 8 * ?n) mod 2 ^ 32 < 8 * ?n"
    by (simp only: word_less_nat_alt md5_total0_step)
  have "drop_bit 29 (of_nat ?n :: u64) = 0"
    using assms by (simp add: word_unat_eq_iff unat_simps)
  then have "md5_total1 ?c' = md5_total1 c + of_nat ?k" "md5_total0 ?c' = ?t0"
    using False carry
    by (simp_all add: CRYPT_MD5Update_def Let_def mask_full_word split: prod.splits)
  then have "unat (md5_total1 ?c') = (unat (md5_total1 c) + ?k) mod 2 ^ 32"
    "unat (md5_total0 ?c') = (?u0 + 8 * ?n) mod 2 ^ 32"
    by (simp_all only: md5_total0_step) (simp add: unat_simps mod_simps)
  note counts = this
  have "8 * ?n < 2 ^ 32" using assms by simp
  note cc = carry_count [OF unat_u32_less this refl, of "unat (md5_total1 c)" "md5_total0 c"]
  have sq: "2 ^ 32 * 2 ^ 32 = (2 ^ 64 :: nat)" by simp
  have "md5_bits ?c' = of_nat (unat (md5_total1 c) * 2 ^ 32 + ?u0 + 8 * ?n)"
    unfolding md5_bits_alt counts by (rule of_nat_u64_eqI) (rule cc [unfolded sq])
  then show ?thesis by (simp add: md5_bits_alt algebra_simps)
qed
lemma md5_bits_words:
  "ucast (md5_bits c) = md5_total0 c" "ucast (drop_bit 32 (md5_bits c)) = md5_total1 c"
proof -
  let ?u0 = "unat (md5_total0 c)" and ?u1 = "unat (md5_total1 c)"
  have b: "?u0 < 2 ^ 32" "?u1 < 2 ^ 32" by (rule unat_u32_less)+
  have "unat (md5_bits c) = ?u1 * 2 ^ 32 + ?u0"
    unfolding md5_bits_alt unat_of_nat using b by simp
  then show "ucast (md5_bits c) = md5_total0 c" "ucast (drop_bit 32 (md5_bits c)) = md5_total1 c"
    using b by (simp_all add: word_unat_eq_iff unat_simps)
qed

lemma length_md5_pending: "md5_ok c \<Longrightarrow> length (md5_pending c) = md5_left c"
  using md5_left_less [of c] by (simp add: md5_ok_def md5_pending_def)

lemma MD5Finish_law:
  assumes "md5_ok c"
  shows "snd (CRYPT_MD5Finish c) = md5_emit (fst (hash_blocks 64 md5_process (md5_state c)
    (md5_pending c @ md5_pad (length (md5_pending c)) @ md5_length_block (md5_bits c))))"
proof -
  let ?c1 = "CRYPT_MD5Update c (md5_pad (md5_left c))"
  have "snd (CRYPT_MD5Finish c) = md5_emit (md5_state (CRYPT_MD5Update ?c1 (md5_length_block (md5_bits c))))"
    by (simp add: CRYPT_MD5Finish_def Let_def md5_pad_def md5_length_block_def md5_bits_words md5_emit_def)
  also have "\<dots> = md5_emit (fst (hash_blocks 64 md5_process (md5_state ?c1)
      (md5_pending ?c1 @ md5_length_block (md5_bits c))))"
    using MD5Update_laws(1,2) assms by simp
  finally show ?thesis
    using assms hash_blocks_append [of 64 md5_process "md5_state c" "md5_pending c @ md5_pad (md5_left c)"]
    by (simp add: MD5Update_laws length_md5_pending)
qed

interpretation md5: padded_hash 64 md5_process md5_state md5_pending md5_ok CRYPT_MD5Start
  CRYPT_MD5Update md5_bits "\<lambda>d. length d < 2 ^ 29" md5_pad md5_length_block md5_emit
  "\<lambda>c. snd (CRYPT_MD5Finish c)"
proof unfold_locales
  show "md5_ok CRYPT_MD5Start" "md5_pending CRYPT_MD5Start = []" "md5_bits CRYPT_MD5Start = 0"
    by (simp_all add: md5_ok_def CRYPT_MD5Start_def md5_pending_def md5_left_def md5_bits_def)
  show "0 < (64 :: nat)" by simp
qed (rule MD5Update_laws MD5Update_bits MD5Finish_law; assumption)+

lemma md5_padded_whole_blocks:
  "length (m @ md5_pad (length m mod 64) @ md5_length_block w) mod 64 = 0"
proof -
  obtain q r where m: "length m = 64 * q + r" and r: "r < 64"
    by (metis mod_less_divisor mult_div_mod_eq zero_less_numeral)
  have "length (md5_pad r) = (if r < 56 then 56 - r else 120 - r)"
    using r by (simp add: md5_pad_def md5_padding_def)
  then have "length (m @ md5_pad r @ md5_length_block w) = 64 * (q + (if r < 56 then 1 else 2))"
    using m r by (simp add: md5_length_block_def PUT_UINT32_def)
  moreover have "length m mod 64 = r" using m r by simp
  ultimately show ?thesis by (metis mod_mult_self1_is_0)
qed

section \<open>Properties\<close>

text \<open>
  C18: feeding a message to the MD5 context in any number of update calls, each of fewer than 2 to the
  29 bytes, and finishing yields the digest of the padded message as RFC 1321 defines it; in
  particular the result does not depend on how the message was cut.
\<close>

theorem md5_streaming_correct:
  assumes "list_all (\<lambda>d. length d < 2 ^ 29) ds"
  shows "snd (CRYPT_MD5Finish (foldl CRYPT_MD5Update CRYPT_MD5Start ds)) = md5_reference (concat ds)"
  using md5.digest_is_padded_chain [OF assms refl]
  by (simp add: md5_reference_def CRYPT_MD5Start_def)

theorem md5_streaming_correct_witness:
  "snd (CRYPT_MD5Finish (foldl CRYPT_MD5Update CRYPT_MD5Start [[97], [98, 99]])) =
     md5_reference [97, 98, 99]
   \<and> CRYPT_MD5Generate [97, 98, 99] =
     [0x90, 0x01, 0x50, 0x98, 0x3c, 0xd2, 0x4f, 0xb0, 0xd6, 0x96, 0x3f, 0x7d, 0x28, 0xe1, 0x7f, 0x72]"
proof
  show "snd (CRYPT_MD5Finish (foldl CRYPT_MD5Update CRYPT_MD5Start [[97], [98, 99]])) =
      md5_reference [97, 98, 99]"
    using md5_streaming_correct [of "[[97], [98, 99]]"] by simp
qed code_simp

text \<open>
  C39: one update call of exactly 2 to the 29 bytes (half a gibibyte) leaves the bit counter at twice
  the true bit count: the size shifted left by three is compared at 64 bits with the 32-bit low word,
  so the carry that the shift right by 29 already added to the high word is added again.
\<close>

theorem md5_large_update_miscounts:
  assumes "length d = 2 ^ 29"
  shows "md5_bits (CRYPT_MD5Update CRYPT_MD5Start d) = 2 * (8 * of_nat (length d))"
proof -
  have "d \<noteq> []" using assms by auto
  moreover have "ucast (push_bit 3 (2 ^ 29 :: u64)) = (0 :: u32)" "ucast (drop_bit 29 (2 ^ 29 :: u64)) = (1 :: u32)"
    by simp_all
  ultimately show ?thesis
    using assms
    by (simp add: CRYPT_MD5Update_def CRYPT_MD5Start_def Let_def md5_bits_def split: prod.splits)
qed

theorem md5_large_update_miscounts_witness:
  "md5_bits (CRYPT_MD5Update CRYPT_MD5Start (replicate (2 ^ 29) 0)) = 2 ^ 33"
  using md5_large_update_miscounts [of "replicate (2 ^ 29) 0"] by simp

end
