(* ===== verification/Rc4.thy ===== *)
theory Rc4
  imports Xilou_Prelude
begin

text \<open>
  The RC4 stream cipher of core/fdrm/fx_crypt.cpp: \<open>CRYPT_rc4_context\<close>, \<open>CRYPT_ArcFourSetup\<close>,
  \<open>CRYPT_ArcFourCrypt\<close> and \<open>CRYPT_ArcFourCryptBlock\<close>. The table stays a permutation of 0 to 255 and
  both indices stay inside it, crypting twice from one context is the identity, and a stream may be
  crypted in pieces.
\<close>

section \<open>Context and operations\<close>

record CRYPT_rc4_context =
  rc4_x :: nat
  rc4_y :: nat
  rc4_m :: "nat list"

definition kPermutationLength :: nat where
  "kPermutationLength = 256"

fun rc4_setup_step :: "bytes \<Rightarrow> nat \<times> nat list \<Rightarrow> nat \<Rightarrow> nat \<times> nat list" where
  "rc4_setup_step key (j, m) i =
     (let size = length key;
          j = (j + m ! i + (if size \<noteq> 0 then unat (key ! (i mod size)) else 0)) AND 0xFF
      in (j, swap m i j))"

definition CRYPT_ArcFourSetup :: "bytes \<Rightarrow> CRYPT_rc4_context" where
  "CRYPT_ArcFourSetup key =
     (let (j, m) = foldl (rc4_setup_step key) (0, [0..<kPermutationLength]) [0..<kPermutationLength]
      in \<lparr>rc4_x = 0, rc4_y = 0, rc4_m = m\<rparr>)"

definition rc4_next :: "CRYPT_rc4_context \<Rightarrow> CRYPT_rc4_context" where
  "rc4_next context =
     (let x = (rc4_x context + 1) AND 0xFF;
          y = (rc4_y context + rc4_m context ! x) AND 0xFF
      in \<lparr>rc4_x = x, rc4_y = y, rc4_m = swap (rc4_m context) x y\<rparr>)"

definition rc4_key_byte :: "CRYPT_rc4_context \<Rightarrow> byte" where
  "rc4_key_byte context =
     of_nat (rc4_m context ! ((rc4_m context ! rc4_x context + rc4_m context ! rc4_y context) AND 0xFF))"

fun CRYPT_ArcFourCrypt :: "CRYPT_rc4_context \<Rightarrow> bytes \<Rightarrow> CRYPT_rc4_context \<times> bytes" where
  "CRYPT_ArcFourCrypt context [] = (context, [])"
| "CRYPT_ArcFourCrypt context (datum # data) =
     (let context = rc4_next context;
          datum = datum XOR rc4_key_byte context;
          (context, data) = CRYPT_ArcFourCrypt context data
      in (context, datum # data))"

definition CRYPT_ArcFourCryptBlock :: "bytes \<Rightarrow> bytes \<Rightarrow> bytes" where
  "CRYPT_ArcFourCryptBlock data key = snd (CRYPT_ArcFourCrypt (CRYPT_ArcFourSetup key) data)"

section \<open>The table is a permutation\<close>

definition rc4_ok :: "CRYPT_rc4_context \<Rightarrow> bool" where
  "rc4_ok c \<longleftrightarrow> rc4_x c < 256 \<and> rc4_y c < 256 \<and> mset (rc4_m c) = mset [0..<256]"

lemma and_FF_nat: "n AND (0xFF :: nat) = n mod 256"
proof -
  have "n AND mask 8 = n mod 2 ^ 8" by (metis take_bit_eq_mask take_bit_eq_mod)
  then show ?thesis by (simp add: mask_eq_exp_minus_1)
qed

lemma permutation_length: "mset m = mset [0..<256] \<Longrightarrow> length m = 256"
  using size_mset by (metis diff_zero length_upt)

lemma rc4_setup_step_perm:
  assumes "mset m = mset [0..<256]" and "i < 256"
  shows "mset (snd (rc4_setup_step key (j, m) i)) = mset [0..<256]"
  using assms permutation_length [OF assms(1)] by (simp add: Let_def and_FF_nat)

lemma rc4_setup_perm:
  "mset m = mset [0..<256] \<Longrightarrow> list_all (\<lambda>i. i < 256) is \<Longrightarrow>
   mset (snd (foldl (rc4_setup_step key) (j, m) is)) = mset [0..<256]"
proof (induction "is" arbitrary: j m)
  case Nil
  then show ?case by simp
next
  case (Cons i "is")
  then show ?case
    using rc4_setup_step_perm [of m i key j] by (metis foldl_Cons list.pred_inject(2) prod.collapse)
qed

lemma rc4_ok_setup: "rc4_ok (CRYPT_ArcFourSetup key)"
proof -
  have "mset (snd (foldl (rc4_setup_step key) (0, [0..<256]) [0..<256])) = mset [0..<256]"
    by (rule rc4_setup_perm) (simp_all add: list_all_iff)
  then show ?thesis
    by (auto simp add: CRYPT_ArcFourSetup_def rc4_ok_def kPermutationLength_def split: prod.splits)
qed

lemma rc4_ok_next: "rc4_ok c \<Longrightarrow> rc4_ok (rc4_next c)"
  using permutation_length [of "rc4_m c"] by (simp add: rc4_ok_def rc4_next_def Let_def and_FF_nat)

lemma rc4_ok_crypt: "rc4_ok c \<Longrightarrow> rc4_ok (fst (CRYPT_ArcFourCrypt c data))"
  by (induction c data rule: CRYPT_ArcFourCrypt.induct) (auto simp add: Let_def rc4_ok_next split: prod.splits)

section \<open>Key stream\<close>

fun rc4_stream :: "CRYPT_rc4_context \<Rightarrow> nat \<Rightarrow> bytes" where
  "rc4_stream c 0 = []"
| "rc4_stream c (Suc n) = rc4_key_byte (rc4_next c) # rc4_stream (rc4_next c) n"

lemma length_rc4_stream [simp]: "length (rc4_stream c n) = n"
  by (induction n arbitrary: c) simp_all

lemma rc4_crypt_stream:
  "CRYPT_ArcFourCrypt c data =
     ((rc4_next ^^ length data) c, map2 (XOR) data (rc4_stream c (length data)))"
  by (induction c data rule: CRYPT_ArcFourCrypt.induct) (simp_all add: Let_def funpow_swap1)

lemma map2_xor_cancel:
  "length ks = length data \<Longrightarrow> map2 (XOR) (map2 (XOR) data ks) ks = (data :: bytes)"
  by (induction data ks rule: list_induct2') (simp_all add: xor.assoc)

section \<open>Properties\<close>

text \<open>
  C31: whatever the key (the empty key included) and however much data has been crypted, the
  table of an RC4 context is a permutation of the numbers 0 to 255 and both indices are below 256, so
  that every table access of the code is in range.
\<close>

theorem rc4_table_stays_permutation:
  "let c = fst (CRYPT_ArcFourCrypt (CRYPT_ArcFourSetup key) data)
   in mset (rc4_m c) = mset [0..<256] \<and> rc4_x c < 256 \<and> rc4_y c < 256"
  using rc4_ok_crypt [OF rc4_ok_setup, of key data] by (simp add: rc4_ok_def Let_def)

text \<open>
  crypting is its own inverse: decrypting with the key that encrypted gives the data back, for
  every key and every data; the same holds for a context in any state.
\<close>

theorem rc4_involution:
  "CRYPT_ArcFourCryptBlock (CRYPT_ArcFourCryptBlock data key) key = data \<and>
   snd (CRYPT_ArcFourCrypt c (snd (CRYPT_ArcFourCrypt c data))) = data"
  by (simp add: CRYPT_ArcFourCryptBlock_def rc4_crypt_stream map2_xor_cancel)

text \<open>
  crypting a stream in two calls gives the same context and the same bytes as crypting it in one.
\<close>

theorem rc4_incremental:
  "CRYPT_ArcFourCrypt c (a @ b) =
     (let (c1, a') = CRYPT_ArcFourCrypt c a; (c2, b') = CRYPT_ArcFourCrypt c1 b in (c2, a' @ b'))"
  by (induction c a rule: CRYPT_ArcFourCrypt.induct) (simp_all add: Let_def split: prod.splits)

end
