(* ===== verification/Sha1.thy ===== *)
theory Sha1
  imports Block_Hash
begin

text \<open>
  SHA-1 as core/fdrm/fx_crypt_sha.cpp implements it: \<open>CRYPT_sha1_context\<close>, \<open>SHATransform\<close> and the
  streaming calls. Its update function is organised differently from the other digests (the buffer
  fill level is a field and the block is always assembled in the buffer), and is shown to meet the
  same contract.
\<close>

section \<open>Context and compression\<close>

record CRYPT_sha1_context =
  sha1_total_bytes :: u64
  sha1_blkused :: nat
  sha1_h :: "u32 list"
  sha1_block :: bytes

definition SHA_Core_Init :: "u32 list" where
  "SHA_Core_Init = [0x67452301, 0xefcdab89, 0x98badcfe, 0x10325476, 0xc3d2e1f0]"

definition rol :: "u32 \<Rightarrow> nat \<Rightarrow> u32" where
  "rol x y = push_bit y x OR drop_bit (32 - y) x"

definition sha1_schedule :: "u32 list \<Rightarrow> u32 list" where
  "sha1_schedule block =
     foldl (\<lambda>w t. w @ [rol (w ! (t - 3) XOR w ! (t - 8) XOR w ! (t - 14) XOR w ! (t - 16)) 1])
       (take 16 block) [16..<80]"

fun sha1_round :: "(u32 \<Rightarrow> u32 \<Rightarrow> u32 \<Rightarrow> u32) \<Rightarrow> u32 \<Rightarrow> u32 \<times> u32 \<times> u32 \<times> u32 \<times> u32 \<Rightarrow> u32 \<Rightarrow>
    u32 \<times> u32 \<times> u32 \<times> u32 \<times> u32" where
  "sha1_round f k (a, b, c, d, e) wt =
     (let tmp = rol a 5 + f b c d + e + wt + k in (tmp, a, rol b 30, c, d))"

definition SHATransform :: "u32 list \<Rightarrow> u32 list \<Rightarrow> u32 list" where
  "SHATransform digest block =
     (let w = sha1_schedule block;
          r = (digest ! 0, digest ! 1, digest ! 2, digest ! 3, digest ! 4);
          r = foldl (sha1_round (\<lambda>b c d. (b AND c) OR (d AND NOT b)) 0x5a827999) r (take 20 w);
          r = foldl (sha1_round (\<lambda>b c d. b XOR c XOR d) 0x6ed9eba1) r (take 20 (drop 20 w));
          r = foldl (sha1_round (\<lambda>b c d. (b AND c) OR (b AND d) OR (c AND d)) 0x8f1bbcdc) r
                (take 20 (drop 40 w));
          (a, b, c, d, e) = foldl (sha1_round (\<lambda>b c d. b XOR c XOR d) 0xca62c1d6) r (take 20 (drop 60 w))
      in [digest ! 0 + a, digest ! 1 + b, digest ! 2 + c, digest ! 3 + d, digest ! 4 + e])"

section \<open>The streaming interface\<close>

definition sha1_wordblock :: "bytes \<Rightarrow> u32 list" where
  "sha1_wordblock block = map (\<lambda>i.
     push_bit 24 (ucast (block ! (i * 4))) OR push_bit 16 (ucast (block ! (i * 4 + 1))) OR
     push_bit 8 (ucast (block ! (i * 4 + 2))) OR push_bit 0 (ucast (block ! (i * 4 + 3)))) [0..<16]"

definition CRYPT_SHA1Start :: CRYPT_sha1_context where
  "CRYPT_SHA1Start = \<lparr>sha1_total_bytes = 0, sha1_blkused = 0, sha1_h = SHA_Core_Init,
     sha1_block = replicate 64 0\<rparr>"

text \<open>
  The loop of \<open>CRYPT_SHA1Update\<close>. The field \<open>blkused\<close> is documented as constrained to [0, 64); the
  guard repeats that constraint, and the invariant below shows it always holds.
\<close>

function sha1_update_loop :: "u32 list \<Rightarrow> bytes \<Rightarrow> nat \<Rightarrow> bytes \<Rightarrow> u32 list \<times> bytes \<times> bytes" where
  "sha1_update_loop h block blkused data =
     (if blkused < 64 \<and> 64 - blkused \<le> length data
      then let n = 64 - blkused;
               block = memcpy block blkused (take n data)
           in sha1_update_loop (SHATransform h (sha1_wordblock block)) block 0 (drop n data)
      else (h, block, data))"
  by pat_completeness auto
termination
  by (relation "measure (\<lambda>(h, block, blkused, data). length data)") auto

declare sha1_update_loop.simps [simp del]

definition CRYPT_SHA1Update :: "CRYPT_sha1_context \<Rightarrow> bytes \<Rightarrow> CRYPT_sha1_context" where
  "CRYPT_SHA1Update context data =
     (let size = length data; used = sha1_blkused context;
          context = context\<lparr>sha1_total_bytes := sha1_total_bytes context + of_nat size\<rparr>
      in if used \<noteq> 0 \<and> size < 64 - used
         then context\<lparr>sha1_block := memcpy (sha1_block context) used data, sha1_blkused := used + size\<rparr>
         else let (h, block, data) = sha1_update_loop (sha1_h context) (sha1_block context) used data
              in context\<lparr>sha1_h := h, sha1_block := memcpy block 0 data, sha1_blkused := length data\<rparr>)"

definition sha1_put_word :: "u32 \<Rightarrow> bytes" where
  "sha1_put_word n = [ucast (drop_bit 24 n AND 0xFF), ucast (drop_bit 16 n AND 0xFF),
     ucast (drop_bit 8 n AND 0xFF), ucast (n AND 0xFF)]"

definition sha1_length_block :: "u64 \<Rightarrow> bytes" where
  "sha1_length_block n = map (\<lambda>s. ucast (drop_bit s n AND 0xFF)) [56, 48, 40, 32, 24, 16, 8, 0]"

definition CRYPT_SHA1Finish :: "CRYPT_sha1_context \<Rightarrow> CRYPT_sha1_context \<times> bytes" where
  "CRYPT_SHA1Finish context =
     (let total_bits = 8 * sha1_total_bytes context;
          pad = (if 56 \<le> sha1_blkused context then 56 + 64 - sha1_blkused context
                 else 56 - sha1_blkused context);
          context = CRYPT_SHA1Update context ((replicate pad 0)[0 := 0x80]);
          context = CRYPT_SHA1Update context (sha1_length_block total_bits)
      in (context, concat (map (\<lambda>i. sha1_put_word (sha1_h context ! i)) [0..<5])))"

definition CRYPT_SHA1Generate :: "bytes \<Rightarrow> bytes" where
  "CRYPT_SHA1Generate data =
     (let s = CRYPT_SHA1Start; s = CRYPT_SHA1Update s data in snd (CRYPT_SHA1Finish s))"

section \<open>The context as a padded streaming hash\<close>

definition sha1_process :: "u32 list \<Rightarrow> bytes \<Rightarrow> u32 list" where
  "sha1_process h block = SHATransform h (sha1_wordblock block)"

definition sha1_pending :: "CRYPT_sha1_context \<Rightarrow> bytes" where
  "sha1_pending c = take (sha1_blkused c) (sha1_block c)"

definition sha1_ok :: "CRYPT_sha1_context \<Rightarrow> bool" where
  "sha1_ok c \<longleftrightarrow> sha1_blkused c < 64 \<and> length (sha1_block c) = 64 \<and> length (sha1_h c) = 5"

definition sha1_bits :: "CRYPT_sha1_context \<Rightarrow> u64" where
  "sha1_bits c = 8 * sha1_total_bytes c"

definition sha1_pad :: "nat \<Rightarrow> bytes" where
  "sha1_pad n = (replicate (if 56 \<le> n then 56 + 64 - n else 56 - n) 0)[0 := 0x80]"

definition sha1_emit :: "u32 list \<Rightarrow> bytes" where
  "sha1_emit h = concat (map (\<lambda>i. sha1_put_word (h ! i)) [0..<5])"

definition sha1_reference :: "bytes \<Rightarrow> bytes" where
  "sha1_reference m = sha1_emit (fst (hash_blocks 64 sha1_process SHA_Core_Init
     (m @ sha1_pad (length m mod 64) @ sha1_length_block (8 * of_nat (length m)))))"

lemma length_sha1_process: "length (sha1_process h b) = 5"
  by (simp add: sha1_process_def SHATransform_def Let_def split: prod.splits)

lemma sha1_update_loop_aligned:
  assumes "length block = 64"
  shows "\<exists>block'. sha1_update_loop h block 0 data =
      (fst (hash_blocks 64 sha1_process h data), block', snd (hash_blocks 64 sha1_process h data))
    \<and> length block' = 64"
  using assms
proof (induction data arbitrary: h block rule: length_induct)
  case (1 data)
  show ?case
  proof (cases "length data < 64")
    case True
    then show ?thesis using "1.prems" by (subst sha1_update_loop.simps) simp
  next
    case False
    let ?b = "memcpy block 0 (take 64 data)"
    have b: "?b = take 64 data" "length ?b = 64"
      using False "1.prems" by (simp_all add: memcpy_def)
    have "hash_blocks 64 sha1_process h data =
        hash_blocks 64 sha1_process (sha1_process h (take 64 data)) (drop 64 data)"
      using False by (subst hash_blocks.simps) simp
    moreover have "sha1_update_loop h block 0 data =
        sha1_update_loop (sha1_process h (take 64 data)) ?b 0 (drop 64 data)"
      using False b by (subst sha1_update_loop.simps) (simp add: Let_def sha1_process_def)
    ultimately show ?thesis
      using "1.IH" [rule_format, of "drop 64 data" ?b] False b(2) by simp
  qed
qed

lemma sha1_update_loop_fill:
  assumes "0 < used" "used < 64" "length block = 64" "64 - used \<le> length data"
  shows "\<exists>block'. sha1_update_loop h block used data =
      (fst (hash_blocks 64 sha1_process h (take used block @ data)), block',
       snd (hash_blocks 64 sha1_process h (take used block @ data)))
    \<and> length block' = 64"
proof -
  let ?n = "64 - used"
  let ?b = "memcpy block used (take ?n data)"
  have b: "?b = take used block @ take ?n data" "length ?b = 64"
    using assms by (simp_all add: memcpy_def)
  have "sha1_update_loop h block used data = sha1_update_loop (sha1_process h ?b) ?b 0 (drop ?n data)"
    using assms by (subst sha1_update_loop.simps) (simp add: Let_def sha1_process_def)
  moreover have "hash_blocks 64 sha1_process h (take used block @ data) =
      hash_blocks 64 sha1_process (sha1_process h ?b) (drop ?n data)"
    using hash_blocks_step [of 64 ?b sha1_process h "drop ?n data"] b by simp
  ultimately show ?thesis
    using sha1_update_loop_aligned [OF b(2), of "sha1_process h ?b" "drop ?n data"] by simp
qed

lemma SHA1Update_core:
  fixes d :: bytes
  assumes ok: "sha1_ok c"
  defines "r \<equiv> hash_blocks 64 sha1_process (sha1_h c) (sha1_pending c @ d)"
  shows "sha1_h (CRYPT_SHA1Update c d) = fst r \<and> sha1_pending (CRYPT_SHA1Update c d) = snd r \<and>
    sha1_blkused (CRYPT_SHA1Update c d) < 64 \<and> length (sha1_block (CRYPT_SHA1Update c d)) = 64"
proof (cases "sha1_blkused c \<noteq> 0 \<and> length d < 64 - sha1_blkused c")
  case True
  then have "sha1_blkused c + length d < 64" by linarith
  with True show ?thesis
    using ok take_memcpy [of "sha1_blkused c" d "sha1_block c"]
    by (simp add: CRYPT_SHA1Update_def Let_def sha1_ok_def sha1_pending_def r_def)
next
  case False
  have bu: "sha1_blkused c < 64" "length (sha1_block c) = 64" using ok by (simp_all add: sha1_ok_def)
  obtain block' where
    loop: "sha1_update_loop (sha1_h c) (sha1_block c) (sha1_blkused c) d = (fst r, block', snd r)"
    and len: "length block' = 64"
  proof (cases "sha1_blkused c = 0")
    case True
    then show thesis
      using that sha1_update_loop_aligned [OF bu(2), of "sha1_h c" d] by (auto simp: r_def sha1_pending_def)
  next
    case nz: False
    then show thesis
      using that False bu sha1_update_loop_fill [of "sha1_blkused c" "sha1_block c" d "sha1_h c"]
      by (auto simp: r_def sha1_pending_def)
  qed
  have "length (snd r) < 64" by (simp add: r_def length_hash_blocks_rest)
  then show ?thesis
    using False loop len take_memcpy [of 0 "snd r" block']
    by (auto simp: CRYPT_SHA1Update_def Let_def sha1_pending_def)
qed

lemma SHA1Update_laws:
  assumes "sha1_ok c"
  shows "sha1_ok (CRYPT_SHA1Update c d)"
    and "sha1_h (CRYPT_SHA1Update c d) = fst (hash_blocks 64 sha1_process (sha1_h c) (sha1_pending c @ d))"
    and "sha1_pending (CRYPT_SHA1Update c d) = snd (hash_blocks 64 sha1_process (sha1_h c) (sha1_pending c @ d))"
    and "sha1_bits (CRYPT_SHA1Update c d) = sha1_bits c + 8 * of_nat (length d)"
proof -
  have "sha1_total_bytes (CRYPT_SHA1Update c d) = sha1_total_bytes c + of_nat (length d)"
    by (simp add: CRYPT_SHA1Update_def Let_def split: prod.splits)
  then show "sha1_bits (CRYPT_SHA1Update c d) = sha1_bits c + 8 * of_nat (length d)"
    by (simp add: sha1_bits_def algebra_simps)
qed (use SHA1Update_core [OF assms, of d] assms in
    \<open>simp_all add: sha1_ok_def hash_blocks_length length_sha1_process\<close>)

lemma SHA1Finish_law:
  assumes "sha1_ok c"
  shows "snd (CRYPT_SHA1Finish c) = sha1_emit (fst (hash_blocks 64 sha1_process (sha1_h c)
    (sha1_pending c @ sha1_pad (length (sha1_pending c)) @ sha1_length_block (sha1_bits c))))"
proof -
  let ?c1 = "CRYPT_SHA1Update c (sha1_pad (sha1_blkused c))"
  have "snd (CRYPT_SHA1Finish c) = sha1_emit (sha1_h (CRYPT_SHA1Update ?c1 (sha1_length_block (sha1_bits c))))"
    by (simp add: CRYPT_SHA1Finish_def Let_def sha1_pad_def sha1_bits_def sha1_emit_def)
  moreover have "length (sha1_pending c) = sha1_blkused c"
    using assms by (simp add: sha1_ok_def sha1_pending_def)
  ultimately show ?thesis
    using assms hash_blocks_append [of 64 sha1_process "sha1_h c" "sha1_pending c @ sha1_pad (sha1_blkused c)"]
    by (simp add: SHA1Update_laws)
qed

interpretation sha1: padded_hash 64 sha1_process sha1_h sha1_pending sha1_ok CRYPT_SHA1Start
  CRYPT_SHA1Update sha1_bits "\<lambda>d. True" sha1_pad sha1_length_block sha1_emit
  "\<lambda>c. snd (CRYPT_SHA1Finish c)"
proof unfold_locales
  show "sha1_ok CRYPT_SHA1Start" "sha1_pending CRYPT_SHA1Start = []" "sha1_bits CRYPT_SHA1Start = 0"
    by (simp_all add: CRYPT_SHA1Start_def sha1_ok_def sha1_pending_def sha1_bits_def SHA_Core_Init_def)
  show "0 < (64 :: nat)" by simp
qed (rule SHA1Update_laws SHA1Finish_law; assumption)+

section \<open>Properties\<close>

text \<open>
  SHA-1's update function, which always assembles blocks in its own buffer, computes the digest of
  the padded message however the message is cut into calls.
\<close>

theorem sha1_streaming_correct:
  "snd (CRYPT_SHA1Finish (foldl CRYPT_SHA1Update CRYPT_SHA1Start ds)) = sha1_reference (concat ds)"
  using sha1.digest_is_padded_chain [of ds, OF _ refl]
  by (simp add: sha1_reference_def CRYPT_SHA1Start_def list.pred_True)

end
