(* ===== verification/Sha2.thy ===== *)
theory Sha2
  imports Block_Hash
begin

text \<open>
  SHA-256, SHA-384 and SHA-512 as core/fdrm/fx_crypt_sha.cpp implements them on the shared
  \<open>CRYPT_sha2_context\<close>. The chaining words are 64 bits wide for all three: SHA-256 truncates them to
  32 bits when it loads them and lets the additions run over into the upper half.
\<close>

section \<open>Context and big-endian access\<close>

record CRYPT_sha2_context =
  sha2_total_bytes :: u64
  sha2_state :: "u64 list"
  sha2_buffer :: bytes

definition SHA_GET_UINT32 :: "bytes \<Rightarrow> nat \<Rightarrow> u32" where
  "SHA_GET_UINT32 b i =
     push_bit 24 (ucast (b ! i)) OR push_bit 16 (ucast (b ! (i + 1))) OR
     push_bit 8 (ucast (b ! (i + 2))) OR ucast (b ! (i + 3))"

definition SHA_PUT_UINT32 :: "u64 \<Rightarrow> bytes" where
  "SHA_PUT_UINT32 n =
     [ucast (drop_bit 24 n), ucast (drop_bit 16 n), ucast (drop_bit 8 n), ucast n]"

definition SHA_GET_UINT64 :: "bytes \<Rightarrow> nat \<Rightarrow> u64" where
  "SHA_GET_UINT64 b i =
     push_bit 56 (ucast (b ! i)) OR push_bit 48 (ucast (b ! (i + 1))) OR
     push_bit 40 (ucast (b ! (i + 2))) OR push_bit 32 (ucast (b ! (i + 3))) OR
     push_bit 24 (ucast (b ! (i + 4))) OR push_bit 16 (ucast (b ! (i + 5))) OR
     push_bit 8 (ucast (b ! (i + 6))) OR ucast (b ! (i + 7))"

definition SHA_PUT_UINT64 :: "u64 \<Rightarrow> bytes" where
  "SHA_PUT_UINT64 n =
     [ucast (drop_bit 56 n), ucast (drop_bit 48 n), ucast (drop_bit 40 n), ucast (drop_bit 32 n),
      ucast (drop_bit 24 n), ucast (drop_bit 16 n), ucast (drop_bit 8 n), ucast n]"

section \<open>SHA-256 compression\<close>

definition SHR :: "u32 \<Rightarrow> nat \<Rightarrow> u32" where
  "SHR x n = drop_bit n (x AND 0xFFFFFFFF)"

definition ROTR :: "u32 \<Rightarrow> nat \<Rightarrow> u32" where
  "ROTR x n = SHR x n OR push_bit (32 - n) x"

definition sha256_S0 :: "u32 \<Rightarrow> u32" where
  "sha256_S0 x = ROTR x 7 XOR ROTR x 18 XOR SHR x 3"

definition sha256_S1 :: "u32 \<Rightarrow> u32" where
  "sha256_S1 x = ROTR x 17 XOR ROTR x 19 XOR SHR x 10"

definition sha256_S2 :: "u32 \<Rightarrow> u32" where
  "sha256_S2 x = ROTR x 2 XOR ROTR x 13 XOR ROTR x 22"

definition sha256_S3 :: "u32 \<Rightarrow> u32" where
  "sha256_S3 x = ROTR x 6 XOR ROTR x 11 XOR ROTR x 25"

definition sha2_F0 :: "'a::len word \<Rightarrow> 'a word \<Rightarrow> 'a word \<Rightarrow> 'a word" where
  "sha2_F0 x y z = (x AND y) OR (z AND (x OR y))"

definition sha2_F1 :: "'a::len word \<Rightarrow> 'a word \<Rightarrow> 'a word \<Rightarrow> 'a word" where
  "sha2_F1 x y z = z XOR (x AND (y XOR z))"

text \<open>
  One line \<open>PS(a, ..., h, x, K)\<close>; the registers come back in the order the next line names them.
\<close>

fun sha256_PS :: "u32 \<times> u32 \<times> u32 \<times> u32 \<times> u32 \<times> u32 \<times> u32 \<times> u32 \<Rightarrow> u32 \<times> u32 \<Rightarrow>
    u32 \<times> u32 \<times> u32 \<times> u32 \<times> u32 \<times> u32 \<times> u32 \<times> u32" where
  "sha256_PS (a, b, c, d, e, f, g, h) (x, K) =
     (let temp1 = h + sha256_S3 e + sha2_F1 e f g + K + x;
          temp2 = sha256_S2 a + sha2_F0 a b c
      in (temp1 + temp2, a, b, c, d + temp1, e, f, g))"

definition sha256_K :: "u32 list" where
  "sha256_K = [
    0x428A2F98, 0x71374491, 0xB5C0FBCF, 0xE9B5DBA5, 0x3956C25B, 0x59F111F1,
    0x923F82A4, 0xAB1C5ED5, 0xD807AA98, 0x12835B01, 0x243185BE, 0x550C7DC3,
    0x72BE5D74, 0x80DEB1FE, 0x9BDC06A7, 0xC19BF174, 0xE49B69C1, 0xEFBE4786,
    0x0FC19DC6, 0x240CA1CC, 0x2DE92C6F, 0x4A7484AA, 0x5CB0A9DC, 0x76F988DA,
    0x983E5152, 0xA831C66D, 0xB00327C8, 0xBF597FC7, 0xC6E00BF3, 0xD5A79147,
    0x06CA6351, 0x14292967, 0x27B70A85, 0x2E1B2138, 0x4D2C6DFC, 0x53380D13,
    0x650A7354, 0x766A0ABB, 0x81C2C92E, 0x92722C85, 0xA2BFE8A1, 0xA81A664B,
    0xC24B8B70, 0xC76C51A3, 0xD192E819, 0xD6990624, 0xF40E3585, 0x106AA070,
    0x19A4C116, 0x1E376C08, 0x2748774C, 0x34B0BCB5, 0x391C0CB3, 0x4ED8AA4A,
    0x5B9CCA4F, 0x682E6FF3, 0x748F82EE, 0x78A5636F, 0x84C87814, 0x8CC70208,
    0x90BEFFFA, 0xA4506CEB, 0xBEF9A3F7, 0xC67178F2]"

definition sha256_W :: "bytes \<Rightarrow> u32 list" where
  "sha256_W data =
     foldl (\<lambda>W t. W @ [sha256_S1 (W ! (t - 2)) + W ! (t - 7) + sha256_S0 (W ! (t - 15)) + W ! (t - 16)])
       (map (\<lambda>i. SHA_GET_UINT32 data (4 * i)) [0..<16]) [16..<64]"

definition sha256_process :: "u64 list \<Rightarrow> bytes \<Rightarrow> u64 list" where
  "sha256_process state data =
     (let (A, B, C, D, E, F, G, H) =
            foldl sha256_PS (ucast (state ! 0), ucast (state ! 1), ucast (state ! 2), ucast (state ! 3),
              ucast (state ! 4), ucast (state ! 5), ucast (state ! 6), ucast (state ! 7))
            (zip (sha256_W data) sha256_K)
      in [state ! 0 + ucast A, state ! 1 + ucast B, state ! 2 + ucast C, state ! 3 + ucast D,
          state ! 4 + ucast E, state ! 5 + ucast F, state ! 6 + ucast G, state ! 7 + ucast H])"

section \<open>SHA-384 and SHA-512 compression\<close>

definition SHA384_ROTR :: "u64 \<Rightarrow> nat \<Rightarrow> u64" where
  "SHA384_ROTR x n = drop_bit n x OR push_bit (64 - n) x"

definition SHA384_S0 :: "u64 \<Rightarrow> u64" where
  "SHA384_S0 x = SHA384_ROTR x 1 XOR SHA384_ROTR x 8 XOR drop_bit 7 x"

definition SHA384_S1 :: "u64 \<Rightarrow> u64" where
  "SHA384_S1 x = SHA384_ROTR x 19 XOR SHA384_ROTR x 61 XOR drop_bit 6 x"

definition SHA384_S2 :: "u64 \<Rightarrow> u64" where
  "SHA384_S2 x = SHA384_ROTR x 28 XOR SHA384_ROTR x 34 XOR SHA384_ROTR x 39"

definition SHA384_S3 :: "u64 \<Rightarrow> u64" where
  "SHA384_S3 x = SHA384_ROTR x 14 XOR SHA384_ROTR x 18 XOR SHA384_ROTR x 41"

fun SHA384_P :: "u64 \<times> u64 \<times> u64 \<times> u64 \<times> u64 \<times> u64 \<times> u64 \<times> u64 \<Rightarrow> u64 \<times> u64 \<Rightarrow>
    u64 \<times> u64 \<times> u64 \<times> u64 \<times> u64 \<times> u64 \<times> u64 \<times> u64" where
  "SHA384_P (a, b, c, d, e, f, g, h) (x, K) =
     (let temp1 = h + SHA384_S3 e + sha2_F1 e f g + K + x;
          temp2 = SHA384_S2 a + sha2_F0 a b c
      in (temp1 + temp2, a, b, c, d + temp1, e, f, g))"

definition sha512_constants :: "u64 list" where
  "sha512_constants = [
    0x428A2F98D728AE22, 0x7137449123EF65CD, 0xB5C0FBCFEC4D3B2F, 0xE9B5DBA58189DBBC,
    0x3956C25BF348B538, 0x59F111F1B605D019, 0x923F82A4AF194F9B, 0xAB1C5ED5DA6D8118,
    0xD807AA98A3030242, 0x12835B0145706FBE, 0x243185BE4EE4B28C, 0x550C7DC3D5FFB4E2,
    0x72BE5D74F27B896F, 0x80DEB1FE3B1696B1, 0x9BDC06A725C71235, 0xC19BF174CF692694,
    0xE49B69C19EF14AD2, 0xEFBE4786384F25E3, 0x0FC19DC68B8CD5B5, 0x240CA1CC77AC9C65,
    0x2DE92C6F592B0275, 0x4A7484AA6EA6E483, 0x5CB0A9DCBD41FBD4, 0x76F988DA831153B5,
    0x983E5152EE66DFAB, 0xA831C66D2DB43210, 0xB00327C898FB213F, 0xBF597FC7BEEF0EE4,
    0xC6E00BF33DA88FC2, 0xD5A79147930AA725, 0x06CA6351E003826F, 0x142929670A0E6E70,
    0x27B70A8546D22FFC, 0x2E1B21385C26C926, 0x4D2C6DFC5AC42AED, 0x53380D139D95B3DF,
    0x650A73548BAF63DE, 0x766A0ABB3C77B2A8, 0x81C2C92E47EDAEE6, 0x92722C851482353B,
    0xA2BFE8A14CF10364, 0xA81A664BBC423001, 0xC24B8B70D0F89791, 0xC76C51A30654BE30,
    0xD192E819D6EF5218, 0xD69906245565A910, 0xF40E35855771202A, 0x106AA07032BBD1B8,
    0x19A4C116B8D2D0C8, 0x1E376C085141AB53, 0x2748774CDF8EEB99, 0x34B0BCB5E19B48A8,
    0x391C0CB3C5C95A63, 0x4ED8AA4AE3418ACB, 0x5B9CCA4F7763E373, 0x682E6FF3D6B2B8A3,
    0x748F82EE5DEFB2FC, 0x78A5636F43172F60, 0x84C87814A1F0AB72, 0x8CC702081A6439EC,
    0x90BEFFFA23631E28, 0xA4506CEBDE82BDE9, 0xBEF9A3F7B2C67915, 0xC67178F2E372532B,
    0xCA273ECEEA26619C, 0xD186B8C721C0C207, 0xEADA7DD6CDE0EB1E, 0xF57D4F7FEE6ED178,
    0x06F067AA72176FBA, 0x0A637DC5A2C898A6, 0x113F9804BEF90DAE, 0x1B710B35131C471B,
    0x28DB77F523047D84, 0x32CAAB7B40C72493, 0x3C9EBE0A15C9BEBC, 0x431D67C49C100D4C,
    0x4CC5D4BECB3E42B6, 0x597F299CFC657E2A, 0x5FCB6FAB3AD6FAEC, 0x6C44198C4A475817]"

definition sha384_W :: "bytes \<Rightarrow> u64 list" where
  "sha384_W data =
     foldl (\<lambda>W t. W @ [SHA384_S1 (W ! (t - 2)) + W ! (t - 7) + SHA384_S0 (W ! (t - 15)) + W ! (t - 16)])
       (map (\<lambda>i. SHA_GET_UINT64 data (8 * i)) [0..<16]) [16..<80]"

definition sha384_process :: "u64 list \<Rightarrow> bytes \<Rightarrow> u64 list" where
  "sha384_process state data =
     (let (A, B, C, D, E, F, G, H) =
            foldl SHA384_P (state ! 0, state ! 1, state ! 2, state ! 3, state ! 4, state ! 5, state ! 6, state ! 7)
              (zip (sha384_W data) sha512_constants)
      in [state ! 0 + A, state ! 1 + B, state ! 2 + C, state ! 3 + D,
          state ! 4 + E, state ! 5 + F, state ! 6 + G, state ! 7 + H])"

section \<open>The streaming interfaces\<close>

definition sha256_padding :: bytes where
  "sha256_padding = 0x80 # replicate 63 0"

definition sha384_padding :: bytes where
  "sha384_padding = 0x80 # replicate 127 0"

definition CRYPT_SHA256Start :: CRYPT_sha2_context where
  "CRYPT_SHA256Start = \<lparr>sha2_total_bytes = 0,
     sha2_state = [0x6A09E667, 0xBB67AE85, 0x3C6EF372, 0xA54FF53A, 0x510E527F, 0x9B05688C, 0x1F83D9AB, 0x5BE0CD19],
     sha2_buffer = replicate 128 0\<rparr>"

definition CRYPT_SHA256Update :: "CRYPT_sha2_context \<Rightarrow> bytes \<Rightarrow> CRYPT_sha2_context" where
  "CRYPT_SHA256Update context data =
     (if data = [] then context
      else let left = unat (sha2_total_bytes context AND 0x3F);
               (st, buf) = md_absorb 64 sha256_process left (sha2_state context) (sha2_buffer context) data
           in \<lparr>sha2_total_bytes = sha2_total_bytes context + of_nat (length data),
               sha2_state = st, sha2_buffer = buf\<rparr>)"

definition CRYPT_SHA256Finish :: "CRYPT_sha2_context \<Rightarrow> CRYPT_sha2_context \<times> bytes" where
  "CRYPT_SHA256Finish context =
     (let total_bits = 8 * sha2_total_bytes context;
          msglen = SHA_PUT_UINT64 total_bits;
          last = unat (sha2_total_bytes context AND 0x3F);
          padn = (if last < 56 then 56 - last else 120 - last);
          context = CRYPT_SHA256Update context (take padn sha256_padding);
          context = CRYPT_SHA256Update context msglen
      in (context, concat (map (\<lambda>i. SHA_PUT_UINT32 (sha2_state context ! i)) [0..<8])))"

definition CRYPT_SHA256Generate :: "bytes \<Rightarrow> bytes" where
  "CRYPT_SHA256Generate data = snd (CRYPT_SHA256Finish (CRYPT_SHA256Update CRYPT_SHA256Start data))"

definition CRYPT_SHA384Start :: CRYPT_sha2_context where
  "CRYPT_SHA384Start = \<lparr>sha2_total_bytes = 0,
     sha2_state = [0xCBBB9D5DC1059ED8, 0x629A292A367CD507, 0x9159015A3070DD17, 0x152FECD8F70E5939,
       0x67332667FFC00B31, 0x8EB44A8768581511, 0xDB0C2E0D64F98FA7, 0x47B5481DBEFA4FA4],
     sha2_buffer = replicate 128 0\<rparr>"

definition CRYPT_SHA384Update :: "CRYPT_sha2_context \<Rightarrow> bytes \<Rightarrow> CRYPT_sha2_context" where
  "CRYPT_SHA384Update context data =
     (if data = [] then context
      else let left = unat (sha2_total_bytes context AND 0x7F);
               (st, buf) = md_absorb 128 sha384_process left (sha2_state context) (sha2_buffer context) data
           in \<lparr>sha2_total_bytes = sha2_total_bytes context + of_nat (length data),
               sha2_state = st, sha2_buffer = buf\<rparr>)"

definition CRYPT_SHA384Finish :: "CRYPT_sha2_context \<Rightarrow> CRYPT_sha2_context \<times> bytes" where
  "CRYPT_SHA384Finish context =
     (let total_bits = 8 * sha2_total_bytes context;
          msglen = SHA_PUT_UINT64 0 @ SHA_PUT_UINT64 total_bits;
          last = unat (sha2_total_bytes context AND 0x7F);
          padn = (if last < 112 then 112 - last else 240 - last);
          context = CRYPT_SHA384Update context (take padn sha384_padding);
          context = CRYPT_SHA384Update context msglen
      in (context, concat (map (\<lambda>i. SHA_PUT_UINT64 (sha2_state context ! i)) [0..<6])))"

definition CRYPT_SHA384Generate :: "bytes \<Rightarrow> bytes" where
  "CRYPT_SHA384Generate data = snd (CRYPT_SHA384Finish (CRYPT_SHA384Update CRYPT_SHA384Start data))"

definition CRYPT_SHA512Start :: CRYPT_sha2_context where
  "CRYPT_SHA512Start = \<lparr>sha2_total_bytes = 0,
     sha2_state = [0x6A09E667F3BCC908, 0xBB67AE8584CAA73B, 0x3C6EF372FE94F82B, 0xA54FF53A5F1D36F1,
       0x510E527FADE682D1, 0x9B05688C2B3E6C1F, 0x1F83D9ABFB41BD6B, 0x5BE0CD19137E2179],
     sha2_buffer = replicate 128 0\<rparr>"

definition CRYPT_SHA512Update :: "CRYPT_sha2_context \<Rightarrow> bytes \<Rightarrow> CRYPT_sha2_context" where
  "CRYPT_SHA512Update context data = CRYPT_SHA384Update context data"

definition CRYPT_SHA512Finish :: "CRYPT_sha2_context \<Rightarrow> CRYPT_sha2_context \<times> bytes" where
  "CRYPT_SHA512Finish context =
     (let total_bits = 8 * sha2_total_bytes context;
          msglen = SHA_PUT_UINT64 0 @ SHA_PUT_UINT64 total_bits;
          last = unat (sha2_total_bytes context AND 0x7F);
          padn = (if last < 112 then 112 - last else 240 - last);
          context = CRYPT_SHA512Update context (take padn sha384_padding);
          context = CRYPT_SHA512Update context msglen
      in (context, concat (map (\<lambda>i. SHA_PUT_UINT64 (sha2_state context ! i)) [0..<8])))"

definition CRYPT_SHA512Generate :: "bytes \<Rightarrow> bytes" where
  "CRYPT_SHA512Generate data = snd (CRYPT_SHA512Finish (CRYPT_SHA512Update CRYPT_SHA512Start data))"

section \<open>The contexts as padded streaming hashes\<close>

text \<open>
  Both update functions are one scheme, instantiated at blocks of 2 to the \<open>k\<close> bytes for \<open>k\<close> = 6
  and \<open>k\<close> = 7.
\<close>

definition sha2_left :: "nat \<Rightarrow> CRYPT_sha2_context \<Rightarrow> nat" where
  "sha2_left k c = unat (sha2_total_bytes c AND mask k)"

definition sha2_pending :: "nat \<Rightarrow> CRYPT_sha2_context \<Rightarrow> bytes" where
  "sha2_pending k c = take (sha2_left k c) (sha2_buffer c)"

definition sha2_ok :: "CRYPT_sha2_context \<Rightarrow> bool" where
  "sha2_ok c \<longleftrightarrow> length (sha2_buffer c) = 128 \<and> length (sha2_state c) = 8"

definition sha2_bits :: "CRYPT_sha2_context \<Rightarrow> u64" where
  "sha2_bits c = 8 * sha2_total_bytes c"

definition sha2_update :: "nat \<Rightarrow> (u64 list \<Rightarrow> bytes \<Rightarrow> u64 list) \<Rightarrow>
    CRYPT_sha2_context \<Rightarrow> bytes \<Rightarrow> CRYPT_sha2_context" where
  "sha2_update k process c d =
     (let (st, buf) = md_absorb (2 ^ k) process (sha2_left k c) (sha2_state c) (sha2_buffer c) d
      in \<lparr>sha2_total_bytes = sha2_total_bytes c + of_nat (length d), sha2_state = st, sha2_buffer = buf\<rparr>)"

definition sha256_pad :: "nat \<Rightarrow> bytes" where
  "sha256_pad n = take (if n < 56 then 56 - n else 120 - n) sha256_padding"

definition sha384_pad :: "nat \<Rightarrow> bytes" where
  "sha384_pad n = take (if n < 112 then 112 - n else 240 - n) sha384_padding"

definition sha512_length_block :: "u64 \<Rightarrow> bytes" where
  "sha512_length_block w = SHA_PUT_UINT64 0 @ SHA_PUT_UINT64 w"

definition sha256_emit :: "u64 list \<Rightarrow> bytes" where
  "sha256_emit st = concat (map (\<lambda>i. SHA_PUT_UINT32 (st ! i)) [0..<8])"

definition sha512_emit :: "nat \<Rightarrow> u64 list \<Rightarrow> bytes" where
  "sha512_emit n st = concat (map (\<lambda>i. SHA_PUT_UINT64 (st ! i)) [0..<n])"

text \<open>The digests of a message by the FIPS 180 description: pad, append the bit count, chain.\<close>

definition sha256_reference :: "bytes \<Rightarrow> bytes" where
  "sha256_reference m = sha256_emit (fst (hash_blocks 64 sha256_process (sha2_state CRYPT_SHA256Start)
     (m @ sha256_pad (length m mod 64) @ SHA_PUT_UINT64 (8 * of_nat (length m)))))"

definition sha512_reference :: "nat \<Rightarrow> CRYPT_sha2_context \<Rightarrow> bytes \<Rightarrow> bytes" where
  "sha512_reference n init m = sha512_emit n (fst (hash_blocks 128 sha384_process (sha2_state init)
     (m @ sha384_pad (length m mod 128) @ sha512_length_block (8 * of_nat (length m)))))"

lemma sha2_left_alt: "sha2_left k c = unat (sha2_total_bytes c) mod 2 ^ k"
  by (simp add: sha2_left_def unat_and_mask)

lemma sha2_left_less: "sha2_left k c < 2 ^ k"
  by (simp add: sha2_left_alt)

lemma sha2_left_add:
  assumes "k \<le> 64"
  shows "unat (t + of_nat n :: u64) mod 2 ^ k = (unat t mod 2 ^ k + n) mod 2 ^ k"
proof -
  have "(2 :: nat) ^ k dvd 2 ^ 64" using assms by (rule le_imp_power_dvd)
  then have "unat (t + of_nat n :: u64) mod 2 ^ k = (unat t + n) mod 2 ^ k"
    by (simp only: unat_word_ariths unat_of_nat mod_add_right_eq len_of_numeral_defs) (simp add: mod_mod_cancel)
  then show ?thesis by (simp add: mod_simps)
qed

lemma CRYPT_SHA256Update_alt: "CRYPT_SHA256Update = sha2_update 6 sha256_process"
proof (intro ext)
  show "CRYPT_SHA256Update c d = sha2_update 6 sha256_process c d" for c d
    using sha2_left_less [of 6 c]
    by (cases "d = []")
      (simp_all add: CRYPT_SHA256Update_def sha2_update_def sha2_left_def literal_masks)
qed

lemma CRYPT_SHA384Update_alt: "CRYPT_SHA384Update = sha2_update 7 sha384_process"
proof (intro ext)
  show "CRYPT_SHA384Update c d = sha2_update 7 sha384_process c d" for c d
    using sha2_left_less [of 7 c]
    by (cases "d = []")
      (simp_all add: CRYPT_SHA384Update_def sha2_update_def sha2_left_def literal_masks)
qed

lemma CRYPT_SHA512Update_alt: "CRYPT_SHA512Update = sha2_update 7 sha384_process"
  by (simp add: fun_eq_iff CRYPT_SHA512Update_def CRYPT_SHA384Update_alt)

lemma sha2_update_laws:
  fixes d :: bytes
  assumes ok: "sha2_ok c" and k: "k \<le> 7" and p: "\<And>s b. length (process s b) = 8"
  defines "c' \<equiv> sha2_update k process c d"
  shows "sha2_ok c'"
    and "sha2_state c' = fst (hash_blocks (2 ^ k) process (sha2_state c) (sha2_pending k c @ d))"
    and "sha2_pending k c' = snd (hash_blocks (2 ^ k) process (sha2_state c) (sha2_pending k c @ d))"
    and "sha2_bits c' = sha2_bits c + 8 * of_nat (length d)"
proof -
  have "(2 :: nat) ^ k \<le> 2 ^ 7" using k by (rule power_increasing) simp
  then have buf: "2 ^ k \<le> length (sha2_buffer c)" using ok by (simp add: sha2_ok_def)
  have res: "md_absorb (2 ^ k) process (sha2_left k c) (sha2_state c) (sha2_buffer c) d =
      (sha2_state c', sha2_buffer c')"
    by (simp add: c'_def sha2_update_def split: prod.splits)
  have tot: "sha2_total_bytes c' = sha2_total_bytes c + of_nat (length d)"
    by (simp add: c'_def sha2_update_def split: prod.splits)
  then have left: "sha2_left k c' = (sha2_left k c + length d) mod 2 ^ k"
    using k by (simp add: sha2_left_alt sha2_left_add)
  note core = md_absorb_correct [OF sha2_left_less buf res]
  show st: "sha2_state c' = fst (hash_blocks (2 ^ k) process (sha2_state c) (sha2_pending k c @ d))"
    and "sha2_pending k c' = snd (hash_blocks (2 ^ k) process (sha2_state c) (sha2_pending k c @ d))"
    using core left by (simp_all add: sha2_pending_def)
  show "sha2_ok c'"
    using st core(3) ok p by (simp add: sha2_ok_def hash_blocks_length)
  show "sha2_bits c' = sha2_bits c + 8 * of_nat (length d)"
    using tot by (simp add: sha2_bits_def algebra_simps)
qed

lemma length_sha256_process: "length (sha256_process st data) = 8"
  by (simp add: sha256_process_def split: prod.splits)

lemma length_sha384_process: "length (sha384_process st data) = 8"
  by (simp add: sha384_process_def split: prod.splits)

lemma length_sha2_pending: "sha2_ok c \<Longrightarrow> k \<le> 7 \<Longrightarrow> length (sha2_pending k c) = sha2_left k c"
proof -
  assume "sha2_ok c" and k: "k \<le> 7"
  have "(2 :: nat) ^ k \<le> 2 ^ 7" using k by (rule power_increasing) simp
  then show "length (sha2_pending k c) = sha2_left k c"
    using sha2_left_less [of k c] \<open>sha2_ok c\<close> by (simp add: sha2_pending_def sha2_ok_def)
qed

lemmas sha256_update_laws =
  sha2_update_laws [where k = 6 and process = sha256_process, simplified length_sha256_process, simplified,
    folded CRYPT_SHA256Update_alt]

lemmas sha384_update_laws =
  sha2_update_laws [where k = 7 and process = sha384_process, simplified length_sha384_process, simplified,
    folded CRYPT_SHA384Update_alt]

text \<open>Finishing absorbs two more pieces of data, whatever the digest.\<close>

lemma two_updates:
  assumes "sha2_ok c" and "k \<le> 7" and "\<And>s b. length (process s b) = 8"
  shows "sha2_state (sha2_update k process (sha2_update k process c a) b) =
    fst (hash_blocks (2 ^ k) process (sha2_state c) (sha2_pending k c @ a @ b))"
  using assms sha2_update_laws(1-3) [OF assms, where d = a]
    sha2_update_laws(2) [OF _ assms(2,3), where c = "sha2_update k process c a" and d = b]
    hash_blocks_append [of "2 ^ k" process "sha2_state c" "sha2_pending k c @ a" b]
  by simp

lemma SHA256Finish_law:
  assumes "sha2_ok c"
  shows "snd (CRYPT_SHA256Finish c) = sha256_emit (fst (hash_blocks 64 sha256_process (sha2_state c)
    (sha2_pending 6 c @ sha256_pad (length (sha2_pending 6 c)) @ SHA_PUT_UINT64 (sha2_bits c))))"
proof -
  have "snd (CRYPT_SHA256Finish c) = sha256_emit (sha2_state (sha2_update 6 sha256_process
      (sha2_update 6 sha256_process c (sha256_pad (sha2_left 6 c))) (SHA_PUT_UINT64 (sha2_bits c))))"
    by (simp add: CRYPT_SHA256Finish_def Let_def CRYPT_SHA256Update_alt sha256_pad_def sha2_left_def
        literal_masks sha2_bits_def sha256_emit_def)
  then show ?thesis
    using two_updates [OF assms, of 6 sha256_process] assms
    by (simp add: length_sha256_process length_sha2_pending)
qed

lemma sha384_finish_law:
  assumes "sha2_ok c"
  shows "sha512_emit n (sha2_state (sha2_update 7 sha384_process
      (sha2_update 7 sha384_process c (sha384_pad (sha2_left 7 c))) (sha512_length_block (sha2_bits c)))) =
    sha512_emit n (fst (hash_blocks 128 sha384_process (sha2_state c)
      (sha2_pending 7 c @ sha384_pad (length (sha2_pending 7 c)) @ sha512_length_block (sha2_bits c))))"
  using two_updates [OF assms, of 7 sha384_process] assms
  by (simp add: length_sha384_process length_sha2_pending)

lemma SHA384Finish_alt:
  "snd (CRYPT_SHA384Finish c) = sha512_emit 6 (sha2_state (sha2_update 7 sha384_process
      (sha2_update 7 sha384_process c (sha384_pad (sha2_left 7 c))) (sha512_length_block (sha2_bits c))))"
  by (simp add: CRYPT_SHA384Finish_def Let_def CRYPT_SHA384Update_alt sha384_pad_def sha2_left_def
      literal_masks sha2_bits_def sha512_emit_def sha512_length_block_def)

lemma SHA512Finish_alt:
  "snd (CRYPT_SHA512Finish c) = sha512_emit 8 (sha2_state (sha2_update 7 sha384_process
      (sha2_update 7 sha384_process c (sha384_pad (sha2_left 7 c))) (sha512_length_block (sha2_bits c))))"
  by (simp add: CRYPT_SHA512Finish_def Let_def CRYPT_SHA512Update_alt sha384_pad_def sha2_left_def
      literal_masks sha2_bits_def sha512_emit_def sha512_length_block_def)

lemmas sha2_start_defs =
  CRYPT_SHA256Start_def CRYPT_SHA384Start_def CRYPT_SHA512Start_def
  sha2_ok_def sha2_pending_def sha2_left_def sha2_bits_def

interpretation sha256: padded_hash 64 sha256_process sha2_state "sha2_pending 6" sha2_ok CRYPT_SHA256Start
  CRYPT_SHA256Update sha2_bits "\<lambda>d. True" sha256_pad SHA_PUT_UINT64 sha256_emit
  "\<lambda>c. snd (CRYPT_SHA256Finish c)"
proof unfold_locales
  show "sha2_ok CRYPT_SHA256Start" "sha2_pending 6 CRYPT_SHA256Start = []" "sha2_bits CRYPT_SHA256Start = 0"
    by (simp_all add: sha2_start_defs)
  show "0 < (64 :: nat)" by simp
qed (rule sha256_update_laws SHA256Finish_law; assumption)+

interpretation sha384: padded_hash 128 sha384_process sha2_state "sha2_pending 7" sha2_ok CRYPT_SHA384Start
  CRYPT_SHA384Update sha2_bits "\<lambda>d. True" sha384_pad sha512_length_block "sha512_emit 6"
  "\<lambda>c. snd (CRYPT_SHA384Finish c)"
proof unfold_locales
  show "sha2_ok CRYPT_SHA384Start" "sha2_pending 7 CRYPT_SHA384Start = []" "sha2_bits CRYPT_SHA384Start = 0"
    by (simp_all add: sha2_start_defs)
  show "0 < (128 :: nat)" by simp
qed (rule sha384_update_laws sha384_finish_law [where n = 6, folded SHA384Finish_alt]; assumption)+

interpretation sha512: padded_hash 128 sha384_process sha2_state "sha2_pending 7" sha2_ok CRYPT_SHA512Start
  CRYPT_SHA512Update sha2_bits "\<lambda>d. True" sha384_pad sha512_length_block "sha512_emit 8"
  "\<lambda>c. snd (CRYPT_SHA512Finish c)"
proof unfold_locales
  show "sha2_ok CRYPT_SHA512Start" "sha2_pending 7 CRYPT_SHA512Start = []" "sha2_bits CRYPT_SHA512Start = 0"
    by (simp_all add: sha2_start_defs)
  show "0 < (128 :: nat)" by simp
qed (rule sha384_update_laws [folded CRYPT_SHA512Update_def] sha384_finish_law [where n = 8, folded SHA512Finish_alt]; assumption)+

section \<open>Properties\<close>

text \<open>
  C19: for SHA-256, SHA-384 and SHA-512, feeding a message in any number of update calls of any sizes
  and finishing yields the digest of the padded message, with no bound on the message length (the
  bit count wraps at 2 to the 64 on both sides).
\<close>

theorem sha2_streaming_correct:
  "snd (CRYPT_SHA256Finish (foldl CRYPT_SHA256Update CRYPT_SHA256Start ds)) = sha256_reference (concat ds)
   \<and> snd (CRYPT_SHA384Finish (foldl CRYPT_SHA384Update CRYPT_SHA384Start ds)) =
       sha512_reference 6 CRYPT_SHA384Start (concat ds)
   \<and> snd (CRYPT_SHA512Finish (foldl CRYPT_SHA512Update CRYPT_SHA512Start ds)) =
       sha512_reference 8 CRYPT_SHA512Start (concat ds)"
  using sha256.digest_is_padded_chain [of ds, OF _ refl] sha384.digest_is_padded_chain [of ds, OF _ refl]
    sha512.digest_is_padded_chain [of ds, OF _ refl]
  by (simp add: sha256_reference_def sha512_reference_def list.pred_True)

end
