(* ===== verification/Aes.thy ===== *)
theory Aes
  imports Aes_Tables
begin

text \<open>
  The AES implementation of src/core/fdrm/fx_crypt_aes.cpp: key set-up (both schedules), the
  table-driven block encryption and decryption on four 32-bit words, and the CBC loops with their
  chaining value kept in the context.  A read of the source buffer past its end is the value \<open>None\<close>.
  The theorems show that decryption inverts encryption for every key of 128, 192 or 256 bits, block
  by block and for whole CBC messages, and that a message may be processed in several calls.
\<close>

unbundle bit_operations_syntax

section \<open>Words and bytes\<close>

definition GET_32BIT_MSB_FIRST :: "bytes \<Rightarrow> nat \<Rightarrow> u32" where
  "GET_32BIT_MSB_FIRST cp i = ucast (cp ! (i + 3)) OR push_bit 8 (ucast (cp ! (i + 2))) OR
    push_bit 16 (ucast (cp ! (i + 1))) OR push_bit 24 (ucast (cp ! i))"

definition PUT_32BIT_MSB_FIRST :: "u32 \<Rightarrow> bytes" where
  "PUT_32BIT_MSB_FIRST v = [ucast (drop_bit 24 v), ucast (drop_bit 16 v), ucast (drop_bit 8 v), ucast v]"

definition mulby2 :: "u32 \<Rightarrow> u32" where
  "mulby2 x = push_bit 1 (x AND 0x7F) XOR (if x AND 0x80 \<noteq> 0 then 0x1B else 0)"

text \<open>The index \<open>(w >> 8 * k) & 0xFF\<close> of the table look-ups.\<close>

definition word_byte :: "nat \<Rightarrow> u32 \<Rightarrow> nat" where
  "word_byte k w = unat (drop_bit (8 * k) w AND 0xFF)"

section \<open>The context\<close>

record CRYPT_aes_context =
  Nb :: nat
  Nr :: nat
  keysched :: "u32 list"
  invkeysched :: "u32 list"
  iv :: "u32 list"

definition kMaxNb :: nat where
  "kMaxNb = 8"

definition kMaxNr :: nat where
  "kMaxNr = 14"

definition kSchedSize :: nat where
  "kSchedSize = (kMaxNr + 1) * kMaxNb"

section \<open>Block operations\<close>

text \<open>The key pointer is the index of the next schedule word.\<close>

definition ADD_ROUND_KEY_4 :: "u32 list \<Rightarrow> u32 list \<times> nat \<Rightarrow> u32 list \<times> nat" where
  "ADD_ROUND_KEY_4 ks = (\<lambda>(block, p). ([block ! 0 XOR ks ! p, block ! 1 XOR ks ! (p + 1),
    block ! 2 XOR ks ! (p + 2), block ! 3 XOR ks ! (p + 3)], p + 4))"

definition FMAKEWORD ::
  "u32 list \<Rightarrow> u32 list \<Rightarrow> u32 list \<Rightarrow> u32 list \<Rightarrow> nat \<Rightarrow> nat \<Rightarrow> nat \<Rightarrow> u32 list \<Rightarrow> nat \<Rightarrow> u32" where
  "FMAKEWORD T0 T1 T2 T3 C1 C2 C3 block i =
    T0 ! word_byte 3 (block ! i) XOR T1 ! word_byte 2 (block ! ((i + C1) mod 4)) XOR
    T2 ! word_byte 1 (block ! ((i + C2) mod 4)) XOR T3 ! word_byte 0 (block ! ((i + C3) mod 4))"

definition LASTWORD :: "bytes \<Rightarrow> nat \<Rightarrow> nat \<Rightarrow> nat \<Rightarrow> u32 list \<Rightarrow> nat \<Rightarrow> u32" where
  "LASTWORD S C1 C2 C3 block i =
    push_bit 24 (ucast (S ! word_byte 3 (block ! i))) OR
    push_bit 16 (ucast (S ! word_byte 2 (block ! ((i + C1) mod 4)))) OR
    push_bit 8 (ucast (S ! word_byte 1 (block ! ((i + C2) mod 4)))) OR
    ucast (S ! word_byte 0 (block ! ((i + C3) mod 4)))"

text \<open>
  Four \<open>FMAKEWORD\<close> or \<open>LASTWORD\<close> into \<open>newstate\<close>, then four \<open>MOVEWORD\<close>: the new block.  The macros
  are defined once for encryption and once for decryption.
\<close>

definition sub_shift_mix :: "u32 list \<Rightarrow> u32 list" where
  "sub_shift_mix block = map (FMAKEWORD E0 E1 E2 E3 1 2 3 block) [0, 1, 2, 3]"

definition sub_shift :: "u32 list \<Rightarrow> u32 list" where
  "sub_shift block = map (LASTWORD Sbox 1 2 3 block) [0, 1, 2, 3]"

definition inv_sub_shift_mix :: "u32 list \<Rightarrow> u32 list" where
  "inv_sub_shift_mix block = map (FMAKEWORD D0 D1 D2 D3 (4 - 1) (4 - 2) (4 - 3) block) [0, 1, 2, 3]"

definition inv_sub_shift :: "u32 list \<Rightarrow> u32 list" where
  "inv_sub_shift block = map (LASTWORD Sboxinv (4 - 1) (4 - 2) (4 - 3) block) [0, 1, 2, 3]"

definition encrypt_round :: "u32 list \<Rightarrow> u32 list \<times> nat \<Rightarrow> u32 list \<times> nat" where
  "encrypt_round ks st = (let (block, p) = ADD_ROUND_KEY_4 ks st in
    (sub_shift_mix block, p))"

definition aes_encrypt_nb_4 :: "CRYPT_aes_context \<Rightarrow> u32 list \<Rightarrow> u32 list" where
  "aes_encrypt_nb_4 ctx block =
    (let ks = keysched ctx;
         (block, p) = ADD_ROUND_KEY_4 ks ((encrypt_round ks ^^ (Nr ctx - 1)) (block, 0))
     in fst (ADD_ROUND_KEY_4 ks (sub_shift block, p)))"

definition decrypt_round :: "u32 list \<Rightarrow> u32 list \<times> nat \<Rightarrow> u32 list \<times> nat" where
  "decrypt_round ks st = (let (block, p) = ADD_ROUND_KEY_4 ks st in
    (inv_sub_shift_mix block, p))"

definition aes_decrypt_nb_4 :: "CRYPT_aes_context \<Rightarrow> u32 list \<Rightarrow> u32 list" where
  "aes_decrypt_nb_4 ctx block =
    (let ks = invkeysched ctx;
         (block, p) = ADD_ROUND_KEY_4 ks ((decrypt_round ks ^^ (Nr ctx - 1)) (block, 0))
     in fst (ADD_ROUND_KEY_4 ks (inv_sub_shift block, p)))"

section \<open>Key set-up\<close>

text \<open>One pass of the first loop: the schedule array and the round constant.\<close>

definition sub_word :: "nat \<Rightarrow> nat \<Rightarrow> nat \<Rightarrow> nat \<Rightarrow> u32 \<Rightarrow> u32" where
  "sub_word a b c d rconst =
    push_bit 8 (push_bit 8 (push_bit 8 (ucast (Sbox ! a) XOR rconst) OR ucast (Sbox ! b)) OR
      ucast (Sbox ! c)) OR ucast (Sbox ! d)"

definition setup_step :: "bytes \<Rightarrow> nat \<Rightarrow> nat \<Rightarrow> u32 list \<times> u32 \<Rightarrow> u32 list \<times> u32" where
  "setup_step key Nk i = (\<lambda>(ks, rconst).
    if i < Nk then (ks[i := GET_32BIT_MSB_FIRST key (4 * i)], rconst)
    else
      let temp = ks ! (i - 1);
          (temp, rconst) =
            (if i mod Nk = 0 then
               (sub_word (word_byte 2 temp) (word_byte 1 temp) (word_byte 0 temp) (word_byte 3 temp) rconst,
                mulby2 rconst)
             else if i mod Nk = 4 \<and> 6 < Nk then
               (sub_word (word_byte 3 temp) (word_byte 2 temp) (word_byte 1 temp) (word_byte 0 temp) 0,
                rconst)
             else (temp, rconst))
      in (ks[i := ks ! (i - Nk) XOR temp], rconst))"

text \<open>The second loop: the decryption schedule, in reverse round order.\<close>

definition inv_mix_word :: "u32 \<Rightarrow> u32" where
  "inv_mix_word temp = D0 ! unat (Sbox ! word_byte 3 temp) XOR D1 ! unat (Sbox ! word_byte 2 temp) XOR
    D2 ! unat (Sbox ! word_byte 1 temp) XOR D3 ! unat (Sbox ! word_byte 0 temp)"

definition inv_setup_step :: "nat \<Rightarrow> nat \<Rightarrow> u32 list \<Rightarrow> nat \<times> nat \<Rightarrow> u32 list \<Rightarrow> u32 list" where
  "inv_setup_step nr nb ks = (\<lambda>(i, j) iks.
    let temp = ks ! ((nr - i) * nb + j) in
    iks[i * nb + j := if i \<noteq> 0 \<and> i \<noteq> nr then inv_mix_word temp else temp])"

definition inv_setup_loop :: "nat \<Rightarrow> nat \<Rightarrow> u32 list \<Rightarrow> u32 list \<Rightarrow> u32 list" where
  "inv_setup_loop nr nb ks iks =
    fold (inv_setup_step nr nb ks) [(i, j). i \<leftarrow> [0..<nr + 1], j \<leftarrow> [0..<nb]] iks"

definition aes_setup :: "CRYPT_aes_context \<Rightarrow> bytes \<Rightarrow> nat \<Rightarrow> CRYPT_aes_context" where
  "aes_setup ctx key keylen =
    (let Nk = keylen div 4;
         nb = 4;
         nr = 6 + max nb Nk;
         ks = fst (fold (setup_step key Nk) [0..<(nr + 1) * nb] (keysched ctx, 1));
         iks = inv_setup_loop nr nb ks (invkeysched ctx)
     in ctx\<lparr>Nb := nb, Nr := nr, keysched := ks, invkeysched := iks\<rparr>)"

section \<open>Cipher block chaining\<close>

definition aes_decrypt :: "CRYPT_aes_context \<Rightarrow> u32 list \<Rightarrow> u32 list" where
  "aes_decrypt ctx block = aes_decrypt_nb_4 ctx block"

definition aes_encrypt :: "CRYPT_aes_context \<Rightarrow> u32 list \<Rightarrow> u32 list" where
  "aes_encrypt ctx block = aes_encrypt_nb_4 ctx block"

definition read_block :: "bytes \<Rightarrow> u32 list" where
  "read_block src = map (\<lambda>i. GET_32BIT_MSB_FIRST src (4 * i)) [0, 1, 2, 3]"

definition write_block :: "u32 list \<Rightarrow> bytes" where
  "write_block block = concat (map PUT_32BIT_MSB_FIRST block)"

text \<open>
  \<open>len\<close> is the signed count of bytes still to process: the loop runs while it is positive and takes
  sixteen bytes of the source at a time.  The result is the chaining value left and the bytes written.
\<close>

function decrypt_cbc_loop ::
  "CRYPT_aes_context \<Rightarrow> u32 list \<Rightarrow> bytes \<Rightarrow> int \<Rightarrow> (u32 list \<times> bytes) option" where
  "decrypt_cbc_loop ctx v src len =
    (if len \<le> 0 then Some (v, [])
     else if length src < 16 then None
     else
       let ct = read_block src;
           x = aes_decrypt ctx ct
       in case decrypt_cbc_loop ctx ct (drop 16 src) (len - 16) of
            None \<Rightarrow> None
          | Some (v', out) \<Rightarrow> Some (v', write_block (map2 (XOR) v x) @ out))"
  by pat_completeness auto
termination
  by (relation "measure (\<lambda>(ctx, v, src, len). nat len)") auto

function encrypt_cbc_loop ::
  "CRYPT_aes_context \<Rightarrow> u32 list \<Rightarrow> bytes \<Rightarrow> int \<Rightarrow> (u32 list \<times> bytes) option" where
  "encrypt_cbc_loop ctx v src len =
    (if len \<le> 0 then Some (v, [])
     else if length src < 16 then None
     else
       let v = aes_encrypt ctx (map2 (XOR) v (read_block src))
       in case encrypt_cbc_loop ctx v (drop 16 src) (len - 16) of
            None \<Rightarrow> None
          | Some (v', out) \<Rightarrow> Some (v', write_block v @ out))"
  by pat_completeness auto
termination
  by (relation "measure (\<lambda>(ctx, v, src, len). nat len)") auto

declare decrypt_cbc_loop.simps [simp del] encrypt_cbc_loop.simps [simp del]

definition aes_decrypt_cbc ::
  "CRYPT_aes_context \<Rightarrow> bytes \<Rightarrow> int \<Rightarrow> (CRYPT_aes_context \<times> bytes) option" where
  "aes_decrypt_cbc ctx src len =
    map_option (\<lambda>(v, out). (ctx\<lparr>iv := memcpy (iv ctx) 0 v\<rparr>, out)) (decrypt_cbc_loop ctx (take 4 (iv ctx)) src len)"

definition aes_encrypt_cbc ::
  "CRYPT_aes_context \<Rightarrow> bytes \<Rightarrow> int \<Rightarrow> (CRYPT_aes_context \<times> bytes) option" where
  "aes_encrypt_cbc ctx src len =
    map_option (\<lambda>(v, out). (ctx\<lparr>iv := memcpy (iv ctx) 0 v\<rparr>, out)) (encrypt_cbc_loop ctx (take 4 (iv ctx)) src len)"

section \<open>The interface\<close>

definition CRYPT_AESSetKey :: "CRYPT_aes_context \<Rightarrow> bytes \<Rightarrow> u32 \<Rightarrow> CRYPT_aes_context" where
  "CRYPT_AESSetKey context key keylen = aes_setup context key (unat keylen)"

definition CRYPT_AESSetIV :: "CRYPT_aes_context \<Rightarrow> bytes \<Rightarrow> CRYPT_aes_context" where
  "CRYPT_AESSetIV context v =
    context\<lparr>iv := fold (\<lambda>i w. w[i := GET_32BIT_MSB_FIRST v (4 * i)]) [0..<Nb context] (iv context)\<rparr>"

definition CRYPT_AESDecrypt ::
  "CRYPT_aes_context \<Rightarrow> bytes \<Rightarrow> u32 \<Rightarrow> (CRYPT_aes_context \<times> bytes) option" where
  "CRYPT_AESDecrypt context src sz = aes_decrypt_cbc context src (sint sz)"

definition CRYPT_AESEncrypt ::
  "CRYPT_aes_context \<Rightarrow> bytes \<Rightarrow> u32 \<Rightarrow> (CRYPT_aes_context \<times> bytes) option" where
  "CRYPT_AESEncrypt context src sz = aes_encrypt_cbc context src (sint sz)"

section \<open>Bytes of a word\<close>

definition wbyte :: "nat \<Rightarrow> u32 \<Rightarrow> byte" where
  "wbyte k w = ucast (drop_bit (8 * k) w)"

lemma word_byte_wbyte [simp]: "word_byte k w = unat (wbyte k w)"
  unfolding word_byte_def wbyte_def literal_masks(5) by (simp add: unat_simps)

definition pack4 :: "byte \<Rightarrow> byte \<Rightarrow> byte \<Rightarrow> byte \<Rightarrow> u32" where
  "pack4 a b c d = push_bit 24 (ucast a) OR push_bit 16 (ucast b) OR push_bit 8 (ucast c) OR ucast d"

lemma wbyte_pack4 [simp]:
  "wbyte 3 (pack4 a b c d) = a" "wbyte 2 (pack4 a b c d) = b"
  "wbyte (Suc 0) (pack4 a b c d) = c" "wbyte 0 (pack4 a b c d) = d"
  by (rule bit_word_eqI; auto simp: wbyte_def pack4_def bit_simps dest: bit_imp_le_length)+

lemma pack4_wbyte [simp]: "pack4 (wbyte 3 w) (wbyte 2 w) (wbyte (Suc 0) w) (wbyte 0 w) = w"
proof (rule bit_word_eqI)
  fix n
  assume "n < LENGTH(32)"
  then consider "n < 8" | "8 \<le> n" "n < 16" | "16 \<le> n" "n < 24" | "24 \<le> n" "n < 32" by fastforce
  then show "bit (pack4 (wbyte 3 w) (wbyte 2 w) (wbyte (Suc 0) w) (wbyte 0 w)) n = bit w n"
    by cases (auto simp: wbyte_def pack4_def bit_simps)
qed

lemma wbyte_xor [simp]: "wbyte k (a XOR b) = wbyte k a XOR wbyte k b"
  by (rule bit_word_eqI) (auto simp: wbyte_def bit_simps)

lemma GET_32BIT_pack4: "GET_32BIT_MSB_FIRST cp i = pack4 (cp ! i) (cp ! (i + 1)) (cp ! (i + 2)) (cp ! (i + 3))"
  by (simp add: GET_32BIT_MSB_FIRST_def pack4_def ac_simps)

lemma PUT_32BIT_wbyte: "PUT_32BIT_MSB_FIRST w = [wbyte 3 w, wbyte 2 w, wbyte 1 w, wbyte 0 w]"
  by (simp add: PUT_32BIT_MSB_FIRST_def wbyte_def)

lemma LASTWORD_pack4: "LASTWORD S C1 C2 C3 block i = pack4 (S ! word_byte 3 (block ! i))
    (S ! word_byte 2 (block ! ((i + C1) mod 4))) (S ! word_byte 1 (block ! ((i + C2) mod 4)))
    (S ! word_byte 0 (block ! ((i + C3) mod 4)))"
  by (simp add: LASTWORD_def pack4_def)

section \<open>The inverse column map undoes the encryption tables\<close>

lemma inv_mix_word_xor_sum:
  "inv_mix_word w = xor_sum inv_mix_col0 (wbyte 3 w) XOR xor_sum inv_mix_col1 (wbyte 2 w) XOR
    xor_sum inv_mix_col2 (wbyte 1 w) XOR xor_sum inv_mix_col3 (wbyte 0 w)"
  by (simp add: inv_mix_word_def D_entries)

lemma inv_mix_word_xor: "inv_mix_word (a XOR b) = inv_mix_word a XOR inv_mix_word b"
  by (simp add: inv_mix_word_xor_sum xor_sum_xor ac_simps)

lemma inv_mix_word_0: "inv_mix_word 0 = 0"
  using inv_mix_word_xor [of 0 0] by simp

text \<open>The four embeddings of a byte into a word, as linear maps.\<close>

definition unit_col0 :: "u32 list" where
  "unit_col0 = [0x1000000, 0x2000000, 0x4000000, 0x8000000, 0x10000000, 0x20000000, 0x40000000, 0x80000000]"

definition unit_col1 :: "u32 list" where
  "unit_col1 = [0x10000, 0x20000, 0x40000, 0x80000, 0x100000, 0x200000, 0x400000, 0x800000]"

definition unit_col2 :: "u32 list" where
  "unit_col2 = [0x100, 0x200, 0x400, 0x800, 0x1000, 0x2000, 0x4000, 0x8000]"

definition unit_col3 :: "u32 list" where
  "unit_col3 = [0x1, 0x2, 0x4, 0x8, 0x10, 0x20, 0x40, 0x80]"

lemma inv_mix_word_cols:
  "map inv_mix_word mix_col0 = unit_col0"
  "map inv_mix_word mix_col1 = unit_col1"
  "map inv_mix_word mix_col2 = unit_col2"
  "map inv_mix_word mix_col3 = unit_col3"
  unfolding inv_mix_word_xor_sum by code_simp+

lemma unit_col0_all: "list_all (\<lambda>n. xor_sum unit_col0 (of_nat n) = push_bit 24 (ucast (of_nat n :: byte))) [0..<256]"
  by code_simp

lemma unit_col1_all: "list_all (\<lambda>n. xor_sum unit_col1 (of_nat n) = push_bit 16 (ucast (of_nat n :: byte))) [0..<256]"
  by code_simp

lemma unit_col2_all: "list_all (\<lambda>n. xor_sum unit_col2 (of_nat n) = push_bit 8 (ucast (of_nat n :: byte))) [0..<256]"
  by code_simp

lemma unit_col3_all: "list_all (\<lambda>n. xor_sum unit_col3 (of_nat n) = ucast (of_nat n :: byte)) [0..<256]"
  by code_simp

lemma byte_exhaust: "list_all (\<lambda>n. P (of_nat n)) [0..<256] \<Longrightarrow> P x" for x :: byte
  using unat_byte_less [of x] by (auto simp: list_all_iff dest!: bspec [where x = "unat x"])

lemma xor_sum_units:
  fixes x :: byte
  shows "xor_sum unit_col0 x = push_bit 24 (ucast x)"
    "xor_sum unit_col1 x = push_bit 16 (ucast x)"
    "xor_sum unit_col2 x = push_bit 8 (ucast x)"
    "xor_sum unit_col3 x = ucast x"
  by (rule byte_exhaust, rule unit_col0_all unit_col1_all unit_col2_all unit_col3_all)+

lemma inv_mix_word_E:
  fixes x :: byte
  shows "inv_mix_word (E0 ! unat x) = push_bit 24 (ucast (Sbox ! unat x))"
    "inv_mix_word (E1 ! unat x) = push_bit 16 (ucast (Sbox ! unat x))"
    "inv_mix_word (E2 ! unat x) = push_bit 8 (ucast (Sbox ! unat x))"
    "inv_mix_word (E3 ! unat x) = ucast (Sbox ! unat x)"
  unfolding E_entries xor_sum_linear_image [of inv_mix_word, OF inv_mix_word_0 inv_mix_word_xor]
    inv_mix_word_cols xor_sum_units by (rule refl)+

lemma pack4_xor: "pack4 a b c d =
    push_bit 24 (ucast a) XOR push_bit 16 (ucast b) XOR push_bit 8 (ucast c) XOR ucast d"
proof (rule bit_word_eqI)
  fix n
  assume "n < LENGTH(32)"
  then consider "n < 8" | "8 \<le> n" "n < 16" | "16 \<le> n" "n < 24" | "24 \<le> n" "n < 32" by fastforce
  then show "bit (pack4 a b c d) n =
      bit (push_bit 24 (ucast a) XOR push_bit 16 (ucast b) XOR push_bit 8 (ucast c) XOR ucast d :: u32) n"
    by cases (auto simp: pack4_def bit_simps dest: bit_imp_le_length)
qed

section \<open>Blocks\<close>

lemma length_block_steps [simp]:
  "length (sub_shift_mix b) = 4" "length (sub_shift b) = 4"
  by (simp_all add: sub_shift_mix_def sub_shift_def)

lemma length_4E:
  assumes "length b = 4"
  obtains b0 b1 b2 b3 where "b = [b0, b1, b2, b3]"
  using assms by (auto simp: numeral_eq_Suc length_Suc_conv)

lemma inv_mix_sub_shift_mix: "map inv_mix_word (sub_shift_mix v) = sub_shift v"
  by (simp add: sub_shift_def sub_shift_mix_def FMAKEWORD_def inv_mix_word_xor inv_mix_word_E LASTWORD_pack4 pack4_xor)

lemma decrypt_words_sub_shift:
  assumes "length u = 4"
  shows "inv_sub_shift_mix (sub_shift u) = map inv_mix_word u"
  using assms
  by (auto elim!: length_4E simp: inv_sub_shift_mix_def sub_shift_def FMAKEWORD_def LASTWORD_pack4 inv_mix_word_def)

lemma last_words_sub_shift:
  assumes "length u = 4"
  shows "inv_sub_shift (sub_shift u) = u"
  using assms by (auto elim!: length_4E simp: inv_sub_shift_def sub_shift_def LASTWORD_pack4)

section \<open>Rounds\<close>

definition round_key :: "u32 list \<Rightarrow> nat \<Rightarrow> u32 list" where
  "round_key ks r = map (\<lambda>j. ks ! (4 * r + j)) [0, 1, 2, 3]"

lemma length_round_key [simp]: "length (round_key ks r) = 4"
  by (simp add: round_key_def)

abbreviation xor_words :: "u32 list \<Rightarrow> u32 list \<Rightarrow> u32 list" where
  "xor_words \<equiv> map2 (XOR)"

lemma xor_words_cancel [simp]:
  "length b = length k \<Longrightarrow> xor_words (xor_words b k) k = b"
  by (rule nth_equalityI) (auto simp: xor.assoc)

lemma map_inv_mix_xor:
  "length b = length k \<Longrightarrow> map inv_mix_word (xor_words b k) = xor_words (map inv_mix_word b) (map inv_mix_word k)"
  by (rule nth_equalityI) (auto simp: inv_mix_word_xor)

lemma ADD_ROUND_KEY_4_round_key:
  "length b = 4 \<Longrightarrow> ADD_ROUND_KEY_4 ks (b, 4 * r) = (xor_words b (round_key ks r), 4 * Suc r)"
  by (auto elim!: length_4E simp: ADD_ROUND_KEY_4_def round_key_def)

lemma decrypt_words_xor:
  "length b = 4 \<Longrightarrow> length k = 4 \<Longrightarrow>
    inv_sub_shift_mix (sub_shift (xor_words b k)) = xor_words (map inv_mix_word b) (map inv_mix_word k)"
  using decrypt_words_sub_shift [of "xor_words b k"] map_inv_mix_xor [of b k] by simp

text \<open>The block before round \<open>r\<close>, and the block that enters its substitution.\<close>

fun enc_state :: "u32 list \<Rightarrow> u32 list \<Rightarrow> nat \<Rightarrow> u32 list" where
  "enc_state ks x 0 = x"
| "enc_state ks x (Suc r) = sub_shift_mix (xor_words (enc_state ks x r) (round_key ks r))"

abbreviation enc_in :: "u32 list \<Rightarrow> u32 list \<Rightarrow> nat \<Rightarrow> u32 list" where
  "enc_in ks x r \<equiv> xor_words (enc_state ks x r) (round_key ks r)"

lemma length_enc_state [simp]: "length x = 4 \<Longrightarrow> length (enc_state ks x r) = 4"
  by (cases r) auto

lemma encrypt_rounds:
  assumes "length x = 4"
  shows "(encrypt_round ks ^^ r) (x, 0) = (enc_state ks x r, 4 * r)"
proof (induction r)
  case (Suc r)
  then show ?case
    using assms ADD_ROUND_KEY_4_round_key [of "enc_state ks x r" ks r] by (simp add: encrypt_round_def)
qed simp

lemma aes_encrypt_nb_4_rounds:
  assumes "length x = 4" and "0 < Nr ctx"
  shows "aes_encrypt_nb_4 ctx x = xor_words (sub_shift (enc_in (keysched ctx) x (Nr ctx - 1)))
    (round_key (keysched ctx) (Nr ctx))"
  using assms encrypt_rounds [of x "Nr ctx - 1" "keysched ctx"]
    ADD_ROUND_KEY_4_round_key [of "enc_state (keysched ctx) x (Nr ctx - 1)" "keysched ctx" "Nr ctx - 1"]
    ADD_ROUND_KEY_4_round_key [of "sub_shift (enc_in (keysched ctx) x (Nr ctx - 1))" "keysched ctx" "Nr ctx"]
  by (simp add: aes_encrypt_nb_4_def Let_def)

text \<open>The decryption schedule holds the round keys backwards, the inner ones through InvMixColumns.\<close>

definition inverse_schedule :: "CRYPT_aes_context \<Rightarrow> bool" where
  "inverse_schedule ctx \<longleftrightarrow> 0 < Nr ctx \<and> (\<forall>i \<le> Nr ctx.
    round_key (invkeysched ctx) i =
      (let k = round_key (keysched ctx) (Nr ctx - i)
       in if i \<noteq> 0 \<and> i \<noteq> Nr ctx then map inv_mix_word k else k))"

lemma decrypt_rounds:
  assumes x: "length x = 4" and inv: "inverse_schedule ctx"
    and ct: "ct = aes_encrypt_nb_4 ctx x" and r: "r < Nr ctx"
  shows "ADD_ROUND_KEY_4 (invkeysched ctx) ((decrypt_round (invkeysched ctx) ^^ r) (ct, 0)) =
    (sub_shift (enc_in (keysched ctx) x (Nr ctx - 1 - r)), 4 * Suc r)"
  using r
proof (induction r)
  case 0
  then show ?case
    using inv x ADD_ROUND_KEY_4_round_key [of ct "invkeysched ctx" 0]
    by (simp add: ct aes_encrypt_nb_4_rounds inverse_schedule_def Let_def)
next
  case (Suc r)
  let ?m = "Nr ctx - 1 - Suc r"
  have m: "Nr ctx - 1 - r = Suc ?m" "Nr ctx - Suc r = Suc ?m" using Suc.prems by simp_all
  have key: "round_key (invkeysched ctx) (Suc r) = map inv_mix_word (round_key (keysched ctx) (Suc ?m))"
    using inv Suc.prems m(2) by (simp add: inverse_schedule_def Let_def)
  have "(decrypt_round (invkeysched ctx) ^^ Suc r) (ct, 0) =
      (xor_words (map inv_mix_word (enc_state (keysched ctx) x (Suc ?m)))
        (map inv_mix_word (round_key (keysched ctx) (Suc ?m))), 4 * Suc r)"
    using Suc.IH Suc.prems x m(1) decrypt_words_xor [OF length_enc_state [OF x] length_round_key]
    by (simp add: decrypt_round_def [of _ "(decrypt_round (invkeysched ctx) ^^ r) (ct, 0)"] del: enc_state.simps)
  then show ?case
    using x key ADD_ROUND_KEY_4_round_key [of _ "invkeysched ctx" "Suc r"]
      inv_mix_sub_shift_mix [of "enc_in (keysched ctx) x ?m"]
    by simp
qed

lemma aes_decrypt_nb_4_inverse:
  assumes x: "length x = 4" and inv: "inverse_schedule ctx"
  shows "aes_decrypt_nb_4 ctx (aes_encrypt_nb_4 ctx x) = x"
proof -
  have nr: "Nr ctx - 1 < Nr ctx" and key: "round_key (invkeysched ctx) (Nr ctx) = round_key (keysched ctx) 0"
    using inv by (simp_all add: inverse_schedule_def Let_def)
  show ?thesis
    using decrypt_rounds [OF x inv refl nr] nr key x last_words_sub_shift [of "enc_in (keysched ctx) x 0"]
      ADD_ROUND_KEY_4_round_key [of "enc_in (keysched ctx) x 0" "invkeysched ctx" "Nr ctx"]
    by (simp add: aes_decrypt_nb_4_def Let_def)
qed

section \<open>The key set-up makes the schedules inverse\<close>

definition aes_arrays_ok :: "CRYPT_aes_context \<Rightarrow> bool" where
  "aes_arrays_ok ctx \<longleftrightarrow> length (keysched ctx) = kSchedSize \<and> length (invkeysched ctx) = kSchedSize \<and>
    length (iv ctx) = kMaxNb"

lemma length_setup_step [simp]: "length (fst (setup_step key Nk i st)) = length (fst st)"
  by (cases st) (simp add: setup_step_def Let_def)

lemma length_fold_setup_step [simp]: "length (fst (fold (setup_step key Nk) is st)) = length (fst st)"
  by (induction "is" arbitrary: st) auto

lemma inv_setup_entry:
  assumes "(nr + 1) * 4 \<le> length iks" and "i \<le> nr" and "j < 4"
  shows "inv_setup_loop nr 4 ks iks ! (4 * i + j) =
    (let temp = ks ! (4 * (nr - i) + j) in if i \<noteq> 0 \<and> i \<noteq> nr then inv_mix_word temp else temp)"
proof -
  let ?g = "\<lambda>(i, j). i * 4 + (j :: nat)"
  let ?h = "\<lambda>(i, j). let temp = ks ! ((nr - i) * 4 + j) in if i \<noteq> 0 \<and> i \<noteq> nr then inv_mix_word temp else temp"
  let ?xs = "[(i, j). i \<leftarrow> [0..<nr + 1], j \<leftarrow> [0..<4]]"
  have step: "inv_setup_step nr 4 ks = (\<lambda>x iks. iks[?g x := ?h x])"
    by (auto simp: inv_setup_step_def Let_def fun_eq_iff)
  have set_xs: "set ?xs = {0..nr} \<times> {0..<4}" by (auto simp: image_iff simp del: upt_Suc)
  have "inj_on ?g (set ?xs)" unfolding set_xs by (auto simp: inj_on_def) presburger
  moreover have "\<forall>x\<in>set ?xs. ?g x < length iks" unfolding set_xs using assms(1) by auto
  moreover have "(i, j) \<in> set ?xs" unfolding set_xs using assms by simp
  ultimately have "fold (\<lambda>x iks. iks[?g x := ?h x]) ?xs iks ! ?g (i, j) = ?h (i, j)"
    by (rule fold_update_nth)
  then show ?thesis unfolding inv_setup_loop_def step by (simp add: mult.commute)
qed

lemma aes_setup_inverse_schedule:
  assumes "aes_arrays_ok ctx" and "keylen \<in> {16, 24, 32}"
  shows "inverse_schedule (aes_setup ctx key keylen)"
proof -
  let ?nr = "6 + max 4 (keylen div 4)"
  have size: "(?nr + 1) * 4 \<le> length (invkeysched ctx)"
    using assms by (auto simp: aes_arrays_ok_def kSchedSize_def kMaxNb_def kMaxNr_def)
  show ?thesis
    using inv_setup_entry [OF size, where j = 0] inv_setup_entry [OF size, where j = 1]
      inv_setup_entry [OF size, where j = 2] inv_setup_entry [OF size, where j = 3]
    by (auto simp: inverse_schedule_def aes_setup_def round_key_def Let_def)
qed

lemma aes_setup_arrays:
  "aes_arrays_ok ctx \<Longrightarrow> aes_arrays_ok (aes_setup ctx key keylen)"
proof -
  have "length (fold (inv_setup_step nr nb ks) ps iks) = length iks" for nr nb ks ps and iks :: "u32 list"
    by (induction ps arbitrary: iks) (auto simp: inv_setup_step_def Let_def)
  then have "length (inv_setup_loop nr nb ks iks) = length iks" for nr nb ks and iks :: "u32 list"
    by (simp add: inv_setup_loop_def)
  then show "aes_arrays_ok ctx \<Longrightarrow> aes_arrays_ok (aes_setup ctx key keylen)"
    by (simp add: aes_arrays_ok_def aes_setup_def Let_def)
qed

section \<open>Chaining\<close>

lemma read_write_block [simp]: "length v = 4 \<Longrightarrow> read_block (write_block v @ rest) = v"
  by (auto elim!: length_4E simp: read_block_def write_block_def GET_32BIT_pack4 PUT_32BIT_wbyte)

lemma length_write_block [simp]: "length v = 4 \<Longrightarrow> length (write_block v) = 16"
  by (auto elim!: length_4E simp: write_block_def PUT_32BIT_wbyte)

lemma length_read_block [simp]: "length (read_block src) = 4"
  by (simp add: read_block_def)

lemma write_read_block: "16 \<le> length src \<Longrightarrow> write_block (read_block src) = take 16 src"
proof -
  have "[0..<16] = [0, 1, 2, 3, 4, 5, 6, 7, 8, 9, 10, 11, 12, 13, 14, 15]" by code_simp
  then have "write_block (read_block src) = map ((!) src) [0..<16]"
    by (simp add: read_block_def write_block_def GET_32BIT_pack4 PUT_32BIT_wbyte flip: numeral_2_eq_2)
  moreover assume "16 \<le> length src"
  ultimately show ?thesis by (auto intro: nth_equalityI)
qed

lemma length_aes_encrypt [simp]: "length (aes_encrypt ctx b) = 4"
  by (simp add: aes_encrypt_def aes_encrypt_nb_4_def ADD_ROUND_KEY_4_def Let_def split: prod.splits)

lemma cbc_inverse:
  assumes "inverse_schedule ctx"
  shows "length v = 4 \<Longrightarrow> length src = 16 * n \<Longrightarrow>
    \<exists>v' out. encrypt_cbc_loop ctx v src (int (16 * n)) = Some (v', out) \<and> length out = length src \<and>
      decrypt_cbc_loop ctx v out (int (16 * n)) = Some (v', src)"
proof (induction n arbitrary: v src)
  case 0
  then show ?case by (simp add: encrypt_cbc_loop.simps decrypt_cbc_loop.simps)
next
  case (Suc n)
  define x where "x = xor_words v (read_block src)"
  define c where "c = aes_encrypt ctx x"
  have c: "length c = 4" and x: "length x = 4" using Suc.prems by (simp_all add: c_def x_def)
  obtain v' out where IH: "encrypt_cbc_loop ctx c (drop 16 src) (int (16 * n)) = Some (v', out)"
    "length out = 16 * n" "decrypt_cbc_loop ctx c out (int (16 * n)) = Some (v', drop 16 src)"
    using Suc.IH [of c "drop 16 src"] Suc.prems c by auto
  have enc: "encrypt_cbc_loop ctx v src (int (16 * Suc n)) = Some (v', write_block c @ out)"
    using IH(1) Suc.prems by (subst encrypt_cbc_loop.simps) (simp add: Let_def flip: c_def x_def)
  have "aes_decrypt ctx c = x"
    using aes_decrypt_nb_4_inverse [OF x assms] by (simp add: c_def aes_decrypt_def aes_encrypt_def)
  moreover have "xor_words v x = read_block src"
    unfolding x_def using Suc.prems by (intro nth_equalityI) (auto simp flip: xor.assoc)
  ultimately have "decrypt_cbc_loop ctx v (write_block c @ out) (int (16 * Suc n)) = Some (v', src)"
    using IH(3) Suc.prems c by (subst decrypt_cbc_loop.simps) (simp add: write_read_block)
  then show ?case using enc IH(2) Suc.prems c by auto
qed

text \<open>The loops read the schedules of the context and never its chaining value.\<close>

lemma aes_block_iv [simp]:
  "aes_encrypt (ctx\<lparr>iv := w\<rparr>) b = aes_encrypt ctx b" "aes_decrypt (ctx\<lparr>iv := w\<rparr>) b = aes_decrypt ctx b"
  by (simp_all add: aes_encrypt_def aes_decrypt_def aes_encrypt_nb_4_def aes_decrypt_nb_4_def)

lemma encrypt_cbc_loop_iv [simp]: "encrypt_cbc_loop (ctx\<lparr>iv := w\<rparr>) v src len = encrypt_cbc_loop ctx v src len"
  by (induction ctx v src len rule: encrypt_cbc_loop.induct)
    (subst (1 2) encrypt_cbc_loop.simps, simp add: Let_def)

lemma decrypt_cbc_loop_iv [simp]: "decrypt_cbc_loop (ctx\<lparr>iv := w\<rparr>) v src len = decrypt_cbc_loop ctx v src len"
  by (induction ctx v src len rule: decrypt_cbc_loop.induct)
    (subst (1 2) decrypt_cbc_loop.simps, simp add: Let_def)

lemma encrypt_cbc_loop_append:
  "length a = 16 * n \<Longrightarrow> encrypt_cbc_loop ctx v (a @ b) (int (16 * n) + len) =
    Option.bind (encrypt_cbc_loop ctx v a (int (16 * n))) (\<lambda>(v1, o1).
      map_option (\<lambda>(v2, o2). (v2, o1 @ o2)) (encrypt_cbc_loop ctx v1 b len))" if "0 \<le> len"
proof (induction n arbitrary: v a)
  case 0
  then show ?case by (simp add: encrypt_cbc_loop.simps [of _ _ "[]"] option.map_ident_strong split: prod.splits)
next
  case (Suc n)
  have "\<not> int (16 * Suc n) + len \<le> 0" "int (16 * Suc n) + len - 16 = int (16 * n) + len"
    "int (16 * Suc n) - 16 = int (16 * n)" using that by simp_all
  then show ?case
    using Suc.prems Suc.IH [of "drop 16 a"]
    by (subst (1 2) encrypt_cbc_loop.simps)
      (auto simp: Let_def read_block_def GET_32BIT_MSB_FIRST_def nth_append split: option.splits)
qed

lemma decrypt_cbc_loop_append:
  "length a = 16 * n \<Longrightarrow> decrypt_cbc_loop ctx v (a @ b) (int (16 * n) + len) =
    Option.bind (decrypt_cbc_loop ctx v a (int (16 * n))) (\<lambda>(v1, o1).
      map_option (\<lambda>(v2, o2). (v2, o1 @ o2)) (decrypt_cbc_loop ctx v1 b len))" if "0 \<le> len"
proof (induction n arbitrary: v a)
  case 0
  then show ?case by (simp add: decrypt_cbc_loop.simps [of _ _ "[]"] option.map_ident_strong split: prod.splits)
next
  case (Suc n)
  have "\<not> int (16 * Suc n) + len \<le> 0" "int (16 * Suc n) + len - 16 = int (16 * n) + len"
    "int (16 * Suc n) - 16 = int (16 * n)" using that by simp_all
  then show ?case
    using Suc.prems Suc.IH [of "drop 16 a"]
    by (subst (1 2) decrypt_cbc_loop.simps)
      (auto simp: Let_def read_block_def GET_32BIT_MSB_FIRST_def nth_append split: option.splits)
qed

lemma sint_of_nat_u32: "n < 2 ^ 31 \<Longrightarrow> sint (of_nat n :: u32) = int n"
  by (simp add: sint_uint signed_take_bit_int_eq_self unsigned_of_nat take_bit_nat_eq_self)

lemma cbc_loop_chaining_length:
  "length v = 4 \<Longrightarrow> encrypt_cbc_loop ctx v src len = Some (v', out) \<Longrightarrow> length v' = 4"
  "length v = 4 \<Longrightarrow> decrypt_cbc_loop ctx v src len = Some (v', out) \<Longrightarrow> length v' = 4"
proof -
  show "length v = 4 \<Longrightarrow> encrypt_cbc_loop ctx v src len = Some (v', out) \<Longrightarrow> length v' = 4"
    by (induction ctx v src len arbitrary: out rule: encrypt_cbc_loop.induct)
      (subst (asm) (2) encrypt_cbc_loop.simps, auto simp: Let_def split: if_splits option.splits)
  show "length v = 4 \<Longrightarrow> decrypt_cbc_loop ctx v src len = Some (v', out) \<Longrightarrow> length v' = 4"
    by (induction ctx v src len arbitrary: out rule: decrypt_cbc_loop.induct)
      (subst (asm) (2) decrypt_cbc_loop.simps, auto simp: Let_def split: if_splits option.splits)
qed

lemma take_chaining [simp]: "length v = 4 \<Longrightarrow> length w = 8 \<Longrightarrow> take 4 (memcpy w 0 v) = v"
  "length v = 4 \<Longrightarrow> length w = 4 \<Longrightarrow> memcpy (memcpy x 0 v) 0 w = memcpy x 0 w"
  by (simp_all add: memcpy_def)

lemma encrypt_two_calls:
  assumes "length a = 16 * n" and "0 \<le> len" and "length (iv c) = 8"
  shows "aes_encrypt_cbc c (a @ b) (int (16 * n) + len) =
    Option.bind (aes_encrypt_cbc c a (int (16 * n))) (\<lambda>(c1, o1).
      map_option (\<lambda>(c2, o2). (c2, o1 @ o2)) (aes_encrypt_cbc c1 b len))"
proof (cases "encrypt_cbc_loop c (take 4 (iv c)) a (int (16 * n))")
  case None
  then show ?thesis unfolding aes_encrypt_cbc_def encrypt_cbc_loop_append [OF assms(2,1)] by simp
next
  case (Some r)
  obtain v1 o1 where r: "r = (v1, o1)" by fastforce
  have v1: "length v1 = 4" using cbc_loop_chaining_length(1) [OF _ Some [unfolded r]] assms(3) by simp
  show ?thesis
  proof (cases "encrypt_cbc_loop c v1 b len")
    case None
    then show ?thesis
      unfolding aes_encrypt_cbc_def encrypt_cbc_loop_append [OF assms(2,1)] using Some r v1 assms(3) by simp
  next
    case (Some r2)
    obtain v2 o2 where r2: "r2 = (v2, o2)" by fastforce
    have "length v2 = 4" using cbc_loop_chaining_length(1) [OF v1 Some [unfolded r2]] .
    then show ?thesis
      unfolding aes_encrypt_cbc_def encrypt_cbc_loop_append [OF assms(2,1)]
      using Some r2 \<open>encrypt_cbc_loop c (take 4 (iv c)) a _ = _\<close> r v1 assms(3) by simp
  qed
qed

lemma decrypt_two_calls:
  assumes "length a = 16 * n" and "0 \<le> len" and "length (iv c) = 8"
  shows "aes_decrypt_cbc c (a @ b) (int (16 * n) + len) =
    Option.bind (aes_decrypt_cbc c a (int (16 * n))) (\<lambda>(c1, o1).
      map_option (\<lambda>(c2, o2). (c2, o1 @ o2)) (aes_decrypt_cbc c1 b len))"
proof (cases "decrypt_cbc_loop c (take 4 (iv c)) a (int (16 * n))")
  case None
  then show ?thesis unfolding aes_decrypt_cbc_def decrypt_cbc_loop_append [OF assms(2,1)] by simp
next
  case (Some r)
  obtain v1 o1 where r: "r = (v1, o1)" by fastforce
  have v1: "length v1 = 4" using cbc_loop_chaining_length(2) [OF _ Some [unfolded r]] assms(3) by simp
  show ?thesis
  proof (cases "decrypt_cbc_loop c v1 b len")
    case None
    then show ?thesis
      unfolding aes_decrypt_cbc_def decrypt_cbc_loop_append [OF assms(2,1)] using Some r v1 assms(3) by simp
  next
    case (Some r2)
    obtain v2 o2 where r2: "r2 = (v2, o2)" by fastforce
    have "length v2 = 4" using cbc_loop_chaining_length(2) [OF v1 Some [unfolded r2]] .
    then show ?thesis
      unfolding aes_decrypt_cbc_def decrypt_cbc_loop_append [OF assms(2,1)]
      using Some r2 \<open>decrypt_cbc_loop c (take 4 (iv c)) a _ = _\<close> r v1 assms(3) by simp
  qed
qed

section \<open>Properties\<close>

text \<open>
  C17: for every key of 128, 192 or 256 bits and every message of whole blocks, CBC encryption
  succeeds and CBC decryption under the same key and chaining value gives the message back; both
  leave the same chaining value in the context for the next call.
\<close>

theorem aes_cbc_roundtrip:
  assumes "aes_arrays_ok ctx" and "unat keylen \<in> {16, 24, 32}" and "length v = 16"
    and "length src = 16 * n" and "16 * n < 2 ^ 31"
    and "c = CRYPT_AESSetIV (CRYPT_AESSetKey ctx key keylen) v"
  shows "\<exists>c' out. CRYPT_AESEncrypt c src (of_nat (length src)) = Some (c', out) \<and>
    length out = length src \<and> CRYPT_AESDecrypt c out (of_nat (length src)) = Some (c', src)"
proof -
  have "inverse_schedule (CRYPT_AESSetKey ctx key keylen)" "aes_arrays_ok (CRYPT_AESSetKey ctx key keylen)"
    using assms(1,2) by (simp_all add: CRYPT_AESSetKey_def aes_setup_inverse_schedule aes_setup_arrays)
  then have "inverse_schedule c" "length (take 4 (iv c)) = 4"
    by (simp_all add: assms(6) inverse_schedule_def CRYPT_AESSetIV_def aes_arrays_ok_def kMaxNb_def)
  then obtain v' out where "encrypt_cbc_loop c (take 4 (iv c)) src (int (16 * n)) = Some (v', out)"
    "length out = length src" "decrypt_cbc_loop c (take 4 (iv c)) out (int (16 * n)) = Some (v', src)"
    using cbc_inverse assms(4) by blast
  then show ?thesis
    using assms(4,5) sint_of_nat_u32 [of "16 * n"]
    by (simp add: CRYPT_AESEncrypt_def CRYPT_AESDecrypt_def aes_encrypt_cbc_def aes_decrypt_cbc_def)
qed

theorem aes_cbc_roundtrip_witness:
  "\<exists>c c' out. Nr c = 14 \<and> CRYPT_AESEncrypt c (map of_nat [0..<32]) 32 = Some (c', out) \<and> length out = 32 \<and>
    CRYPT_AESDecrypt c out 32 = Some (c', map of_nat [0..<32])"
proof -
  define ctx where "ctx = \<lparr>Nb = 0, Nr = 0, keysched = replicate 120 0, invkeysched = replicate 120 0, iv = replicate 8 0\<rparr>"
  define c where "c = CRYPT_AESSetIV (CRYPT_AESSetKey ctx (map of_nat [0..<32]) 32) (replicate 16 7)"
  have "aes_arrays_ok ctx" by (simp add: ctx_def aes_arrays_ok_def kSchedSize_def kMaxNb_def kMaxNr_def)
  moreover have "Nr c = 14" by (simp add: c_def CRYPT_AESSetIV_def CRYPT_AESSetKey_def aes_setup_def Let_def)
  ultimately show ?thesis
    using aes_cbc_roundtrip [OF _ _ _ _ _ c_def, of "map of_nat [0..<32]" 2] by auto
qed

text \<open>
  a message may be encrypted or decrypted in two calls cut at a block boundary: the chaining
  value kept in the context makes the two calls give the bytes and the final context of one call on
  the whole message, including when the second part is not a whole number of blocks and fails.
\<close>

theorem aes_cbc_incremental:
  assumes "length a = 16 * n" and "length a + length b < 2 ^ 31" and "aes_arrays_ok c"
  shows "CRYPT_AESEncrypt c (a @ b) (of_nat (length a + length b)) =
      Option.bind (CRYPT_AESEncrypt c a (of_nat (length a))) (\<lambda>(c1, o1).
        map_option (\<lambda>(c2, o2). (c2, o1 @ o2)) (CRYPT_AESEncrypt c1 b (of_nat (length b)))) \<and>
    CRYPT_AESDecrypt c (a @ b) (of_nat (length a + length b)) =
      Option.bind (CRYPT_AESDecrypt c a (of_nat (length a))) (\<lambda>(c1, o1).
        map_option (\<lambda>(c2, o2). (c2, o1 @ o2)) (CRYPT_AESDecrypt c1 b (of_nat (length b))))"
proof -
  have "sint (of_nat (length a + length b) :: u32) = int (length a + length b)"
    "sint (of_nat (length a) :: u32) = int (length a)" "sint (of_nat (length b) :: u32) = int (length b)"
    by (rule sint_of_nat_u32, use assms(2) in linarith)+
  then have sizes: "sint (of_nat (length a + length b) :: u32) = int (16 * n) + int (length b)"
    "sint (of_nat (length a) :: u32) = int (16 * n)" "sint (of_nat (length b) :: u32) = int (length b)"
    using assms(1) by simp_all
  have "length (iv c) = 8" using assms(3) by (simp add: aes_arrays_ok_def kMaxNb_def)
  then show ?thesis
    unfolding CRYPT_AESEncrypt_def CRYPT_AESDecrypt_def sizes
    using encrypt_two_calls [OF assms(1), of "int (length b)"] decrypt_two_calls [OF assms(1), of "int (length b)"]
    by (simp only: of_nat_0_le_iff simp_thms)
qed

theorem aes_cbc_incremental_witness:
  "let c = \<lparr>Nb = 4, Nr = 10, keysched = replicate 120 1, invkeysched = replicate 120 2, iv = [1, 2, 3, 4, 0, 0, 0, 0]\<rparr> in
   CRYPT_AESDecrypt c (replicate 16 1 @ replicate 20 2) 36 =
    Option.bind (CRYPT_AESDecrypt c (replicate 16 1) 16) (\<lambda>(c1, o1).
        map_option (\<lambda>(c2, o2). (c2, o1 @ o2)) (CRYPT_AESDecrypt c1 (replicate 20 2) 20))"
  using aes_cbc_incremental [of "replicate 16 1" 1 "replicate 20 2"]
  by (simp add: aes_arrays_ok_def kSchedSize_def kMaxNb_def kMaxNr_def)

end
