(* ===== verification/Wide_String.thy ===== *)
theory Wide_String
  imports Xilou_Prelude
begin

text \<open>
  The string operations of core/fxcrt/widestring.cpp that the XML and OFD layers use, on strings held
  as lists of character codes (a NUL terminator is the end of the list), and the character
  classifications of core/fxcrt/fx_extension.h. Results that the code returns through
  \<open>absl::optional\<close> are option values.
\<close>

type_synonym wstring = "nat list"

definition L :: "string \<Rightarrow> wstring" where
  "L s = map of_char s"

section \<open>Characters\<close>

text \<open>
  \<open>FXSYS_IsHexDigit\<close> and \<open>FXSYS_HexCharToInt\<close> take a \<open>char\<close>: a caller that passes a wide character
  has it truncated to its low eight bits.
\<close>

definition FXSYS_IsHexDigit :: "nat \<Rightarrow> bool" where
  "FXSYS_IsHexDigit c =
     (let c = c mod 256 in 48 \<le> c \<and> c \<le> 57 \<or> 65 \<le> c \<and> c \<le> 70 \<or> 97 \<le> c \<and> c \<le> 102)"

definition FXSYS_IsLowerASCII :: "nat \<Rightarrow> bool" where
  "FXSYS_IsLowerASCII c \<longleftrightarrow> 97 \<le> c \<and> c \<le> 122"

definition FXSYS_ToUpperASCII :: "nat \<Rightarrow> nat" where
  "FXSYS_ToUpperASCII c = (if FXSYS_IsLowerASCII c then c - 32 else c)"

definition FXSYS_HexCharToInt :: "nat \<Rightarrow> nat" where
  "FXSYS_HexCharToInt c =
     (if \<not> FXSYS_IsHexDigit c then 0
      else let upchar = FXSYS_ToUpperASCII (c mod 256)
           in if 57 < upchar then upchar - 65 + 10 else upchar - 48)"

definition FXSYS_IsDecimalDigit :: "nat \<Rightarrow> bool" where
  "FXSYS_IsDecimalDigit c \<longleftrightarrow> 48 \<le> c \<and> c \<le> 57"

definition FXSYS_DecimalCharToInt :: "nat \<Rightarrow> nat" where
  "FXSYS_DecimalCharToInt c = (if FXSYS_IsDecimalDigit c then c - 48 else 0)"

section \<open>Searching and cutting\<close>

function FX_wcsstr :: "wstring \<Rightarrow> wstring \<Rightarrow> nat option" where
  "FX_wcsstr haystack needle =
     (if length haystack < length needle \<or> needle = [] then None
      else if take (length needle) haystack = needle then Some 0
      else map_option Suc (FX_wcsstr (tl haystack) needle))"
  by pat_completeness auto
termination
proof (relation "measure (\<lambda>(h, n). length h)", goal_cases)
  case (2 haystack needle)
  then show ?case by (cases haystack) auto
qed simp

declare FX_wcsstr.simps [simp del]

definition WideString_Find :: "wstring \<Rightarrow> nat \<Rightarrow> nat \<Rightarrow> nat option" where
  "WideString_Find s ch start =
     (if \<not> start < length s then None
      else map_option (\<lambda>i. start + i) (FX_wcsstr (drop start s) [ch]))"

fun WideString_ReverseFind :: "wstring \<Rightarrow> nat \<Rightarrow> nat \<Rightarrow> nat option" where
  "WideString_ReverseFind s ch 0 = None"
| "WideString_ReverseFind s ch (Suc nLength) =
     (if s ! nLength = ch then Some nLength else WideString_ReverseFind s ch nLength)"

definition ReverseFind :: "wstring \<Rightarrow> nat \<Rightarrow> nat option" where
  "ReverseFind s ch = WideString_ReverseFind s ch (length s)"

definition Substr :: "wstring \<Rightarrow> nat \<Rightarrow> nat \<Rightarrow> wstring" where
  "Substr s first cnt =
     (if \<not> first < length s then []
      else if cnt = 0 \<or> \<not> cnt \<le> length s then []
      else if \<not> first + cnt - 1 < length s then []
      else take cnt (drop first s))"

definition First :: "wstring \<Rightarrow> nat \<Rightarrow> wstring" where
  "First s cnt = Substr s 0 cnt"

text \<open>The unsigned difference underflows when \<open>cnt\<close> exceeds the length; no index is then valid.\<close>

definition Last :: "wstring \<Rightarrow> nat \<Rightarrow> wstring" where
  "Last s cnt = (if length s < cnt then [] else Substr s (length s - cnt) cnt)"

definition WideString_Insert :: "wstring \<Rightarrow> nat \<Rightarrow> nat \<Rightarrow> wstring \<times> nat" where
  "WideString_Insert s index ch =
     (if \<not> index \<le> length s then (s, length s)
      else (take index s @ [ch] @ drop index s, length s + 1))"

definition WideString_Delete :: "wstring \<Rightarrow> nat \<Rightarrow> nat \<Rightarrow> wstring \<times> nat" where
  "WideString_Delete s index cnt =
     (if cnt = 0 \<or> length s < index then (s, length s)
      else if length s < index + cnt then (s, length s)
      else (take index s @ drop (index + cnt) s, length s - cnt))"

definition WideString_Remove :: "wstring \<Rightarrow> nat \<Rightarrow> wstring \<times> nat" where
  "WideString_Remove s chRemove =
     (let kept = filter (\<lambda>c. c \<noteq> chRemove) s in (kept, length s - length kept))"

section \<open>Replacing\<close>

text \<open>
  \<open>Replace\<close> first counts the occurrences and then builds the new string with that many replacements.
\<close>

lemma FX_wcsstr_bound: "FX_wcsstr h n = Some k \<Longrightarrow> k + length n \<le> length h \<and> n \<noteq> []"
proof (induction h n arbitrary: k rule: FX_wcsstr.induct)
  case (1 h n)
  from "1.prems" have fits: "\<not> (length h < length n \<or> n = [])"
    by (subst (asm) FX_wcsstr.simps) (auto split: if_splits)
  show ?case
  proof (cases "take (length n) h = n")
    case True
    with "1.prems" fits show ?thesis by (subst (asm) FX_wcsstr.simps) auto
  next
    case False
    with "1.prems" fits obtain j where "FX_wcsstr (tl h) n = Some j" "k = Suc j"
      by (subst (asm) FX_wcsstr.simps) auto
    with "1.IH" [OF fits False] fits show ?thesis by (cases h) auto
  qed
qed

function replace_count :: "wstring \<Rightarrow> wstring \<Rightarrow> nat" where
  "replace_count s pOld =
     (case FX_wcsstr s pOld of None \<Rightarrow> 0
      | Some pTarget \<Rightarrow> Suc (replace_count (drop (pTarget + length pOld) s) pOld))"
  by pat_completeness auto
termination
proof (relation "measure (\<lambda>(s, p). length s)", goal_cases)
  case (2 s pOld pTarget)
  with FX_wcsstr_bound [OF this] show ?case by (cases pOld) auto
qed simp

declare replace_count.simps [simp del]

fun replace_build :: "nat \<Rightarrow> wstring \<Rightarrow> wstring \<Rightarrow> wstring \<Rightarrow> wstring" where
  "replace_build 0 s pOld pNew = s"
| "replace_build (Suc n) s pOld pNew =
     (case FX_wcsstr s pOld of None \<Rightarrow> s
      | Some pTarget \<Rightarrow> take pTarget s @ pNew @ replace_build n (drop (pTarget + length pOld) s) pOld pNew)"

definition Replace :: "wstring \<Rightarrow> wstring \<Rightarrow> wstring \<Rightarrow> wstring \<times> nat" where
  "Replace s pOld pNew =
     (if s = [] \<or> pOld = [] then (s, 0)
      else let cnt = replace_count s pOld
           in if cnt = 0 then (s, 0) else (replace_build cnt s pOld pNew, cnt))"

definition EncodeEntities :: "wstring \<Rightarrow> wstring" where
  "EncodeEntities s =
     (let ret = fst (Replace s (L ''&'') (L ''&amp;''));
          ret = fst (Replace ret (L ''<'') (L ''&lt;''));
          ret = fst (Replace ret (L ''>'') (L ''&gt;''));
          ret = fst (Replace ret [39] (L ''&apos;''));
          ret = fst (Replace ret [34] (L ''&quot;''))
      in ret)"

section \<open>Trimming and comparing\<close>

definition kWideTrimChars :: wstring where
  "kWideTrimChars = [0x09, 0x0a, 0x0b, 0x0c, 0x0d, 0x20]"

definition TrimLeft :: "wstring \<Rightarrow> wstring \<Rightarrow> wstring" where
  "TrimLeft s targets = (if targets = [] then s else dropWhile (\<lambda>c. c \<in> set targets) s)"

definition TrimRight :: "wstring \<Rightarrow> wstring \<Rightarrow> wstring" where
  "TrimRight s targets = (if targets = [] then s else rev (dropWhile (\<lambda>c. c \<in> set targets) (rev s)))"

definition Trim :: "wstring \<Rightarrow> wstring" where
  "Trim s = TrimLeft (TrimRight s kWideTrimChars) kWideTrimChars"

fun wmemcmp :: "wstring \<Rightarrow> wstring \<Rightarrow> nat \<Rightarrow> int" where
  "wmemcmp a b 0 = 0"
| "wmemcmp a b (Suc n) =
     (if hd a < hd b then - 1 else if hd b < hd a then 1 else wmemcmp (tl a) (tl b) n)"

definition Compare :: "wstring \<Rightarrow> wstring \<Rightarrow> int" where
  "Compare s t =
     (let result = wmemcmp s t (min (length s) (length t))
      in if result \<noteq> 0 then result
         else if length s = length t then 0
         else if length s < length t then - 1 else 1)"

section \<open>Facts about the operations\<close>

lemma FX_wcsstr_single [simp]:
  "FX_wcsstr [] [c] = None"
  "FX_wcsstr (x # xs) [c] = (if x = c then Some 0 else map_option Suc (FX_wcsstr xs [c]))"
  by (simp_all add: FX_wcsstr.simps [of "[]"] FX_wcsstr.simps [of "x # xs"])

lemma replace_count_single [simp]:
  "replace_count [] [c] = 0"
  "replace_count (x # xs) [c] = (if x = c then Suc (replace_count xs [c]) else replace_count xs [c])"
proof -
  show "replace_count [] [c] = 0" by (simp add: replace_count.simps)
  show "replace_count (x # xs) [c] = (if x = c then Suc (replace_count xs [c]) else replace_count xs [c])"
    by (simp add: replace_count.simps [of "x # xs"] replace_count.simps [of xs] split: option.splits)
qed

lemma replace_build_single:
  "replace_build (replace_count s [c]) s [c] new = concat (map (\<lambda>x. if x = c then new else [x]) s)"
proof (induction s)
  case Nil
  then show ?case by simp
next
  case (Cons x xs)
  show ?case
  proof (cases "x = c")
    case True
    then show ?thesis using Cons by simp
  next
    case False
    then show ?thesis
      using Cons by (cases "replace_count xs [c]") (auto split: option.splits)
  qed
qed

lemma replace_count_zero: "replace_count s [c] = 0 \<Longrightarrow> c \<notin> set s"
  by (induction s) (auto split: if_splits)

lemma concat_map_unchanged: "c \<notin> set s \<Longrightarrow> concat (map (\<lambda>x. if x = c then new else [x]) s) = s"
  by (induction s) auto

lemma Replace_single:
  "fst (Replace s [c] new) = concat (map (\<lambda>x. if x = c then new else [x]) s)"
  using replace_build_single [of s c new] replace_count_zero [of s c] concat_map_unchanged [of c s new]
  by (auto simp: Replace_def Let_def)

text \<open>What one character becomes under \<open>EncodeEntities\<close>.\<close>

definition encode_char :: "nat \<Rightarrow> wstring" where
  "encode_char c =
     (if c = 38 then L ''&amp;'' else if c = 60 then L ''&lt;'' else if c = 62 then L ''&gt;''
      else if c = 39 then L ''&apos;'' else if c = 34 then L ''&quot;'' else [c])"

lemma EncodeEntities_concat: "EncodeEntities s = concat (map encode_char s)"
  by (induction s) (auto simp: EncodeEntities_def Let_def L_def Replace_single encode_char_def)

lemma wmemcmp_sign: "wmemcmp s t n = 0 \<or> wmemcmp s t n = 1 \<or> wmemcmp s t n = - 1"
  by (induction s t n rule: wmemcmp.induct) auto

lemma Compare_Cons [simp]:
  "Compare [] [] = 0" "Compare [] (y # ys) = - 1" "Compare (x # xs) [] = 1"
  "Compare (x # xs) (y # ys) = (if x < y then - 1 else if y < x then 1 else Compare xs ys)"
  by (simp_all add: Compare_def Let_def)

lemma Compare_lexord: "Compare s t < 0 \<longleftrightarrow> (s, t) \<in> lexord {(x, y). x < y}"
  by (induction s t rule: list_induct2') auto

lemma Compare_eq_0: "Compare s t = 0 \<longleftrightarrow> s = t"
  by (induction s t rule: list_induct2') auto

lemma Compare_antisym: "Compare t s = - Compare s t"
  by (induction s t rule: list_induct2') auto

lemma ReverseFind_Some:
  "WideString_ReverseFind s ch n = Some i \<Longrightarrow>
   i < n \<and> s ! i = ch \<and> (\<forall>j. i < j \<and> j < n \<longrightarrow> s ! j \<noteq> ch)"
proof (induction n)
  case 0
  then show ?case by simp
next
  case (Suc n)
  then show ?case
    by (cases "s ! n = ch") (auto simp: less_Suc_eq)
qed

lemma ReverseFind_None: "WideString_ReverseFind s ch n = None \<longleftrightarrow> (\<forall>j < n. s ! j \<noteq> ch)"
  by (induction n) (auto simp: less_Suc_eq)

lemma Substr_prefix: "n \<le> length s \<Longrightarrow> Substr s 0 n = take n s"
  by (auto simp: Substr_def)

lemma Last_suffix: "n \<le> length s \<Longrightarrow> Last s n = drop (length s - n) s"
  by (auto simp: Last_def Substr_def)

section \<open>Properties\<close>

text \<open>
  the order by which \<open>std::map\<close> sorts attribute names, \<open>WideString::Compare(...) < 0\<close>, is the
  lexicographic order of the character codes with a proper prefix first; it is zero exactly on equal
  strings and changes sign when its arguments are swapped, so that it is a strict total order.
\<close>

theorem Compare_is_lexicographic:
  "(Compare s t < 0 \<longleftrightarrow> (s, t) \<in> lexord {(x, y). x < y}) \<and> (Compare s t = 0 \<longleftrightarrow> s = t) \<and>
   Compare t s = - Compare s t"
  by (simp only: Compare_lexord Compare_eq_0 Compare_antisym [of t s])

end
