(* ===== verification/Fx_Number.thy ===== *)
theory Fx_Number
  imports Wide_String
begin

text \<open>
  Conversion between integers and digit strings, core/fxcrt/fx_system.cpp: the templates
  \<open>FXSYS_StrToInt\<close> and \<open>FXSYS_IntToStr\<close> and their instances. Integers are HOL integers with the
  limits of the C type as parameters; the theorems show that reading saturates at those limits and
  that reading undoes writing on the whole range of the type.
\<close>

section \<open>Reading\<close>

definition finish_sign :: "bool \<Rightarrow> int \<Rightarrow> bool \<Rightarrow> int \<Rightarrow> int" where
  "finish_sign is_signed mx neg num =
     (if neg then (if is_signed then - num else (- num) mod (mx + 1)) else num)"

fun StrToInt_loop :: "bool \<Rightarrow> int \<Rightarrow> int \<Rightarrow> bool \<Rightarrow> int \<Rightarrow> wstring \<Rightarrow> int" where
  "StrToInt_loop is_signed mn mx neg num [] = finish_sign is_signed mx neg num"
| "StrToInt_loop is_signed mn mx neg num (c # str) =
     (if c \<noteq> 0 \<and> FXSYS_IsDecimalDigit c
      then let val = int (FXSYS_DecimalCharToInt c)
           in if (mx - val) div 10 < num
              then (if neg \<and> is_signed then mn else mx)
              else StrToInt_loop is_signed mn mx neg (num * 10 + val) str
      else finish_sign is_signed mx neg num)"

definition FXSYS_StrToInt :: "bool \<Rightarrow> int \<Rightarrow> int \<Rightarrow> wstring \<Rightarrow> int" where
  "FXSYS_StrToInt is_signed mn mx str =
     (let neg = (str \<noteq> [] \<and> hd str = 45);
          str = (if neg \<or> str \<noteq> [] \<and> hd str = 43 then tl str else str)
      in StrToInt_loop is_signed mn mx neg 0 str)"

definition int32_min :: int where "int32_min = - (2 ^ 31)"
definition int32_max :: int where "int32_max = 2 ^ 31 - 1"

definition FXSYS_atoi :: "wstring \<Rightarrow> int" where
  "FXSYS_atoi str = FXSYS_StrToInt True int32_min int32_max str"

definition FXSYS_atoui :: "wstring \<Rightarrow> int" where
  "FXSYS_atoui str = FXSYS_StrToInt False 0 (2 ^ 32 - 1) str"

definition FXSYS_wtoi :: "wstring \<Rightarrow> int" where
  "FXSYS_wtoi str = FXSYS_StrToInt True int32_min int32_max str"

definition FXSYS_atoi64 :: "wstring \<Rightarrow> int" where
  "FXSYS_atoi64 str = FXSYS_StrToInt True (- (2 ^ 63)) (2 ^ 63 - 1) str"

definition GetInteger :: "wstring \<Rightarrow> int" where
  "GetInteger s = (if s = [] then 0 else FXSYS_wtoi s)"

section \<open>Writing\<close>

function digit_count :: "nat \<Rightarrow> nat \<Rightarrow> nat \<Rightarrow> nat" where
  "digit_count radix order digits =
     (if 0 < order \<and> 2 \<le> radix then digit_count radix (order div radix) (digits + 1) else digits)"
  by pat_completeness auto
termination
  by (relation "measure (\<lambda>(r, order, d). order)") auto

declare digit_count.simps [simp del]

fun fill_digits :: "nat \<Rightarrow> nat \<Rightarrow> nat \<Rightarrow> wstring" where
  "fill_digits radix 0 uvalue = []"
| "fill_digits radix (Suc d) uvalue =
     fill_digits radix d (uvalue div radix) @ [L ''0123456789abcdef'' ! (uvalue mod radix)]"

definition FXSYS_IntToStr :: "int \<Rightarrow> nat \<Rightarrow> wstring" where
  "FXSYS_IntToStr value radix =
     (if radix < 2 \<or> 16 < radix then []
      else if value = 0 then [48]
      else let (sign, uvalue) =
                 (if value < 0 then ([45], nat (- (value + 1)) + 1) else ([], nat value));
               digits = digit_count radix (uvalue div radix) 1
           in sign @ fill_digits radix digits uvalue)"

section \<open>Digit strings\<close>

definition digits_value :: "int \<Rightarrow> wstring \<Rightarrow> int" where
  "digits_value n ds = foldl (\<lambda>n c. n * 10 + (int c - 48)) n ds"

lemma digits_value_Nil [simp]: "digits_value n [] = n"
  by (simp add: digits_value_def)

lemma digits_value_Cons [simp]: "digits_value n (c # ds) = digits_value (n * 10 + (int c - 48)) ds"
  by (simp add: digits_value_def)

lemma digits_value_snoc [simp]: "digits_value n (ds @ [c]) = digits_value n ds * 10 + (int c - 48)"
  by (simp add: digits_value_def)

lemma digits_value_mono: "list_all FXSYS_IsDecimalDigit ds \<Longrightarrow> 0 \<le> n \<Longrightarrow> n \<le> digits_value n ds"
proof (induction ds arbitrary: n)
  case Nil
  then show ?case by simp
next
  case (Cons c ds)
  then have c: "48 \<le> c" by (simp add: FXSYS_IsDecimalDigit_def)
  with Cons have "n * 10 + (int c - 48) \<le> digits_value (n * 10 + (int c - 48)) ds" by simp
  moreover have "n \<le> n * 10 + (int c - 48)" using Cons.prems(2) c by linarith
  ultimately show ?case by simp
qed

text \<open>
  The overflow test of the loop is exact: it fires when and only when appending the digit would pass
  the maximum. Once it has fired the whole digit string is beyond the maximum.
\<close>

lemma overflow_test: "(mx - val) div 10 < num \<longleftrightarrow> mx < num * 10 + (val :: int)"
  by linarith

definition saturated :: "bool \<Rightarrow> int \<Rightarrow> int \<Rightarrow> bool \<Rightarrow> int \<Rightarrow> int" where
  "saturated is_signed mn mx neg v =
     (if mx < v then (if neg \<and> is_signed then mn else mx) else finish_sign is_signed mx neg v)"

lemma StrToInt_loop_saturates:
  assumes "list_all FXSYS_IsDecimalDigit ds" and "rest = [] \<or> \<not> FXSYS_IsDecimalDigit (hd rest)"
    and "0 \<le> num" "num \<le> mx"
  shows "StrToInt_loop sg mn mx neg num (ds @ rest) = saturated sg mn mx neg (digits_value num ds)"
  using assms
proof (induction ds arbitrary: num)
  case Nil
  then show ?case by (cases rest) (auto simp: saturated_def)
next
  case (Cons c ds)
  let ?num = "num * 10 + (int c - 48)"
  have c: "FXSYS_IsDecimalDigit c" "48 \<le> c" using Cons.prems(1) by (auto simp: FXSYS_IsDecimalDigit_def)
  then have val: "int (FXSYS_DecimalCharToInt c) = int c - 48"
    by (simp add: FXSYS_DecimalCharToInt_def)
  show ?case
  proof (cases "mx < ?num")
    case True
    moreover have "?num \<le> digits_value ?num ds"
      using Cons.prems c(2) by (intro digits_value_mono) auto
    ultimately show ?thesis using c val by (simp add: overflow_test saturated_def)
  next
    case False
    then show ?thesis using Cons c val by (simp add: overflow_test)
  qed
qed

section \<open>Writing and reading back\<close>

lemma digit_count_bound:
  "2 \<le> radix \<Longrightarrow>
   d \<le> digit_count radix order d \<and> order < radix ^ (digit_count radix order d - d)"
proof (induction radix order d rule: digit_count.induct)
  case (1 radix order d)
  show ?case
  proof (cases "order = 0")
    case True
    then show ?thesis by (simp add: digit_count.simps)
  next
    case False
    let ?k = "digit_count radix (order div radix) (d + 1)"
    have k: "d + 1 \<le> ?k" "order div radix < radix ^ (?k - (d + 1))"
      using "1" False by simp_all
    then have "order < radix ^ (?k - (d + 1)) * radix"
      using "1.prems" by (simp add: div_less_iff_less_mult)
    also have "\<dots> = radix ^ (?k - d)"
      using k(1) by (metis Suc_diff_le Suc_eq_plus1 diff_Suc_Suc power_Suc2)
    finally show ?thesis
      using k(1) False "1.prems" by (subst (1 2) digit_count.simps) simp
  qed
qed

lemma hex_table: "n < 10 \<Longrightarrow> L ''0123456789abcdef'' ! n = 48 + n"
  by (auto simp: L_def less_Suc_eq numeral_eq_Suc)

lemma fill_digits_value:
  "u < 10 ^ d \<Longrightarrow> list_all FXSYS_IsDecimalDigit (fill_digits 10 d u) \<and> digits_value 0 (fill_digits 10 d u) = int u"
proof (induction d arbitrary: u)
  case 0
  then show ?case by simp
next
  case (Suc d)
  then have "u div 10 < 10 ^ d" by (simp add: div_less_iff_less_mult mult.commute)
  moreover have "FXSYS_IsDecimalDigit (48 + u mod 10)" by (simp add: FXSYS_IsDecimalDigit_def)
  ultimately show ?case
    using Suc.IH hex_table [of "u mod 10"] by (simp del: of_nat_div of_nat_mod) (metis div_mult_mod_eq of_nat_add of_nat_mult of_nat_numeral)
qed

lemma digit_count_covers: "u < 10 ^ digit_count 10 (u div 10) 1"
proof -
  have "u div 10 < 10 ^ (digit_count 10 (u div 10) 1 - 1)" "1 \<le> digit_count 10 (u div 10) 1"
    using digit_count_bound [of 10 1 "u div 10"] by simp_all
  then show ?thesis
    by (metis One_nat_def Suc_pred div_less_iff_less_mult less_eq_Suc_le power_Suc2 zero_less_numeral)
qed

lemma fill_digits_hd:
  "0 < d \<Longrightarrow> u < 10 ^ d \<Longrightarrow> fill_digits 10 d u \<noteq> [] \<and> hd (fill_digits 10 d u) \<noteq> 45 \<and> hd (fill_digits 10 d u) \<noteq> 43"
  using fill_digits_value [of u d]
  by (cases "fill_digits 10 d u"; cases d) (auto simp: FXSYS_IsDecimalDigit_def)

section \<open>Properties\<close>

text \<open>
  C33: reading an optional sign, a run of decimal digits and anything after it as a 32-bit integer
  gives the exact value clamped to [-2147483648, 2147483647], however long the digit run is.
\<close>

theorem atoi_saturates:
  assumes "list_all FXSYS_IsDecimalDigit ds" and "rest = [] \<or> \<not> FXSYS_IsDecimalDigit (hd rest)"
    and "ds \<noteq> []"
  shows "FXSYS_atoi (ds @ rest) = min int32_max (digits_value 0 ds) \<and>
    FXSYS_atoi (43 # ds @ rest) = min int32_max (digits_value 0 ds) \<and>
    FXSYS_atoi (45 # ds @ rest) = max int32_min (- digits_value 0 ds)"
proof -
  note loop = StrToInt_loop_saturates [OF assms(1,2), of 0 int32_max]
  have "hd ds \<noteq> 45" "hd ds \<noteq> 43" using assms by (auto simp: FXSYS_IsDecimalDigit_def neq_Nil_conv)
  then show ?thesis
    using assms(3) loop
    by (auto simp: FXSYS_atoi_def FXSYS_StrToInt_def saturated_def finish_sign_def int32_max_def
        int32_min_def min_def max_def)
qed

theorem atoi_saturates_witness:
  "FXSYS_atoi (L ''99999999999x'') = 2147483647 \<and> FXSYS_atoi (L ''-99999999999x'') = - 2147483648"
  using atoi_saturates [of "L ''99999999999''" "L ''x''"]
  by (simp add: L_def FXSYS_IsDecimalDigit_def int32_max_def int32_min_def)

text \<open>
  writing a 64-bit integer in radix ten and reading it back gives the integer, for every value
  of the type including the smallest one.
\<close>

theorem i64toa_atoi64_roundtrip:
  assumes "- (2 ^ 63) \<le> v" and "v < 2 ^ 63"
  shows "FXSYS_atoi64 (FXSYS_IntToStr v 10) = v"
proof (cases "v = 0")
  case True
  then show ?thesis by (simp add: FXSYS_IntToStr_def FXSYS_atoi64_def FXSYS_StrToInt_def
        FXSYS_IsDecimalDigit_def FXSYS_DecimalCharToInt_def finish_sign_def)
next
  case False
  define u where "u = (if v < 0 then nat (- (v + 1)) + 1 else nat v)"
  define ds where "ds = fill_digits 10 (digit_count 10 (u div 10) 1) u"
  have "0 < digit_count 10 (u div 10) 1" using digit_count_bound [of 10 1 "u div 10"] by simp
  then have ds: "list_all FXSYS_IsDecimalDigit ds" "digits_value 0 ds = int u" "ds \<noteq> []"
    "hd ds \<noteq> 45" "hd ds \<noteq> 43"
    using fill_digits_value [OF digit_count_covers, of u] fill_digits_hd [OF _ digit_count_covers, of u]
    by (simp_all add: ds_def)
  have str: "FXSYS_IntToStr v 10 = (if v < 0 then 45 # ds else ds)"
    using False by (simp add: FXSYS_IntToStr_def ds_def u_def Let_def)
  note loop = StrToInt_loop_saturates [OF ds(1), of "[]" 0 "2 ^ 63 - 1" True "- (2 ^ 63)"]
  show ?thesis
    using loop [of "v < 0"] ds assms False str
    by (auto simp: FXSYS_atoi64_def FXSYS_StrToInt_def saturated_def finish_sign_def u_def split: if_splits)
qed

theorem i64toa_atoi64_roundtrip_witness:
  "FXSYS_atoi64 (FXSYS_IntToStr (- (2 ^ 63)) 10) = - (2 ^ 63)"
  using i64toa_atoi64_roundtrip [of "- (2 ^ 63)"] by simp

end
