(* ===== verification/Utf8.thy ===== *)
theory Utf8
  imports Wide_String
begin

text \<open>
  UTF-8 in src/core/fxcrt: the encoder (cfx_utf8encoder.cpp), the incremental decoder
  (cfx_utf8decoder.cpp), the string functions of fx_string.cpp built on them, and the block reader
  CFX_SeekableStreamProxy (cfx_seekablestreamproxy.cpp) that the XML parser reads its input through,
  with byte-order-mark detection, the UTF-16 branch and the step back over a character cut by the end
  of a block.  Characters are the values of \<open>uint32_t\<close> as natural numbers, with the wrap-around of the
  shifts written out; bytes are 8-bit words.
\<close>

unbundle bit_operations_syntax

section \<open>Encoder\<close>

definition utf8_nbytes :: "nat \<Rightarrow> nat" where
  "utf8_nbytes unicode = (if unicode < 0x800 then 2 else if unicode < 0x10000 then 3
    else if unicode < 0x200000 then 4 else if unicode < 0x4000000 then 5 else 6)"

fun utf8_tail :: "nat \<Rightarrow> nat \<Rightarrow> nat \<Rightarrow> bytes" where
  "utf8_tail 0 code order = []"
| "utf8_tail (Suc i) code order =
    (let code = code mod order; order = order div 64
     in (0x80 OR of_nat (code div order)) # utf8_tail i code order)"

definition CFX_UTF8Encoder_Input :: "nat \<Rightarrow> bytes" where
  "CFX_UTF8Encoder_Input unicode =
    (if unicode < 0x80 then [of_nat unicode]
     else if 0x80000000 \<le> unicode then []
     else
       let nbytes = utf8_nbytes unicode;
           prefix = [0xC0, 0xE0, 0xF0, 0xF8, 0xFC];
           order = 2 ^ ((nbytes - 1) * 6)
       in (prefix ! (nbytes - 2) OR of_nat (unicode div order)) # utf8_tail (nbytes - 1) unicode order)"

definition FX_UTF8Encode :: "wstring \<Rightarrow> bytes" where
  "FX_UTF8Encode s = concat (map CFX_UTF8Encoder_Input s)"

section \<open>Incremental decoder\<close>

record CFX_UTF8Decoder =
  m_PendingBytes :: nat
  m_PendingChar :: nat
  m_Buffer :: wstring

definition CFX_UTF8Decoder_Input :: "byte \<Rightarrow> CFX_UTF8Decoder \<Rightarrow> CFX_UTF8Decoder" where
  "CFX_UTF8Decoder_Input b d = (let c = unat b in
    if c < 0x80 then d\<lparr>m_PendingBytes := 0, m_Buffer := m_Buffer d @ [c]\<rparr>
    else if c < 0xC0 then
      (if m_PendingBytes d = 0 then d
       else
         let n = m_PendingBytes d - 1;
             ch = m_PendingChar d OR (c AND 0x3F) * 2 ^ (n * 6) mod 2 ^ 32
         in d\<lparr>m_PendingBytes := n, m_PendingChar := ch,
              m_Buffer := (if n = 0 then m_Buffer d @ [ch] else m_Buffer d)\<rparr>)
    else if c < 0xE0 then d\<lparr>m_PendingBytes := 1, m_PendingChar := (c AND 0x1F) * 2 ^ 6\<rparr>
    else if c < 0xF0 then d\<lparr>m_PendingBytes := 2, m_PendingChar := (c AND 0x0F) * 2 ^ 12\<rparr>
    else if c < 0xF8 then d\<lparr>m_PendingBytes := 3, m_PendingChar := (c AND 0x07) * 2 ^ 18\<rparr>
    else if c < 0xFC then d\<lparr>m_PendingBytes := 4, m_PendingChar := (c AND 0x03) * 2 ^ 24\<rparr>
    else if c < 0xFE then d\<lparr>m_PendingBytes := 5, m_PendingChar := (c AND 0x01) * 2 ^ 30\<rparr>
    else d\<lparr>m_PendingBytes := 0\<rparr>)"

definition FX_UTF8Decode :: "bytes \<Rightarrow> wstring" where
  "FX_UTF8Decode bs =
    (if bs = [] then []
     else m_Buffer (fold CFX_UTF8Decoder_Input bs \<lparr>m_PendingBytes = 0, m_PendingChar = 0, m_Buffer = []\<rparr>))"

section \<open>Block decoder\<close>

record utf8_block =
  dwCode :: nat
  iPendNum :: nat
  iPending :: nat
  pDst :: wstring

definition utf8_block_step :: "byte \<Rightarrow> utf8_block \<Rightarrow> utf8_block" where
  "utf8_block_step b st = (let c = unat b in
    if c < 0x80 then st\<lparr>iPendNum := 0, iPending := 0, pDst := pDst st @ [c]\<rparr>
    else if c < 0xC0 then
      (if iPending st < 1 then st
       else
         let code = dwCode st * 2 ^ 6 mod 2 ^ 32 OR (c AND 0x3F);
             n = iPending st - 1
         in st\<lparr>dwCode := code, iPending := n, pDst := (if n = 0 then pDst st @ [code] else pDst st)\<rparr>)
    else if c < 0xE0 then st\<lparr>iPendNum := 1, iPending := 1, dwCode := c AND 0x1F\<rparr>
    else if c < 0xF0 then st\<lparr>iPendNum := 2, iPending := 2, dwCode := c AND 0x0F\<rparr>
    else if c < 0xF8 then st\<lparr>iPendNum := 3, iPending := 3, dwCode := c AND 0x07\<rparr>
    else if c < 0xFC then st\<lparr>iPendNum := 4, iPending := 4, dwCode := c AND 0x03\<rparr>
    else if c < 0xFE then st\<lparr>iPendNum := 5, iPending := 5, dwCode := c AND 0x01\<rparr>
    else st)"

fun utf8_block_loop :: "nat \<Rightarrow> bytes \<Rightarrow> nat \<Rightarrow> utf8_block \<Rightarrow> nat \<times> utf8_block" where
  "utf8_block_loop dst [] iSrcNum st = (iSrcNum, st)"
| "utf8_block_loop dst (b # bs) iSrcNum st =
    (if length (pDst st) < dst then utf8_block_loop dst bs (iSrcNum + 1) (utf8_block_step b st)
     else (iSrcNum, st))"

text \<open>The bytes consumed, the characters produced and \<open>iBackspace\<close>.\<close>

definition UTF8Decode :: "bytes \<Rightarrow> nat \<Rightarrow> nat \<times> wstring \<times> int" where
  "UTF8Decode src dst =
    (let (n, st) = utf8_block_loop dst src 0 \<lparr>dwCode = 0, iPendNum = 0, iPending = 0, pDst = []\<rparr>
     in (n, pDst st, if iPending st \<noteq> 0 then int (iPending st) - int (iPendNum st) - 1 else 0))"

section \<open>The stream proxy\<close>

text \<open>
  The code pages the XML reader distinguishes; \<open>kOtherCodePage\<close> stands for every other value of
  \<open>FX_CodePage\<close>, such as the one of the system that \<open>FX_GetACP\<close> returns.
\<close>

datatype FX_CodePage = kUTF8 | kUTF16LE | kUTF16BE | kOtherCodePage

record CFX_SeekableStreamProxy =
  m_pStream :: bytes
  m_wCodePage :: FX_CodePage
  m_wBOMLength :: nat
  m_iPosition :: nat

definition GetSize :: "CFX_SeekableStreamProxy \<Rightarrow> nat" where
  "GetSize s = length (m_pStream s)"

definition IsEOF :: "CFX_SeekableStreamProxy \<Rightarrow> bool" where
  "IsEOF s \<longleftrightarrow> GetSize s \<le> m_iPosition s"

definition Seek_Begin :: "int \<Rightarrow> CFX_SeekableStreamProxy \<Rightarrow> CFX_SeekableStreamProxy" where
  "Seek_Begin off s = s\<lparr>m_iPosition := nat (min (max off 0) (int (GetSize s)))\<rparr>"

definition Seek_Current :: "int \<Rightarrow> CFX_SeekableStreamProxy \<Rightarrow> CFX_SeekableStreamProxy" where
  "Seek_Current off s = Seek_Begin (int (m_iPosition s) + off) s"

definition SetCodePage :: "FX_CodePage \<Rightarrow> CFX_SeekableStreamProxy \<Rightarrow> CFX_SeekableStreamProxy" where
  "SetCodePage cp s = (if 0 < m_wBOMLength s then s else s\<lparr>m_wCodePage := cp\<rparr>)"

definition ReadData :: "nat \<Rightarrow> CFX_SeekableStreamProxy \<Rightarrow> bytes \<times> CFX_SeekableStreamProxy" where
  "ReadData n s =
    (let n = min n (GetSize s - m_iPosition s)
     in (take n (drop (m_iPosition s) (m_pStream s)), s\<lparr>m_iPosition := m_iPosition s + n\<rparr>))"

text \<open>The constructor: the first three bytes, missing ones read as zero, as a little-endian number.\<close>

definition detect_bom :: "FX_CodePage \<Rightarrow> nat list \<Rightarrow> nat \<times> FX_CodePage" where
  "detect_bom acp bom =
    (if bom = [0xEF, 0xBB, 0xBF] then (3, kUTF8)
     else if take 2 bom = [0xFE, 0xFF] then (2, kUTF16BE)
     else if take 2 bom = [0xFF, 0xFE] then (2, kUTF16LE)
     else (0, acp))"

definition CFX_SeekableStreamProxy_new :: "FX_CodePage \<Rightarrow> bytes \<Rightarrow> CFX_SeekableStreamProxy" where
  "CFX_SeekableStreamProxy_new acp data =
    (let s = \<lparr>m_pStream = data, m_wCodePage = kOtherCodePage, m_wBOMLength = 0, m_iPosition = 0\<rparr>;
         (bs, s) = ReadData 3 s;
         (len, cp) = detect_bom acp (map unat (take 3 (bs @ [0, 0, 0])))
     in Seek_Begin (int len) (s\<lparr>m_wBOMLength := len, m_wCodePage := cp\<rparr>))"

fun utf16_units :: "bytes \<Rightarrow> nat list" where
  "utf16_units (lo # hi # bs) = (unat lo + 256 * unat hi) # utf16_units bs"
| "utf16_units bs = []"

definition SwapByteOrder :: "nat list \<Rightarrow> nat list" where
  "SwapByteOrder = map (\<lambda>wch. wch div 2 ^ 8 OR wch * 2 ^ 8 mod 2 ^ 16)"

definition ReadBlock :: "nat \<Rightarrow> CFX_SeekableStreamProxy \<Rightarrow> wstring \<times> CFX_SeekableStreamProxy" where
  "ReadBlock sz s =
    (if sz = 0 then ([], s)
     else if m_wCodePage s = kUTF16LE \<or> m_wCodePage s = kUTF16BE then
       let (bs, s) = ReadData (sz * 2) s;
           units = utf16_units bs
       in (if m_wCodePage s = kUTF16BE then SwapByteOrder units else units, s)
     else
       let iBytes = min sz (GetSize s - m_iPosition s) in
       if iBytes = 0 then ([], s)
       else
         let (buf, s) = ReadData iBytes s in
         if m_wCodePage s \<noteq> kUTF8 then ([], s)
         else
           let (iSrc, out, iBackspace) = UTF8Decode buf sz;
               s = (if iBackspace < 0 then Seek_Begin (int (m_iPosition s) + iBackspace) s
                    else Seek_Current (int iSrc - int (length buf)) s)
           in (out, s))"

section \<open>Bit fields of a byte\<close>

lemma and_low_bits:
  "(x :: nat) AND 0x3F = x mod 64" "x AND 0x1F = x mod 32" "x AND 0x0F = x mod 16"
  "x AND 0x07 = x mod 8" "x AND 0x03 = x mod 4" "x AND 0x01 = x mod 2"
  using take_bit_eq_mask [of 6 x] take_bit_eq_mask [of 5 x] take_bit_eq_mask [of 4 x]
    take_bit_eq_mask [of 3 x] take_bit_eq_mask [of 2 x] take_bit_eq_mask [of 1 x]
  by (simp_all add: take_bit_eq_mod mask_eq_exp_minus_1)

lemma or_disjoint_fields: "(x :: nat) < 2 ^ n \<Longrightarrow> a * 2 ^ n OR x = a * 2 ^ n + x"
proof -
  assume "x < 2 ^ n"
  then have x: "take_bit n x = x" by (simp add: take_bit_nat_eq_self)
  have "push_bit n a AND take_bit n x = 0" by (rule bit_eqI) (auto simp: bit_simps)
  then show ?thesis using disjunctive_add_eq_or [of "push_bit n a" x] by (simp add: x push_bit_eq_mult)
qed

lemma or_prefix_byte:
  assumes "x < 2 ^ n" and "a * 2 ^ n < 256" and "x < 256"
  shows "unat (of_nat (a * 2 ^ n) OR of_nat x :: byte) = a * 2 ^ n + x"
proof -
  have "unat (of_nat (a * 2 ^ n) :: byte) = a * 2 ^ n" "unat (of_nat x :: byte) = x"
    using assms by (simp_all only: unat_of_nat) simp_all
  then show ?thesis using or_disjoint_fields [OF assms(1), of a] by (simp only: unsigned_or_eq)
qed

lemma or_prefix_bytes:
  "x < 64 \<Longrightarrow> unat (0x80 OR of_nat x :: byte) = 0x80 + x"
  "x < 32 \<Longrightarrow> unat (0xC0 OR of_nat x :: byte) = 0xC0 + x"
  "x < 16 \<Longrightarrow> unat (0xE0 OR of_nat x :: byte) = 0xE0 + x"
  "x < 8 \<Longrightarrow> unat (0xF0 OR of_nat x :: byte) = 0xF0 + x"
  "x < 4 \<Longrightarrow> unat (0xF8 OR of_nat x :: byte) = 0xF8 + x"
  "x < 2 \<Longrightarrow> unat (0xFC OR of_nat x :: byte) = 0xFC + x"
  using or_prefix_byte [of x 6 2] or_prefix_byte [of x 5 6] or_prefix_byte [of x 4 14]
    or_prefix_byte [of x 3 30] or_prefix_byte [of x 2 62] or_prefix_byte [of x 1 126]
  by simp_all

lemma prefix_mod:
  "x < 64 \<Longrightarrow> (0x80 + x) mod 64 = (x :: nat)" "x < 32 \<Longrightarrow> (0xC0 + x) mod 32 = x"
  "x < 16 \<Longrightarrow> (0xE0 + x) mod 16 = x" "x < 8 \<Longrightarrow> (0xF0 + x) mod 8 = x"
  "x < 4 \<Longrightarrow> (0xF8 + x) mod 4 = x" "x < 2 \<Longrightarrow> (0xFC + x) mod 2 = x"
  using mod_mult_self3 [of 2 64 x] mod_mult_self3 [of 6 32 x] mod_mult_self3 [of 14 16 x]
    mod_mult_self3 [of 30 8 x] mod_mult_self3 [of 62 4 x] mod_mult_self3 [of 126 2 x]
  by simp_all

section \<open>Continuation bytes\<close>

lemma utf8_tail_Suc:
  "utf8_tail (Suc k) code (64 ^ Suc k) =
    (0x80 OR of_nat (code mod 64 ^ Suc k div 64 ^ k)) # utf8_tail k (code mod 64 ^ Suc k) (64 ^ k)"
  by (simp add: Let_def)

lemma tail_digit: "code mod 64 ^ Suc k div 64 ^ k < (64 :: nat)"
  by (simp add: div_less_iff_less_mult)

lemma unat_tail_byte: "unat (0x80 OR of_nat (code mod 64 ^ Suc k div 64 ^ k) :: byte) = 0x80 + code mod 64 ^ Suc k div 64 ^ k"
  using or_prefix_bytes(1) [OF tail_digit] .

lemma tail_digit_split: "code mod 64 ^ Suc k div 64 ^ k * 64 ^ k + code mod 64 ^ Suc k mod 64 ^ k = (code :: nat) mod 64 ^ Suc k"
  by (rule div_mult_mod_eq)

lemma length_utf8_tail [simp]: "length (utf8_tail k code order) = k"
  by (induction k arbitrary: code order) (auto simp: Let_def)

lemma block_step_tail_byte:
  assumes "iPending st = Suc k" and "x < 64" and "unat b = 0x80 + x" and "dwCode st * 64 < 2 ^ 32"
  shows "utf8_block_step b st = st\<lparr>dwCode := dwCode st * 64 + x, iPending := k,
    pDst := (if k = 0 then pDst st @ [dwCode st * 64 + x] else pDst st)\<rparr>"
proof -
  have "(0x80 + x) mod 64 = x" using assms(2) by (rule prefix_mod(1))
  then show ?thesis
    using assms or_disjoint_fields [of x 6 "dwCode st"] by (simp add: utf8_block_step_def and_low_bits Let_def)
qed

lemma block_tail:
  assumes "dwCode st * 64 ^ k + code mod 64 ^ k < 2 ^ 32" and "iPending st = k" and "0 < k"
  shows "fold utf8_block_step (utf8_tail k code (64 ^ k)) st =
    st\<lparr>dwCode := dwCode st * 64 ^ k + code mod 64 ^ k, iPending := 0,
      pDst := pDst st @ [dwCode st * 64 ^ k + code mod 64 ^ k]\<rparr>"
  using assms
proof (induction k arbitrary: st code)
  case (Suc k)
  let ?x = "code mod 64 ^ Suc k div 64 ^ k"
  have "dwCode st * 64 \<le> dwCode st * 64 ^ Suc k" by simp
  then have "dwCode st * 64 < 2 ^ 32" using Suc.prems(1) by linarith
  then have step: "utf8_block_step (0x80 OR of_nat ?x) st = st\<lparr>dwCode := dwCode st * 64 + ?x, iPending := k,
      pDst := (if k = 0 then pDst st @ [dwCode st * 64 + ?x] else pDst st)\<rparr>"
    using block_step_tail_byte [OF Suc.prems(2) tail_digit unat_tail_byte] by blast
  have val: "(dwCode st * 64 + ?x) * 64 ^ k + code mod 64 ^ Suc k mod 64 ^ k =
      dwCode st * 64 ^ Suc k + code mod 64 ^ Suc k"
    using tail_digit_split [of code k] by (simp add: algebra_simps del: mod_mod_cancel)
  show ?case
  proof (cases "k = 0")
    case True
    then show ?thesis using step by (simp add: True)
  next
    case False
    then show ?thesis
      unfolding utf8_tail_Suc fold_simps step
      using Suc.IH [of "st\<lparr>dwCode := dwCode st * 64 + ?x, iPending := k\<rparr>" "code mod 64 ^ Suc k"]
        val Suc.prems(1) by (simp del: power_Suc mod_mod_cancel)
  qed
qed simp

lemma block_tail_prefix:
  assumes "j < k" and "iPending st = k"
  shows "\<exists>c. fold utf8_block_step (take j (utf8_tail k code (64 ^ k))) st = st\<lparr>dwCode := c, iPending := k - j\<rparr>"
  using assms
proof (induction k arbitrary: st code j)
  case (Suc k)
  let ?x = "code mod 64 ^ Suc k div 64 ^ k"
  show ?case
  proof (cases j)
    case 0
    then show ?thesis using Suc.prems by (intro exI [of _ "dwCode st"]) simp
  next
    case (Suc i)
    then have "0 < k" using Suc.prems by simp
    then have "\<exists>c. utf8_block_step (0x80 OR of_nat ?x) st = st\<lparr>dwCode := c, iPending := k\<rparr>"
      using unat_tail_byte [of code k] tail_digit [of code k] Suc.prems(2)
      by (auto simp: utf8_block_step_def Let_def simp del: power_Suc intro: exI)
    then obtain c where "utf8_block_step (0x80 OR of_nat ?x) st = st\<lparr>dwCode := c, iPending := k\<rparr>" ..
    then show ?thesis
      using Suc.IH [of i "st\<lparr>dwCode := c, iPending := k\<rparr>" "code mod 64 ^ Suc k"] Suc.prems Suc
      unfolding utf8_tail_Suc by auto
  qed
qed simp

section \<open>Whole characters\<close>

lemma encoder_lead:
  assumes "0x80 \<le> c" and "c < 0x80000000"
  shows "CFX_UTF8Encoder_Input c =
    ([0xC0, 0xE0, 0xF0, 0xF8, 0xFC] ! (utf8_nbytes c - 2) OR of_nat (c div 64 ^ (utf8_nbytes c - 1))) #
      utf8_tail (utf8_nbytes c - 1) c (64 ^ (utf8_nbytes c - 1))"
  using assms by (simp add: CFX_UTF8Encoder_Input_def Let_def mult.commute [of _ 6] power_mult)

lemma utf8_length_cases:
  assumes "0x80 \<le> c" and "c < 0x80000000"
  obtains "utf8_nbytes c = 2" "c div 64 < 32" | "utf8_nbytes c = 3" "c div 64 ^ 2 < 16"
    | "utf8_nbytes c = 4" "c div 64 ^ 3 < 8" | "utf8_nbytes c = 5" "c div 64 ^ 4 < 4"
    | "utf8_nbytes c = 6" "c div 64 ^ 5 < 2"
  using assms by (fastforce simp: utf8_nbytes_def div_less_iff_less_mult split: if_splits)

lemma lead_bytes:
  "x < 32 \<Longrightarrow> utf8_block_step (0xC0 OR of_nat x) st = st\<lparr>iPendNum := 1, iPending := 1, dwCode := x\<rparr>"
  "x < 16 \<Longrightarrow> utf8_block_step (0xE0 OR of_nat x) st = st\<lparr>iPendNum := 2, iPending := 2, dwCode := x\<rparr>"
  "x < 8 \<Longrightarrow> utf8_block_step (0xF0 OR of_nat x) st = st\<lparr>iPendNum := 3, iPending := 3, dwCode := x\<rparr>"
  "x < 4 \<Longrightarrow> utf8_block_step (0xF8 OR of_nat x) st = st\<lparr>iPendNum := 4, iPending := 4, dwCode := x\<rparr>"
  "x < 2 \<Longrightarrow> utf8_block_step (0xFC OR of_nat x) st = st\<lparr>iPendNum := 5, iPending := 5, dwCode := x\<rparr>"
  unfolding utf8_block_step_def Let_def and_low_bits by (simp_all add: or_prefix_bytes prefix_mod)

lemma block_lead:
  assumes "0x80 \<le> c" and "c < 0x80000000"
  shows "utf8_block_step (hd (CFX_UTF8Encoder_Input c)) st =
    st\<lparr>iPendNum := utf8_nbytes c - 1, iPending := utf8_nbytes c - 1, dwCode := c div 64 ^ (utf8_nbytes c - 1)\<rparr>"
  using assms by (rule utf8_length_cases) (simp_all add: encoder_lead [OF assms] lead_bytes)

lemma block_char:
  assumes "c < 0x80000000" and "iPending st = 0"
  shows "iPending (fold utf8_block_step (CFX_UTF8Encoder_Input c) st) = 0 \<and>
    pDst (fold utf8_block_step (CFX_UTF8Encoder_Input c) st) = pDst st @ [c]"
proof (cases "c < 0x80")
  case True
  then have "unat (of_nat c :: byte) = c" by (simp add: unat_of_nat)
  then show ?thesis using True by (simp add: CFX_UTF8Encoder_Input_def utf8_block_step_def)
next
  case False
  then have c: "0x80 \<le> c" by simp
  let ?k = "utf8_nbytes c - 1"
  have "0 < ?k" by (simp add: utf8_nbytes_def)
  then show ?thesis
    using block_lead [OF c assms(1), of st] assms block_tail [of "utf8_block_step (hd (CFX_UTF8Encoder_Input c)) st" ?k c]
      div_mult_mod_eq [of c "64 ^ ?k"]
    by (simp add: encoder_lead [OF c assms(1)])
qed

section \<open>A contract for decoders\<close>

text \<open>
  A decoder fed byte by byte that takes a whole encoded character from an idle state, with the
  characters decoded so far, to the idle state with that character appended.
\<close>

locale utf8_machine =
  fixes step :: "byte \<Rightarrow> 's \<Rightarrow> 's" and idle :: "wstring \<Rightarrow> 's \<Rightarrow> bool"
  assumes char_step: "idle w st \<Longrightarrow> c < 0x80000000 \<Longrightarrow> idle (w @ [c]) (fold step (CFX_UTF8Encoder_Input c) st)"
begin

lemma decodes_string:
  "idle w st \<Longrightarrow> list_all (\<lambda>c. c < 0x80000000) s \<Longrightarrow> idle (w @ s) (fold step (FX_UTF8Encode s) st)"
proof (induction s arbitrary: w st)
  case (Cons c s)
  then show ?case using char_step [of w st c] Cons.IH [of "w @ [c]"] by (simp add: FX_UTF8Encode_def)
qed (simp add: FX_UTF8Encode_def)

end

interpretation block_decoder: utf8_machine utf8_block_step "\<lambda>w st. iPending st = 0 \<and> pDst st = w"
  by unfold_locales (use block_char in auto)

section \<open>The incremental decoder keeps the contract\<close>

lemma decoder_step_tail_byte:
  assumes "m_PendingBytes d = Suc k" and "x < 64" and "unat b = 0x80 + x"
    and "m_PendingChar d = a * 64 ^ Suc k" and "(a * 64 + x) * 64 ^ k < 2 ^ 32"
  shows "CFX_UTF8Decoder_Input b d = d\<lparr>m_PendingBytes := k, m_PendingChar := (a * 64 + x) * 64 ^ k,
    m_Buffer := (if k = 0 then m_Buffer d @ [(a * 64 + x) * 64 ^ k] else m_Buffer d)\<rparr>"
proof -
  have split: "(a * 64 + x) * 64 ^ k = a * 64 ^ Suc k + x * 64 ^ k" by (simp add: algebra_simps)
  have "a * 64 ^ Suc k OR x * 64 ^ k = (a * 64 + x) * 64 ^ k"
    using or_disjoint_fields [of "x * 64 ^ k" "6 * Suc k" a] assms(2) split
    by (simp add: power_mult power_add)
  moreover have "x * 64 ^ k mod 2 ^ 32 = x * 64 ^ k" using assms(5) split by simp
  moreover have "(0x80 + x) AND 0x3F = x" using prefix_mod(1) [OF assms(2)] by (simp only: and_low_bits)
  moreover have "2 ^ (k * 6) = (64 :: nat) ^ k" by (simp add: power_mult mult.commute [of k])
  ultimately show ?thesis
    using assms or_disjoint_fields [of x 6 a] by (simp add: CFX_UTF8Decoder_Input_def Let_def del: power_Suc)
qed

lemma decoder_tail:
  assumes "m_PendingChar d = a * 64 ^ k" and "a * 64 ^ k + code mod 64 ^ k < 2 ^ 32"
    and "m_PendingBytes d = k" and "0 < k"
  shows "fold CFX_UTF8Decoder_Input (utf8_tail k code (64 ^ k)) d =
    d\<lparr>m_PendingBytes := 0, m_PendingChar := a * 64 ^ k + code mod 64 ^ k,
      m_Buffer := m_Buffer d @ [a * 64 ^ k + code mod 64 ^ k]\<rparr>"
  using assms
proof (induction k arbitrary: d code a)
  case (Suc k)
  let ?x = "code mod 64 ^ Suc k div 64 ^ k"
  have val: "(a * 64 + ?x) * 64 ^ k + code mod 64 ^ Suc k mod 64 ^ k = a * 64 ^ Suc k + code mod 64 ^ Suc k"
    using tail_digit_split [of code k] by (simp add: algebra_simps del: mod_mod_cancel)
  have "(a * 64 + ?x) * 64 ^ k < 2 ^ 32" using Suc.prems(2) val by linarith
  then have step: "CFX_UTF8Decoder_Input (0x80 OR of_nat ?x) d = d\<lparr>m_PendingBytes := k,
      m_PendingChar := (a * 64 + ?x) * 64 ^ k,
      m_Buffer := (if k = 0 then m_Buffer d @ [(a * 64 + ?x) * 64 ^ k] else m_Buffer d)\<rparr>"
    by (rule decoder_step_tail_byte [OF Suc.prems(3) tail_digit unat_tail_byte Suc.prems(1)])
  show ?case
  proof (cases "k = 0")
    case True
    then show ?thesis using step by (simp add: True)
  next
    case False
    then show ?thesis
      unfolding utf8_tail_Suc fold_simps step
      using Suc.IH [of "d\<lparr>m_PendingBytes := k, m_PendingChar := (a * 64 + ?x) * 64 ^ k\<rparr>" "a * 64 + ?x" "code mod 64 ^ Suc k"]
        val Suc.prems(2) by (simp del: power_Suc mod_mod_cancel)
  qed
qed simp

lemma decoder_lead_bytes:
  "x < 32 \<Longrightarrow> CFX_UTF8Decoder_Input (0xC0 OR of_nat x) d = d\<lparr>m_PendingBytes := 1, m_PendingChar := x * 2 ^ 6\<rparr>"
  "x < 16 \<Longrightarrow> CFX_UTF8Decoder_Input (0xE0 OR of_nat x) d = d\<lparr>m_PendingBytes := 2, m_PendingChar := x * 2 ^ 12\<rparr>"
  "x < 8 \<Longrightarrow> CFX_UTF8Decoder_Input (0xF0 OR of_nat x) d = d\<lparr>m_PendingBytes := 3, m_PendingChar := x * 2 ^ 18\<rparr>"
  "x < 4 \<Longrightarrow> CFX_UTF8Decoder_Input (0xF8 OR of_nat x) d = d\<lparr>m_PendingBytes := 4, m_PendingChar := x * 2 ^ 24\<rparr>"
  "x < 2 \<Longrightarrow> CFX_UTF8Decoder_Input (0xFC OR of_nat x) d = d\<lparr>m_PendingBytes := 5, m_PendingChar := x * 2 ^ 30\<rparr>"
  unfolding CFX_UTF8Decoder_Input_def Let_def and_low_bits by (simp_all add: or_prefix_bytes prefix_mod)

lemma decoder_char:
  assumes "c < 0x80000000" and "m_PendingBytes d = 0"
  shows "m_PendingBytes (fold CFX_UTF8Decoder_Input (CFX_UTF8Encoder_Input c) d) = 0 \<and>
    m_Buffer (fold CFX_UTF8Decoder_Input (CFX_UTF8Encoder_Input c) d) = m_Buffer d @ [c]"
proof (cases "c < 0x80")
  case True
  then have "unat (of_nat c :: byte) = c" by (simp add: unat_of_nat)
  then show ?thesis using True by (simp add: CFX_UTF8Encoder_Input_def CFX_UTF8Decoder_Input_def)
next
  case False
  then have c: "0x80 \<le> c" by simp
  let ?k = "utf8_nbytes c - 1"
  have k: "0 < ?k" by (simp add: utf8_nbytes_def)
  have "CFX_UTF8Decoder_Input (hd (CFX_UTF8Encoder_Input c)) d =
      d\<lparr>m_PendingBytes := ?k, m_PendingChar := c div 64 ^ ?k * 64 ^ ?k\<rparr>"
    using c assms(1) by (rule utf8_length_cases) (simp_all add: encoder_lead [OF c assms(1)] decoder_lead_bytes)
  then show ?thesis
    using k assms decoder_tail [of "CFX_UTF8Decoder_Input (hd (CFX_UTF8Encoder_Input c)) d" "c div 64 ^ ?k" ?k c]
      div_mult_mod_eq [of c "64 ^ ?k"]
    by (simp add: encoder_lead [OF c assms(1)])
qed

interpretation decoder: utf8_machine CFX_UTF8Decoder_Input "\<lambda>w d. m_PendingBytes d = 0 \<and> m_Buffer d = w"
  by unfold_locales (use decoder_char in auto)

section \<open>Blocks cut anywhere\<close>

lemma FX_UTF8Encode_simps [simp]:
  "FX_UTF8Encode [] = []" "FX_UTF8Encode (c # s) = CFX_UTF8Encoder_Input c @ FX_UTF8Encode s"
  "FX_UTF8Encode (s @ t) = FX_UTF8Encode s @ FX_UTF8Encode t"
  by (simp_all add: FX_UTF8Encode_def)

lemma utf8_block_step_grows:
  "length (pDst (utf8_block_step b st)) \<le> Suc (length (pDst st))"
  by (simp add: utf8_block_step_def Let_def)

lemma utf8_block_loop_fold:
  "length (pDst st) + length bs \<le> dst \<Longrightarrow> utf8_block_loop dst bs n st = (n + length bs, fold utf8_block_step bs st)"
proof (induction bs arbitrary: n st)
  case (Cons b bs)
  then show ?case using utf8_block_step_grows [of b st] by simp
qed simp

lemma encoder_length: "c < 0x80000000 \<Longrightarrow> length (CFX_UTF8Encoder_Input c) = (if c < 0x80 then 1 else utf8_nbytes c)"
  by (simp add: CFX_UTF8Encoder_Input_def Let_def) (simp add: utf8_nbytes_def)

text \<open>The bytes of a block that the decoder must give back: those of the character left incomplete.\<close>

definition rewind :: "utf8_block \<Rightarrow> int" where
  "rewind st = (if iPending st \<noteq> 0 then int (iPending st) - int (iPendNum st) - 1 else 0)"

lemma block_char_prefix:
  assumes "c < 0x80000000" and "iPending st = 0" and "n < length (CFX_UTF8Encoder_Input c)"
  defines "st' \<equiv> fold utf8_block_step (take n (CFX_UTF8Encoder_Input c)) st"
  shows "pDst st' = pDst st \<and> rewind st' = - int n"
proof (cases n)
  case 0
  then show ?thesis using assms(2) by (simp add: st'_def rewind_def)
next
  case (Suc j)
  then have c: "0x80 \<le> c" and "j < utf8_nbytes c - 1"
    using assms(1,3) encoder_length [OF assms(1)] by (simp_all split: if_splits)
  then have "\<exists>d. st' = st\<lparr>iPendNum := utf8_nbytes c - 1, dwCode := d, iPending := utf8_nbytes c - 1 - j\<rparr>"
    using block_lead [OF c assms(1), of st] Suc
      block_tail_prefix [of j "utf8_nbytes c - 1" "utf8_block_step (hd (CFX_UTF8Encoder_Input c)) st" c]
    by (auto simp: st'_def encoder_lead [OF c assms(1)])
  then show ?thesis using \<open>j < utf8_nbytes c - 1\<close> Suc by (auto simp: of_nat_diff rewind_def)
qed

definition cut_block :: "nat \<Rightarrow> wstring \<Rightarrow> utf8_block \<Rightarrow> wstring \<Rightarrow> wstring \<Rightarrow> bool" where
  "cut_block n s st s1 s2 \<longleftrightarrow> (let st' = fold utf8_block_step (take n (FX_UTF8Encode s)) st in
    pDst st' = pDst st @ s1 \<and>
    int (length (take n (FX_UTF8Encode s))) + rewind st' = int (length (FX_UTF8Encode s1)) \<and>
    (length (FX_UTF8Encode s) \<le> n \<longrightarrow> s2 = []) \<and> (s \<noteq> [] \<and> 6 \<le> n \<longrightarrow> s1 \<noteq> []))"

lemma block_prefix:
  assumes "list_all (\<lambda>c. c < 0x80000000) s" and "iPending st = 0"
  shows "\<exists>s1 s2. s = s1 @ s2 \<and> cut_block n s st s1 s2"
  using assms
proof (induction s arbitrary: st n)
  case (Cons c s)
  let ?e = "CFX_UTF8Encoder_Input c"
  have c: "c < 0x80000000" using Cons.prems by simp
  show ?case
  proof (cases "n < length ?e")
    case True
    moreover have "length ?e \<le> 6" using encoder_length [OF c] by (simp add: utf8_nbytes_def)
    ultimately show ?thesis
      using block_char_prefix [OF c Cons.prems(2), of n]
      by (intro exI [of _ "[]"] exI [of _ "c # s"]) (simp add: Let_def cut_block_def)
  next
    case False
    let ?st = "fold utf8_block_step ?e st"
    have st: "iPending ?st = 0" "pDst ?st = pDst st @ [c]" using block_char [OF c Cons.prems(2)] by simp_all
    have "list_all (\<lambda>c. c < 0x80000000) s" using Cons.prems(1) by simp
    then obtain s1 s2 where IH: "s = s1 @ s2" "cut_block (n - length ?e) s ?st s1 s2"
      using Cons.IH st(1) by blast
    have "cut_block n (c # s) st (c # s1) s2"
      using IH(2) False st unfolding cut_block_def Let_def by auto
    then show ?thesis using IH(1) by (intro exI [of _ "c # s1"] exI [of _ s2]) simp
  qed
qed (simp add: cut_block_def rewind_def)

section \<open>Reading a whole stream\<close>

definition utf8_start :: utf8_block where
  "utf8_start = \<lparr>dwCode = 0, iPendNum = 0, iPending = 0, pDst = []\<rparr>"

text \<open>A block read in UTF-8 that produces characters moves the position forward.\<close>

lemma UTF8Decode_fold:
  "length src \<le> dst \<Longrightarrow> UTF8Decode src dst =
    (length src, pDst (fold utf8_block_step src utf8_start), rewind (fold utf8_block_step src utf8_start))"
  by (simp add: UTF8Decode_def utf8_block_loop_fold utf8_start_def rewind_def)

text \<open>
  The bytes that are given back are bytes read since the last complete character: after \<open>n\<close> bytes
  they are at most \<open>n\<close>, and fewer when a character was produced.
\<close>

definition rewind_ok :: "nat \<Rightarrow> utf8_block \<Rightarrow> bool" where
  "rewind_ok n st \<longleftrightarrow> iPending st \<le> iPendNum st \<and> - rewind st \<le> int n \<and>
    (pDst st \<noteq> [] \<longrightarrow> - rewind st < int n)"

lemma rewind_ok_step: "rewind_ok n st \<Longrightarrow> rewind_ok (Suc n) (utf8_block_step b st)"
  unfolding rewind_ok_def utf8_block_step_def Let_def rewind_def by auto

lemma rewind_ok_fold: "rewind_ok n st \<Longrightarrow> rewind_ok (n + length bs) (fold utf8_block_step bs st)"
proof (induction bs arbitrary: n st)
  case (Cons b bs)
  then show ?case using rewind_ok_step [of n st b] Cons.IH [of "Suc n"] by simp
qed simp

lemma length_utf16_units: "length (utf16_units bs) = length bs div 2"
  by (induction bs rule: utf16_units.induct) auto

definition block_bytes :: "nat \<Rightarrow> CFX_SeekableStreamProxy \<Rightarrow> bytes" where
  "block_bytes sz s = take sz (drop (m_iPosition s) (m_pStream s))"

abbreviation block_state :: "nat \<Rightarrow> CFX_SeekableStreamProxy \<Rightarrow> utf8_block" where
  "block_state sz s \<equiv> fold utf8_block_step (block_bytes sz s) utf8_start"

lemma block_bytes_min: "block_bytes (min sz (GetSize s - m_iPosition s)) s = block_bytes sz s"
  by (cases "sz \<le> GetSize s - m_iPosition s") (simp_all add: block_bytes_def GetSize_def min_absorb1 min_absorb2)

lemma ReadData_block:
  "ReadData sz s = (block_bytes sz s, s\<lparr>m_iPosition := m_iPosition s + length (block_bytes sz s)\<rparr>)"
  using block_bytes_min [of sz s]
  by (simp add: ReadData_def block_bytes_def Let_def) (simp add: GetSize_def min.commute)

lemma GetSize_position [simp]: "GetSize (s\<lparr>m_iPosition := p\<rparr>) = GetSize s"
  by (simp add: GetSize_def)

lemma block_rewind_ok: "rewind_ok (length (block_bytes sz s)) (block_state sz s)"
  using rewind_ok_fold [of 0 utf8_start "block_bytes sz s"] by (simp add: rewind_ok_def utf8_start_def rewind_def)

lemma ReadBlock_utf8:
  assumes "m_wCodePage s = kUTF8" and "0 < sz" and "m_iPosition s < GetSize s"
  shows "ReadBlock sz s = (pDst (block_state sz s),
    Seek_Begin (int (m_iPosition s + length (block_bytes sz s)) + rewind (block_state sz s)) s)"
proof -
  have dec: "UTF8Decode (block_bytes sz s) sz = (length (block_bytes sz s), pDst (block_state sz s), rewind (block_state sz s))"
    by (rule UTF8Decode_fold) (simp add: block_bytes_def)
  have "rewind (block_state sz s) \<le> 0"
    using block_rewind_ok [of sz s] by (simp add: rewind_ok_def rewind_def)
  then consider "rewind (block_state sz s) < 0" | "rewind (block_state sz s) = 0" by linarith
  moreover have bytes: "min sz (GetSize s - m_iPosition s) \<noteq> 0" using assms(2,3) by (simp add: min_def)
  ultimately show ?thesis
    using assms dec
    by cases (simp_all add: bytes ReadBlock_def ReadData_block block_bytes_min Seek_Begin_def Seek_Current_def Let_def)
qed

lemma ReadBlock_nonempty:
  assumes "ReadBlock sz s = (out, s')" and "out \<noteq> []" and "m_wCodePage s \<noteq> kUTF16LE" "m_wCodePage s \<noteq> kUTF16BE"
  shows "m_wCodePage s = kUTF8" and "0 < sz" and "m_iPosition s < GetSize s"
  by (rule ccontr, use assms in \<open>simp add: ReadBlock_def ReadData_block Let_def split: if_splits\<close>)+

lemma ReadBlock_progress:
  assumes "ReadBlock sz s = (out, s')" and "out \<noteq> []"
  shows "m_iPosition s < m_iPosition s' \<and> m_iPosition s' \<le> GetSize s \<and> m_pStream s' = m_pStream s"
proof (cases "m_wCodePage s = kUTF16LE \<or> m_wCodePage s = kUTF16BE")
  case True
  then have "utf16_units (block_bytes (sz * 2) s) \<noteq> []" "s' = s\<lparr>m_iPosition := m_iPosition s + length (block_bytes (sz * 2) s)\<rparr>"
    using assms by (auto simp: ReadBlock_def SwapByteOrder_def ReadData_block Let_def split: if_splits)
  then have "0 < length (block_bytes (sz * 2) s)" by (cases "block_bytes (sz * 2) s") auto
  moreover have "length (block_bytes (sz * 2) s) \<le> GetSize s - m_iPosition s" by (simp add: block_bytes_def GetSize_def)
  ultimately have "m_iPosition s + length (block_bytes (sz * 2) s) \<le> GetSize s" by linarith
  then show ?thesis using \<open>s' = _\<close> \<open>0 < length _\<close> by simp
next
  case False
  then have utf8: "m_wCodePage s = kUTF8" "0 < sz" "m_iPosition s < GetSize s"
    using ReadBlock_nonempty [OF assms] by simp_all
  have len: "length (block_bytes sz s) \<le> GetSize s - m_iPosition s" by (simp add: block_bytes_def GetSize_def)
  have "pDst (block_state sz s) \<noteq> []"
    "s' = Seek_Begin (int (m_iPosition s + length (block_bytes sz s)) + rewind (block_state sz s)) s"
    using assms ReadBlock_utf8 [OF utf8] by simp_all
  then show ?thesis using block_rewind_ok [of sz s] utf8(3) len by (simp add: rewind_ok_def Seek_Begin_def) linarith
qed

text \<open>The blocks the XML parser receives: it stops at the end of the stream or at an empty block.\<close>

function read_blocks :: "nat \<Rightarrow> CFX_SeekableStreamProxy \<Rightarrow> wstring list" where
  "read_blocks sz s =
    (if IsEOF s then []
     else let (block, s') = ReadBlock sz s
          in if block = [] then [] else block # read_blocks sz s')"
  by pat_completeness auto
termination
proof (relation "measure (\<lambda>(sz, s). GetSize s - m_iPosition s)", goal_cases)
  case (2 sz s p block s')
  then show ?case using ReadBlock_progress [of sz s block s'] by (auto simp: GetSize_def)
qed simp

declare read_blocks.simps [simp del]

lemma utf8_block_output: "length (pDst (fold utf8_block_step bs st)) \<le> length (pDst st) + length bs"
proof (induction bs arbitrary: st)
  case (Cons b bs)
  show ?case using Cons.IH [of "utf8_block_step b st"] utf8_block_step_grows [of b st] by simp
qed simp

lemma ReadBlock_length: "length (fst (ReadBlock sz s)) \<le> sz"
proof (cases "m_wCodePage s = kUTF16LE \<or> m_wCodePage s = kUTF16BE")
  case True
  have "length (block_bytes (sz * 2) s) \<le> sz * 2" by (simp add: block_bytes_def)
  then show ?thesis
    using True by (auto simp: ReadBlock_def ReadData_block Let_def SwapByteOrder_def length_utf16_units)
next
  case False
  show ?thesis
  proof (rule ccontr)
    assume long: "\<not> length (fst (ReadBlock sz s)) \<le> sz"
    then have "fst (ReadBlock sz s) \<noteq> []" by auto
    then have utf8: "m_wCodePage s = kUTF8" "0 < sz" "m_iPosition s < GetSize s"
      using False ReadBlock_nonempty [OF prod.collapse [symmetric], of sz s] by auto
    have "length (block_bytes sz s) \<le> sz" by (simp add: block_bytes_def)
    then show False
      using long utf8_block_output [of "block_bytes sz s" utf8_start] ReadBlock_utf8 [OF utf8]
      by (simp add: utf8_start_def)
  qed
qed

lemma read_blocks_fit: "list_all (\<lambda>b. length b \<le> sz) (read_blocks sz s)"
proof (induction sz s rule: read_blocks.induct)
  case (1 sz s)
  then show ?case
    using ReadBlock_length [of sz s] by (subst read_blocks.simps) (auto split: prod.splits)
qed

text \<open>What the parser's constructor does with a stream that is not UTF-16 or marked.\<close>

definition open_xml_stream :: "FX_CodePage \<Rightarrow> bytes \<Rightarrow> CFX_SeekableStreamProxy" where
  "open_xml_stream acp data =
    (let proxy = CFX_SeekableStreamProxy_new acp data in
     if m_wCodePage proxy \<notin> {kUTF16LE, kUTF16BE, kUTF8} then SetCodePage kUTF8 proxy else proxy)"

lemma encoder_nonempty: "c < 0x80000000 \<Longrightarrow> CFX_UTF8Encoder_Input c \<noteq> []"
  by (simp add: CFX_UTF8Encoder_Input_def Let_def)

lemma read_blocks_utf8:
  assumes "m_wCodePage st = kUTF8" and "m_pStream st = pre @ FX_UTF8Encode s" and "m_iPosition st = length pre"
    and "list_all (\<lambda>c. c < 0x80000000) s" and "0 < sz" and "6 \<le> sz \<or> length (FX_UTF8Encode s) \<le> sz"
  shows "concat (read_blocks sz st) = s"
  using assms
proof (induction "length s" arbitrary: s st pre rule: less_induct)
  case less
  show ?case
  proof (cases "FX_UTF8Encode s = []")
    case True
    have "s = []" using True less.prems(4) encoder_nonempty by (cases s) auto
    then show ?thesis using less.prems(2,3) by (simp add: read_blocks.simps IsEOF_def GetSize_def)
  next
    case False
    then have pos: "m_iPosition st < GetSize st" using less.prems(2,3) by (simp add: GetSize_def)
    have "iPending utf8_start = 0" by (simp add: utf8_start_def)
    then obtain s1 s2 where s: "s = s1 @ s2" and cut: "cut_block sz s utf8_start s1 s2"
      using block_prefix less.prems(4) by blast
    have bytes: "block_bytes sz st = take sz (FX_UTF8Encode s)" using less.prems(2,3) by (simp add: block_bytes_def)
    have "s1 \<noteq> []" using cut s False less.prems(6) by (auto simp: cut_block_def Let_def)
    have "pDst (block_state sz st) = s1"
      and rew: "int (length (block_bytes sz st)) + rewind (block_state sz st) = int (length (FX_UTF8Encode s1))"
      using cut by (simp_all only: cut_block_def Let_def bytes) (simp add: utf8_start_def)
    moreover have "Seek_Begin (int (m_iPosition st + length (block_bytes sz st)) + rewind (block_state sz st)) st =
        st\<lparr>m_iPosition := length (pre @ FX_UTF8Encode s1)\<rparr>"
    proof -
      have "int (m_iPosition st + length (block_bytes sz st)) + rewind (block_state sz st) =
          int (length (pre @ FX_UTF8Encode s1))"
        using rew less.prems(3) by simp
      then show ?thesis using less.prems(2) s by (simp add: Seek_Begin_def GetSize_def)
    qed
    ultimately have read: "ReadBlock sz st = (s1, st\<lparr>m_iPosition := length (pre @ FX_UTF8Encode s1)\<rparr>)"
      using ReadBlock_utf8 [OF less.prems(1,5) pos] by simp
    have "concat (read_blocks sz (st\<lparr>m_iPosition := length (pre @ FX_UTF8Encode s1)\<rparr>)) = s2"
      using less.hyps [of s2 "st\<lparr>m_iPosition := length (pre @ FX_UTF8Encode s1)\<rparr>" "pre @ FX_UTF8Encode s1"]
        less.prems s \<open>s1 \<noteq> []\<close> by auto
    then show ?thesis
      using read \<open>s1 \<noteq> []\<close> pos s by (subst read_blocks.simps) (simp add: IsEOF_def not_le)
  qed
qed

lemma lead_byte_range:
  assumes "c < 0x80000000"
  shows "unat (hd (CFX_UTF8Encoder_Input c)) < 0xFE \<and>
    (unat (hd (CFX_UTF8Encoder_Input c)) = 0xEF \<longrightarrow> length (CFX_UTF8Encoder_Input c) = 3)"
proof (cases "c < 0x80")
  case True
  then show ?thesis by (simp add: CFX_UTF8Encoder_Input_def unat_of_nat)
next
  case False
  then have c: "0x80 \<le> c" by simp
  show ?thesis
    using c assms by (rule utf8_length_cases) (simp_all add: encoder_lead [OF c assms] or_prefix_bytes)
qed

lemma mark_decodes: "CFX_UTF8Encoder_Input c = [0xEF, 0xBB, 0xBF] \<Longrightarrow> c < 0x80000000 \<Longrightarrow> c = 0xFEFF"
  using block_char [of c utf8_start]
  by (simp add: utf8_start_def utf8_block_step_def Let_def and_low_bits)

definition bom_of :: "bytes \<Rightarrow> nat list" where
  "bom_of bs = map unat (take 3 (take 3 bs @ [0, 0, 0]))"

lemma hd_bom_of: "bs \<noteq> [] \<Longrightarrow> hd (bom_of bs) = unat (hd bs)"
  by (cases bs) (simp_all add: bom_of_def)

lemma bom_of_three: "length e = 3 \<Longrightarrow> bom_of (e @ r) = map unat e"
  by (simp add: bom_of_def)

lemma detect_no_bom:
  "bom \<noteq> [0xEF, 0xBB, 0xBF] \<Longrightarrow> hd bom < 0xFE \<Longrightarrow> detect_bom acp bom = (0, acp)"
  by (cases bom) (auto simp: detect_bom_def)

lemma bom_of_encoding:
  assumes "list_all (\<lambda>c. c < 0x80000000) s" and "s = [] \<or> hd s \<noteq> 0xFEFF"
  shows "bom_of (FX_UTF8Encode s) \<noteq> [0xEF, 0xBB, 0xBF] \<and> hd (bom_of (FX_UTF8Encode s)) < 0xFE"
proof (cases s)
  case Nil
  then show ?thesis by (simp add: bom_of_def)
next
  case (Cons c t)
  let ?e = "CFX_UTF8Encoder_Input c"
  have c: "c < 0x80000000" "c \<noteq> 0xFEFF" "?e \<noteq> []" using Cons assms encoder_nonempty [of c] by simp_all
  have hd_bom: "hd (bom_of (FX_UTF8Encode s)) = unat (hd ?e)" using c(3) Cons hd_bom_of by simp
  moreover have False if bom: "bom_of (FX_UTF8Encode s) = [0xEF, 0xBB, 0xBF]"
  proof -
    have "length ?e = 3" using lead_byte_range [OF c(1)] hd_bom bom by simp
    then have "map unat ?e = map unat [0xEF, 0xBB, 0xBF :: byte]"
      using bom Cons bom_of_three [of ?e "FX_UTF8Encode t"] by simp
    then have "?e = [0xEF, 0xBB, 0xBF]" by (rule map_injective) (simp add: inj_def word_unat_eq_iff)
    then show False using mark_decodes c by blast
  qed
  ultimately show ?thesis using lead_byte_range [OF c(1)] by auto
qed

lemma no_byte_order_mark:
  assumes "list_all (\<lambda>c. c < 0x80000000) s" and "s = [] \<or> hd s \<noteq> 0xFEFF"
  shows "open_xml_stream kOtherCodePage (FX_UTF8Encode s) =
    \<lparr>m_pStream = FX_UTF8Encode s, m_wCodePage = kUTF8, m_wBOMLength = 0, m_iPosition = 0\<rparr>"
proof -
  have "detect_bom kOtherCodePage (bom_of (FX_UTF8Encode s)) = (0, kOtherCodePage)"
    using bom_of_encoding [OF assms] detect_no_bom by blast
  then show ?thesis
    unfolding open_xml_stream_def CFX_SeekableStreamProxy_new_def ReadData_block block_bytes_def bom_of_def
    by (simp only: Let_def prod.case drop_0 CFX_SeekableStreamProxy.simps)
      (simp add: Seek_Begin_def SetCodePage_def)
qed

lemma read_blocks_open:
  assumes "list_all (\<lambda>c. c < 0x80000000) s" and "s = [] \<or> hd s \<noteq> 0xFEFF"
  shows "concat (read_blocks (min 1024 (length (FX_UTF8Encode s))) (open_xml_stream kOtherCodePage (FX_UTF8Encode s))) = s"
proof (cases "FX_UTF8Encode s = []")
  case True
  then have "s = []" using assms(1) encoder_nonempty by (cases s) auto
  then show ?thesis
    using no_byte_order_mark [OF assms] by (simp add: read_blocks.simps IsEOF_def GetSize_def)
next
  case False
  then show ?thesis
    using no_byte_order_mark [OF assms] assms(1) by (intro read_blocks_utf8 [of _ "[]"]) auto
qed

section \<open>Properties\<close>

text \<open>
  C27: decoding the UTF-8 encoding of a string of characters below 0x80000000, of one to six bytes
  each, gives the string back.
\<close>

theorem utf8_encode_decode:
  assumes "list_all (\<lambda>c. c < 0x80000000) s"
  shows "FX_UTF8Decode (FX_UTF8Encode s) = s"
proof (cases "FX_UTF8Encode s = []")
  case True
  then have "s = []" using assms encoder_nonempty by (cases s) auto
  then show ?thesis by (simp add: FX_UTF8Decode_def)
next
  case False
  then show ?thesis
    using decoder.decodes_string [of "\<lparr>m_PendingBytes = 0, m_PendingChar = 0, m_Buffer = []\<rparr>" "[]" s] assms
    by (simp add: FX_UTF8Decode_def)
qed

theorem utf8_encode_decode_witness:
  "FX_UTF8Decode (FX_UTF8Encode [65, 0xE9, 0x20AC, 0x1F600, 0x3FFFFFF, 0x7FFFFFFF]) =
    [65, 0xE9, 0x20AC, 0x1F600, 0x3FFFFFF, 0x7FFFFFFF]"
  using utf8_encode_decode [of "[65, 0xE9, 0x20AC, 0x1F600, 0x3FFFFFF, 0x7FFFFFFF]"] by simp

text \<open>
  C20: reading a UTF-8 stream block by block, as the XML parser does with blocks of at most 1024
  characters, delivers exactly the encoded text: a character whose bytes are cut by the end of a
  block is given back and read again with the next block, so no boundary loses or changes it.
\<close>

theorem xml_stream_blocks:
  assumes "list_all (\<lambda>c. c < 0x80000000) s" and "s = [] \<or> hd s \<noteq> 0xFEFF"
    and "data = FX_UTF8Encode s"
  shows "concat (read_blocks (min 1024 (length data)) (open_xml_stream kOtherCodePage data)) = s"
  unfolding assms(3) by (rule read_blocks_open [OF assms(1,2)])

theorem xml_stream_blocks_witness:
  "concat (read_blocks (min 1024 3) (open_xml_stream kOtherCodePage (FX_UTF8Encode [0x20AC]))) = [0x20AC]"
  using xml_stream_blocks [OF _ _ refl, of "[0x20AC]"] encoder_length [of "0x20AC"]
  by (simp add: utf8_nbytes_def)

end
