(* ===== verification/Xml_Dom.thy ===== *)
theory Xml_Dom
  imports Utf8
begin

text \<open>
  The XML tree of src/core/fxcrt/xml: elements with their attribute map, text, CDATA and instruction
  nodes (cfx_xmlelement.cpp, cfx_xmltext.cpp, cfx_xmlchardata.cpp, cfx_xmlinstruction.cpp).  The sibling
  pointers of tree_node.h are the order of the children list; a position among siblings is the suffix
  of that list starting at the node, and the empty suffix is the null pointer.  Attributes are kept in
  the key order of \<open>std::map\<close>, which is the order of \<open>WideString::Compare\<close>.
\<close>

type_synonym attrs = "(wstring \<times> wstring) list"

datatype xml_node =
    XMLElement (element_name: wstring) (element_attrs: attrs) (element_children: "xml_node list")
  | XMLText wstring
  | XMLCharData wstring
  | XMLInstruction wstring "wstring list"

datatype node_type = kInstruction | kElement | kText | kCharData

fun GetType :: "xml_node \<Rightarrow> node_type" where
  "GetType (XMLElement n a c) = kElement"
| "GetType (XMLText t) = kText"
| "GetType (XMLCharData t) = kCharData"
| "GetType (XMLInstruction n d) = kInstruction"

section \<open>Attributes\<close>

fun HasAttribute :: "wstring \<Rightarrow> attrs \<Rightarrow> bool" where
  "HasAttribute name [] = False"
| "HasAttribute name ((k, v) # as) = (k = name \<or> HasAttribute name as)"

fun GetAttribute :: "wstring \<Rightarrow> attrs \<Rightarrow> wstring" where
  "GetAttribute name [] = []"
| "GetAttribute name ((k, v) # as) = (if k = name then v else GetAttribute name as)"

fun SetAttribute :: "wstring \<Rightarrow> wstring \<Rightarrow> attrs \<Rightarrow> attrs" where
  "SetAttribute name value [] = [(name, value)]"
| "SetAttribute name value ((k, v) # as) =
    (if Compare name k < 0 then (name, value) # (k, v) # as
     else if Compare k name < 0 then (k, v) # SetAttribute name value as
     else (k, value) # as)"

fun RemoveAttribute :: "wstring \<Rightarrow> attrs \<Rightarrow> attrs" where
  "RemoveAttribute name [] = []"
| "RemoveAttribute name ((k, v) # as) = (if k = name then as else (k, v) # RemoveAttribute name as)"

definition AttributeToString :: "wstring \<Rightarrow> wstring \<Rightarrow> wstring" where
  "AttributeToString name value = L '' '' @ name @ L ''='' @ [34] @ EncodeEntities value @ [34]"

section \<open>Names\<close>

definition GetLocalTagName :: "wstring \<Rightarrow> wstring" where
  "GetLocalTagName name = (case WideString_Find name 58 0 of
      Some pos \<Rightarrow> Last name (length name - pos - 1)
    | None \<Rightarrow> name)"

definition GetNamespacePrefix :: "wstring \<Rightarrow> wstring" where
  "GetNamespacePrefix name = (case WideString_Find name 58 0 of
      Some pos \<Rightarrow> First name pos
    | None \<Rightarrow> [])"

text \<open>The walk from an element to its ancestors: the list of the nodes on the way to the root.\<close>

fun namespace_walk :: "wstring \<Rightarrow> xml_node list \<Rightarrow> wstring" where
  "namespace_walk attr (XMLElement n as cs # up) =
    (if \<not> HasAttribute attr as then namespace_walk attr up else GetAttribute attr as)"
| "namespace_walk attr _ = []"

definition GetNamespaceURI :: "xml_node list \<Rightarrow> wstring" where
  "GetNamespaceURI path =
    (let wsPrefix = GetNamespacePrefix (element_name (hd path));
         attr = L ''xmlns'' @ (if wsPrefix \<noteq> [] then L '':'' @ wsPrefix else [])
     in namespace_walk attr path)"

section \<open>Children\<close>

text \<open>Text data is that of text nodes and of CDATA nodes, which are a subclass.\<close>

fun GetTextData :: "xml_node list \<Rightarrow> wstring" where
  "GetTextData [] = []"
| "GetTextData (XMLText t # cs) = t @ GetTextData cs"
| "GetTextData (XMLCharData t # cs) = t @ GetTextData cs"
| "GetTextData (_ # cs) = GetTextData cs"

fun GetNthChildNamed :: "wstring \<Rightarrow> nat \<Rightarrow> xml_node list \<Rightarrow> xml_node list" where
  "GetNthChildNamed name idx [] = []"
| "GetNthChildNamed name idx (XMLElement n as cs # rest) =
    (if n \<noteq> name then GetNthChildNamed name idx rest
     else if idx = 0 then XMLElement n as cs # rest
     else GetNthChildNamed name (idx - 1) rest)"
| "GetNthChildNamed name idx (_ # rest) = GetNthChildNamed name idx rest"

definition GetFirstChildNamed :: "wstring \<Rightarrow> xml_node list \<Rightarrow> xml_node list" where
  "GetFirstChildNamed name cs = GetNthChildNamed name 0 cs"

fun GetNthChildNamed_NoPrefix :: "wstring \<Rightarrow> nat \<Rightarrow> xml_node list \<Rightarrow> xml_node list" where
  "GetNthChildNamed_NoPrefix name idx [] = []"
| "GetNthChildNamed_NoPrefix name idx (XMLElement n as cs # rest) =
    (if GetLocalTagName n \<noteq> name then GetNthChildNamed_NoPrefix name idx rest
     else if idx = 0 then XMLElement n as cs # rest
     else GetNthChildNamed_NoPrefix name (idx - 1) rest)"
| "GetNthChildNamed_NoPrefix name idx (_ # rest) = GetNthChildNamed_NoPrefix name idx rest"

definition GetFirstChildNamed_NoPrefix :: "wstring \<Rightarrow> xml_node list \<Rightarrow> xml_node list" where
  "GetFirstChildNamed_NoPrefix name cs = GetNthChildNamed_NoPrefix name 0 cs"

fun find_sibling_NoPrefix :: "wstring \<Rightarrow> xml_node list \<Rightarrow> xml_node list" where
  "find_sibling_NoPrefix name [] = []"
| "find_sibling_NoPrefix name (XMLElement n as cs # rest) =
    (if GetLocalTagName n = name then XMLElement n as cs # rest else find_sibling_NoPrefix name rest)"
| "find_sibling_NoPrefix name (_ # rest) = find_sibling_NoPrefix name rest"

definition GetNextSiblingNamed_NoPrefix :: "wstring \<Rightarrow> xml_node list \<Rightarrow> xml_node list" where
  "GetNextSiblingNamed_NoPrefix name here = find_sibling_NoPrefix name (tl here)"

section \<open>Copying and writing\<close>

text \<open>The copy of an element keeps its attributes and, of its children, only the text nodes.\<close>

fun Clone :: "xml_node \<Rightarrow> xml_node" where
  "Clone (XMLElement n as cs) = XMLElement n as (filter (\<lambda>c. GetType c = kText) cs)"
| "Clone (XMLText t) = XMLText t"
| "Clone (XMLCharData t) = XMLCharData t"
| "Clone (XMLInstruction n d) = XMLInstruction n d"

definition EqualsASCIINoCase :: "wstring \<Rightarrow> string \<Rightarrow> bool" where
  "EqualsASCIINoCase s t \<longleftrightarrow> length s = length t \<and>
    list_all2 (\<lambda>c d. 0 < c \<and> c \<le> 127 \<and> FXSYS_ToUpperASCII c = FXSYS_ToUpperASCII d) s (L t)"

fun Save :: "xml_node \<Rightarrow> bytes" where
  "Save (XMLElement n as cs) =
    FX_UTF8Encode (L ''<'') @ FX_UTF8Encode n @
    concat (map (\<lambda>(k, v). FX_UTF8Encode (AttributeToString k v)) as) @
    (if cs = [] then FX_UTF8Encode (L '' />'')
     else FX_UTF8Encode (L ''>'') @ concat (map Save cs) @
       FX_UTF8Encode (L ''</'') @ FX_UTF8Encode n @ FX_UTF8Encode (L ''>''))"
| "Save (XMLText t) = FX_UTF8Encode (EncodeEntities t)"
| "Save (XMLCharData t) = FX_UTF8Encode (L ''<![CDATA['') @ FX_UTF8Encode t @ FX_UTF8Encode (L '']]>'')"
| "Save (XMLInstruction n d) =
    (if EqualsASCIINoCase n ''xml'' then
       FX_UTF8Encode (L ''<?xml version='' @ [34] @ L ''1.0'' @ [34] @ L '' encoding='' @ [34] @ L ''UTF-8'' @ [34] @ L ''?>'')
     else FX_UTF8Encode (L ''<?'') @ FX_UTF8Encode n @ FX_UTF8Encode (L '' '') @
       concat (map (\<lambda>t. FX_UTF8Encode t @ FX_UTF8Encode (L '' '')) d) @ FX_UTF8Encode (L ''?>''))"

text \<open>The characters that \<open>Save\<close> encodes.\<close>

fun save_chars :: "xml_node \<Rightarrow> wstring" where
  "save_chars (XMLElement n as cs) =
    L ''<'' @ n @ concat (map (\<lambda>(k, v). AttributeToString k v) as) @
    (if cs = [] then L '' />''
     else L ''>'' @ concat (map save_chars cs) @ L ''</'' @ n @ L ''>'')"
| "save_chars (XMLText t) = EncodeEntities t"
| "save_chars (XMLCharData t) = L ''<![CDATA['' @ t @ L '']]>''"
| "save_chars (XMLInstruction n d) =
    (if EqualsASCIINoCase n ''xml'' then
       L ''<?xml version='' @ [34] @ L ''1.0'' @ [34] @ L '' encoding='' @ [34] @ L ''UTF-8'' @ [34] @ L ''?>''
     else L ''<?'' @ n @ L '' '' @ concat (map (\<lambda>t. t @ L '' '') d) @ L ''?>'')"

lemma FX_UTF8Encode_concat: "FX_UTF8Encode (concat ss) = concat (map FX_UTF8Encode ss)"
  by (induction ss) simp_all

lemma Save_chars: "Save node = FX_UTF8Encode (save_chars node)"
proof (induction node)
  case (XMLElement n as cs)
  then have "concat (map Save cs) = concat (map (\<lambda>c. FX_UTF8Encode (save_chars c)) cs)"
    by (metis (mono_tags, lifting) map_eq_conv)
  then show ?case by (simp add: FX_UTF8Encode_concat comp_def split_def)
qed (simp_all add: FX_UTF8Encode_concat comp_def)

section \<open>The contract of an attribute store\<close>

locale attribute_store =
  fixes ok :: "'s \<Rightarrow> bool" and has :: "wstring \<Rightarrow> 's \<Rightarrow> bool" and get :: "wstring \<Rightarrow> 's \<Rightarrow> wstring"
    and put :: "wstring \<Rightarrow> wstring \<Rightarrow> 's \<Rightarrow> 's" and remove :: "wstring \<Rightarrow> 's \<Rightarrow> 's"
  assumes ok_put: "ok a \<Longrightarrow> ok (put n v a)"
    and ok_remove: "ok a \<Longrightarrow> ok (remove n a)"
    and has_put: "ok a \<Longrightarrow> has k (put n v a) \<longleftrightarrow> k = n \<or> has k a"
    and get_put: "ok a \<Longrightarrow> get k (put n v a) = (if k = n then v else get k a)"
    and has_remove: "ok a \<Longrightarrow> has k (remove n a) \<longleftrightarrow> k \<noteq> n \<and> has k a"
    and get_remove: "ok a \<Longrightarrow> get k (remove n a) = (if k = n then [] else get k a)"
    and get_absent: "\<not> has k a \<Longrightarrow> get k a = []"
begin

abbreviation put_all :: "(wstring \<times> wstring) list \<Rightarrow> 's \<Rightarrow> 's" where
  "put_all \<equiv> fold (\<lambda>(n, v). put n v)"

lemma ok_put_all: "ok a \<Longrightarrow> ok (put_all kvs a)"
  by (induction kvs arbitrary: a) (auto simp: ok_put)

lemma has_put_all: "ok a \<Longrightarrow> has k (put_all kvs a) \<longleftrightarrow> k \<in> fst ` set kvs \<or> has k a"
proof (induction kvs arbitrary: a)
  case (Cons kv kvs)
  then show ?case using Cons.IH [of "put (fst kv) (snd kv) a"] by (simp add: ok_put has_put case_prod_beta) blast
qed simp

lemma get_put_all:
  "ok a \<Longrightarrow> get k (put_all kvs a) = (case map_of (rev kvs) k of Some v \<Rightarrow> v | None \<Rightarrow> get k a)"
  by (induction kvs arbitrary: a) (auto simp: ok_put get_put map_add_def split: option.splits)

end

definition attrs_sorted :: "attrs \<Rightarrow> bool" where
  "attrs_sorted as \<longleftrightarrow> sorted_wrt (\<lambda>a b. Compare (fst a) (fst b) < 0) as"

lemma Compare_trans: "Compare a b < 0 \<Longrightarrow> Compare b c < 0 \<Longrightarrow> Compare a c < 0"
  unfolding Compare_lexord by (rule lexord_trans) (auto simp: trans_def)

lemma Compare_irrefl [simp]: "Compare a a = 0"
  by (simp add: Compare_eq_0)

lemma Compare_tie: "\<not> Compare n k < 0 \<Longrightarrow> \<not> Compare k n < 0 \<Longrightarrow> k = n"
proof -
  assume "\<not> Compare n k < 0" "\<not> Compare k n < 0"
  then have "Compare n k = 0" using Compare_antisym [of k n] by linarith
  then show "k = n" by (simp add: Compare_eq_0)
qed

lemma set_SetAttribute: "fst ` set (SetAttribute n v as) = insert n (fst ` set as)"
proof (induction as)
  case (Cons a as)
  obtain k w where a: "a = (k, w)" by fastforce
  show ?case
  proof (cases "\<not> Compare n k < 0 \<and> \<not> Compare k n < 0")
    case True
    then have "k = n" using Compare_tie by blast
    then show ?thesis using Cons by (simp add: a)
  next
    case False
    then show ?thesis using Cons by (auto simp: a insert_commute)
  qed
qed simp

lemma attrs_sorted_SetAttribute: "attrs_sorted as \<Longrightarrow> attrs_sorted (SetAttribute n v as)"
proof (induction as)
  case (Cons a as)
  obtain k w where a: "a = (k, w)" by fastforce
  have above: "\<forall>b\<in>set as. Compare k (fst b) < 0" and rest: "attrs_sorted as"
    using Cons.prems by (auto simp: attrs_sorted_def a)
  consider "Compare n k < 0" | "\<not> Compare n k < 0" "Compare k n < 0" | "\<not> Compare n k < 0" "\<not> Compare k n < 0"
    by blast
  then show ?case
  proof cases
    case 1
    then show ?thesis using above Cons.prems Compare_trans [OF 1] by (auto simp: attrs_sorted_def a)
  next
    case 2
    have "Compare k (fst b) < 0" if "b \<in> set (SetAttribute n v as)" for b
    proof -
      have "fst b = n \<or> fst b \<in> fst ` set as" using that set_SetAttribute [of n v as] by blast
      then show ?thesis using 2 above by auto
    qed
    then show ?thesis using 2 Cons.IH [OF rest] by (auto simp: attrs_sorted_def a)
  next
    case 3
    then show ?thesis using Cons.prems by (auto simp: attrs_sorted_def a)
  qed
qed (simp add: attrs_sorted_def)

lemma map_of_SetAttribute: "attrs_sorted as \<Longrightarrow> map_of (SetAttribute n v as) = (map_of as)(n \<mapsto> v)"
proof (induction as)
  case (Cons a as)
  obtain k w where a: "a = (k, w)" by fastforce
  have "k = n" if "\<not> Compare n k < 0" "\<not> Compare k n < 0" using that Compare_tie by blast
  moreover have "k \<noteq> n" if "Compare k n < 0" using that by auto
  ultimately show ?case using Cons by (auto simp: a attrs_sorted_def fun_eq_iff)
qed simp

lemma attrs_sorted_RemoveAttribute: "attrs_sorted as \<Longrightarrow> attrs_sorted (RemoveAttribute n as)"
proof -
  have "set (RemoveAttribute n as) \<subseteq> set as" for as by (induction as) (auto split: if_splits)
  then show "attrs_sorted as \<Longrightarrow> attrs_sorted (RemoveAttribute n as)"
    by (induction as) (fastforce simp: attrs_sorted_def)+
qed

lemma map_of_RemoveAttribute: "attrs_sorted as \<Longrightarrow> map_of (RemoveAttribute n as) = (map_of as)(n := None)"
proof (induction as)
  case (Cons a as)
  obtain k w where a: "a = (k, w)" by fastforce
  have "k \<notin> fst ` set as" using Cons.prems by (auto simp: attrs_sorted_def a)
  then have "map_of as k = None" by (simp add: map_of_eq_None_iff)
  then show ?case using Cons by (auto simp: attrs_sorted_def a fun_eq_iff)
qed simp

lemma HasAttribute_map_of: "HasAttribute n as \<longleftrightarrow> map_of as n \<noteq> None"
  by (induction as) auto

lemma GetAttribute_map_of: "GetAttribute n as = (case map_of as n of Some v \<Rightarrow> v | None \<Rightarrow> [])"
  by (induction as) auto

interpretation xml_attrs: attribute_store attrs_sorted HasAttribute GetAttribute SetAttribute RemoveAttribute
  by unfold_locales
    (auto simp: attrs_sorted_SetAttribute attrs_sorted_RemoveAttribute HasAttribute_map_of GetAttribute_map_of
      map_of_SetAttribute map_of_RemoveAttribute split: option.splits)

section \<open>Walking the children\<close>

fun named_NoPrefix :: "wstring \<Rightarrow> xml_node \<Rightarrow> bool" where
  "named_NoPrefix name (XMLElement n as cs) = (GetLocalTagName n = name)"
| "named_NoPrefix name _ = False"

lemma find_sibling_dropWhile: "find_sibling_NoPrefix name cs = dropWhile (\<lambda>c. \<not> named_NoPrefix name c) cs"
  by (induction name cs rule: find_sibling_NoPrefix.induct) auto

lemma GetNthChildNamed_NoPrefix_0: "GetNthChildNamed_NoPrefix name 0 cs = find_sibling_NoPrefix name cs"
  by (induction name cs rule: find_sibling_NoPrefix.induct) auto

text \<open>The loop of the OFD readers: from the first child of a name to its next siblings of that name.\<close>

function walk_named :: "wstring \<Rightarrow> xml_node list \<Rightarrow> xml_node list" where
  "walk_named name here =
    (if here = [] then [] else hd here # walk_named name (GetNextSiblingNamed_NoPrefix name here))"
  by pat_completeness auto
termination
proof (relation "measure (\<lambda>(name, here). length here)", goal_cases)
  case (2 name here)
  then show ?case
    using length_dropWhile_le [of "\<lambda>c. \<not> named_NoPrefix name c" "tl here"]
    by (cases here) (auto simp: GetNextSiblingNamed_NoPrefix_def find_sibling_dropWhile)
qed simp

declare walk_named.simps [simp del]

lemma walk_find_sibling: "walk_named name (find_sibling_NoPrefix name cs) = filter (named_NoPrefix name) cs"
proof (induction cs)
  case Nil
  then show ?case by (simp add: walk_named.simps)
next
  case (Cons c cs)
  show ?case
  proof (cases "named_NoPrefix name c")
    case True
    then have "find_sibling_NoPrefix name (c # cs) = c # cs" by (simp add: find_sibling_dropWhile)
    then show ?thesis
      using Cons True by (simp add: walk_named.simps [of _ "c # cs"] GetNextSiblingNamed_NoPrefix_def)
  next
    case False
    then show ?thesis using Cons by (simp add: find_sibling_dropWhile)
  qed
qed

lemma GetNthChildNamed_NoPrefix_filter:
  "i < length (filter (named_NoPrefix name) cs) \<Longrightarrow>
    GetNthChildNamed_NoPrefix name i cs \<noteq> [] \<and>
    hd (GetNthChildNamed_NoPrefix name i cs) = filter (named_NoPrefix name) cs ! i"
proof (induction name i cs rule: GetNthChildNamed_NoPrefix.induct)
  case (2 name idx n as cs rest)
  then show ?case by (cases "GetLocalTagName n = name"; cases idx) simp_all
qed simp_all

lemma GetNthChildNamed_NoPrefix_past:
  "length (filter (named_NoPrefix name) cs) \<le> i \<Longrightarrow> GetNthChildNamed_NoPrefix name i cs = []"
  by (induction name i cs rule: GetNthChildNamed_NoPrefix.induct) auto

section \<open>Properties\<close>

text \<open>
  the attributes of an element behave as a finite map kept in the order of its keys: setting an
  attribute overwrites exactly that key, removing one deletes exactly that key, the queries read the
  map (an absent attribute reads as the empty string), and the order of writing is preserved sorted.
\<close>

theorem xml_attributes_map:
  assumes "attrs_sorted as"
  shows "attrs_sorted (SetAttribute n v as) \<and> map_of (SetAttribute n v as) = (map_of as)(n \<mapsto> v) \<and>
    attrs_sorted (RemoveAttribute n as) \<and> map_of (RemoveAttribute n as) = (map_of as)(n := None) \<and>
    HasAttribute k as = (map_of as k \<noteq> None) \<and>
    GetAttribute k as = (case map_of as k of Some w \<Rightarrow> w | None \<Rightarrow> [])"
  using assms by (simp only: attrs_sorted_SetAttribute map_of_SetAttribute attrs_sorted_RemoveAttribute
      map_of_RemoveAttribute HasAttribute_map_of GetAttribute_map_of simp_thms)

theorem xml_attributes_map_witness:
  "map_of (SetAttribute (L ''ID'') (L ''7'') [(L ''A'', L ''1''), (L ''Z'', L ''2'')]) (L ''ID'') = Some (L ''7'')"
proof -
  have "attrs_sorted [(L ''A'', L ''1''), (L ''Z'', L ''2'')]" by (simp add: attrs_sorted_def L_def)
  from xml_attributes_map [OF this, of "L ''ID''" "L ''7''"] show ?thesis by simp
qed

text \<open>
  the loop that starts at the first child of a given local name and follows the next siblings of
  that name visits exactly the child elements of that name, whatever their prefix, in document order,
  and terminates; indexed access agrees with it and is null past its end.
\<close>

theorem xml_walk_visits_named:
  "walk_named name (GetFirstChildNamed_NoPrefix name cs) = filter (named_NoPrefix name) cs \<and>
   (\<forall>i. if i < length (filter (named_NoPrefix name) cs)
     then GetNthChildNamed_NoPrefix name i cs \<noteq> [] \<and>
       hd (GetNthChildNamed_NoPrefix name i cs) = filter (named_NoPrefix name) cs ! i
     else GetNthChildNamed_NoPrefix name i cs = [])"
  by (auto simp: GetFirstChildNamed_NoPrefix_def GetNthChildNamed_NoPrefix_0 walk_find_sibling
      GetNthChildNamed_NoPrefix_past dest: GetNthChildNamed_NoPrefix_filter)

end
