(* ===== verification/Xml_Parser.thy ===== *)
theory Xml_Parser
  imports Xml_Dom
begin

text \<open>
  The XML parser of src/core/fxcrt/xml/cfx_xmlparser.cpp: the character classes, the entity decoder
  ProcessTextChar, the handlers of the sixteen syntax states and the loop over the blocks of the
  stream.  The parser's current node is the first of a list of open nodes (the last one is the
  document's root element), each with the children appended to it so far.  A step either rejects the
  document, goes on with the number of characters it consumed, or is \<open>Stuck\<close>: the code would read past
  its buffer, look at the top of an empty stack or follow a null node pointer.  The wide-character
  classification of the platform (\<open>FXSYS_iswspace\<close>) and its case folding (\<open>FXSYS_towlower\<close>) are
  parameters.
\<close>

section \<open>Characters\<close>

definition IsXMLWhiteSpace :: "nat \<Rightarrow> bool" where
  "IsXMLWhiteSpace ch \<longleftrightarrow> ch = 0x20 \<or> ch = 0x0A \<or> ch = 0x0D \<or> ch = 0x09"

definition kXMLNameChars :: "(nat \<times> nat \<times> bool) list" where
  "kXMLNameChars = [
    (0x2D, 0x2E, False), (0x30, 0x39, False), (0x3A, 0x3A, False),
    (0x41, 0x5A, True), (0x5F, 0x5F, True), (0x61, 0x7A, True),
    (0xB7, 0xB7, False), (0xC0, 0xD6, True), (0xD8, 0xF6, True),
    (0xF8, 0x02FF, True), (0x0300, 0x036F, False), (0x0370, 0x037D, True),
    (0x037F, 0x1FFF, True), (0x200C, 0x200D, True), (0x203F, 0x2040, False),
    (0x2070, 0x218F, True), (0x2C00, 0x2FEF, True), (0x3001, 0xD7FF, True),
    (0xF900, 0xFDCF, True), (0xFDF0, 0xFFFD, True)]"

text \<open>\<open>std::lower_bound\<close> on the sorted table: the first range that does not end before \<open>ch\<close>.\<close>

definition IsXMLNameChar :: "nat \<Rightarrow> bool \<Rightarrow> bool" where
  "IsXMLNameChar ch bFirstChar = (case find (\<lambda>(wStart, wEnd, b). \<not> wEnd < ch) kXMLNameChars of
      None \<Rightarrow> False
    | Some (wStart, wEnd, bStartChar) \<Rightarrow> wStart \<le> ch \<and> (\<not> bFirstChar \<or> bStartChar))"

text \<open>Whether \<open>FXSYS_wcsnicmp\<close> returns zero; \<open>None\<close> when it would read past the buffer.\<close>

fun wcsnicmp_eq :: "(nat \<Rightarrow> nat) \<Rightarrow> wstring \<Rightarrow> wstring \<Rightarrow> bool option" where
  "wcsnicmp_eq towlower s1 [] = Some True"
| "wcsnicmp_eq towlower [] (c # s2) = None"
| "wcsnicmp_eq towlower (b # s1) (c # s2) =
    (if towlower b \<noteq> towlower c then Some False else wcsnicmp_eq towlower s1 s2)"

section \<open>State\<close>

datatype FDE_XmlSyntaxState =
  Text | Node | Target | Tag | AttriName | AttriEqualSign | AttriQuotation | AttriValue
  | CloseInstruction | BreakElement | CloseElement | SkipDeclNode | SkipComment | SkipCommentOrDecl
  | SkipCData | TargetData

record xml_parser =
  current_node :: "xml_node list"
  current_text :: wstring
  entity_start :: int
  current_parser_state :: FDE_XmlSyntaxState
  node_type_stack :: "node_type list"
  character_to_skip_too_stack :: "nat list"
  current_attribute_name :: wstring
  current_quote_character :: nat
  current_character_to_skip_to :: nat
  iCount :: nat

datatype outcome = Reject | Stuck | Go nat xml_parser

definition GetTextData_text :: "xml_parser \<Rightarrow> xml_parser" where
  "GetTextData_text p = p\<lparr>current_text := [], entity_start := -1\<rparr>"

definition AppendLastChild :: "xml_node \<Rightarrow> nat \<Rightarrow> xml_parser \<Rightarrow> outcome" where
  "AppendLastChild child n p = (case current_node p of
      XMLElement nm as cs # up \<Rightarrow> Go n (p\<lparr>current_node := XMLElement nm as (cs @ [child]) # up\<rparr>)
    | _ \<Rightarrow> Stuck)"

text \<open>
  The child is appended to the current node and becomes the current node; it is joined to its parent's
  list when the parent becomes current again.
\<close>

definition OpenChild :: "xml_node \<Rightarrow> nat \<Rightarrow> xml_parser \<Rightarrow> outcome" where
  "OpenChild child n p = (case current_node p of
      XMLElement nm as cs # up \<Rightarrow> Go n (p\<lparr>current_node := child # XMLElement nm as cs # up\<rparr>)
    | _ \<Rightarrow> Stuck)"

definition GoToParent :: "nat \<Rightarrow> xml_parser \<Rightarrow> outcome" where
  "GoToParent n p = (case current_node p of
      child # XMLElement nm as cs # up \<Rightarrow> Go n (p\<lparr>current_node := XMLElement nm as (cs @ [child]) # up\<rparr>)
    | _ \<Rightarrow> Stuck)"

section \<open>Text and entities\<close>

definition kMaxCharRange :: nat where
  "kMaxCharRange = 0x10FFFF"

definition hex_entity :: "wstring \<Rightarrow> nat" where
  "hex_entity ds = fold (\<lambda>c ch. (ch * 2 ^ 4 + FXSYS_HexCharToInt c) mod 2 ^ 32) (takeWhile FXSYS_IsHexDigit ds) 0"

definition dec_entity :: "wstring \<Rightarrow> nat" where
  "dec_entity ds = fold (\<lambda>c ch. (ch * 10 + FXSYS_DecimalCharToInt c) mod 2 ^ 32) (takeWhile FXSYS_IsDecimalDigit ds) 0"

definition decode_entity :: "wstring \<Rightarrow> wstring" where
  "decode_entity csEntity =
    (if csEntity = [] then []
     else if csEntity ! 0 = 35 then
       let ch = (if 1 < length csEntity \<and> csEntity ! 1 = 120 then hex_entity (drop 2 csEntity)
                 else dec_entity (drop 1 csEntity));
           ch = (if kMaxCharRange < ch then 32 else ch)
       in if ch \<noteq> 0 then [ch] else []
     else if csEntity = L ''amp'' then [38]
     else if csEntity = L ''lt'' then [60]
     else if csEntity = L ''gt'' then [62]
     else if csEntity = L ''apos'' then [39]
     else if csEntity = L ''quot'' then [34]
     else [])"

definition ProcessTextChar :: "nat \<Rightarrow> xml_parser \<Rightarrow> xml_parser" where
  "ProcessTextChar character p =
    (let text = current_text p @ [character] in
     if -1 < entity_start p \<and> character = 59 then
       let start = nat (entity_start p);
           csEntity = take (length text - start - 2) (drop (start + 1) text)
       in p\<lparr>current_text := take start text @ decode_entity csEntity, entity_start := -1\<rparr>
     else if entity_start p < 0 \<and> character = 38 then
       p\<lparr>current_text := text, entity_start := int (length text) - 1\<rparr>
     else p\<lparr>current_text := text\<rparr>)"

definition ProcessTargetData :: "xml_parser \<Rightarrow> xml_parser" where
  "ProcessTargetData p =
    (let target_data = current_text p; p = GetTextData_text p in
     if target_data = [] then p
     else case current_node p of
       XMLInstruction nm ds # up \<Rightarrow> p\<lparr>current_node := XMLInstruction nm (ds @ [target_data]) # up\<rparr>
     | _ \<Rightarrow> p)"

definition push_text :: "nat \<Rightarrow> xml_parser \<Rightarrow> xml_parser" where
  "push_text ch p = p\<lparr>current_text := current_text p @ [ch]\<rparr>"

definition goto :: "FDE_XmlSyntaxState \<Rightarrow> xml_parser \<Rightarrow> xml_parser" where
  "goto st p = p\<lparr>current_parser_state := st\<rparr>"

section \<open>One handler per syntax state\<close>

definition step_Text :: "(nat \<Rightarrow> bool) \<Rightarrow> nat \<Rightarrow> xml_parser \<Rightarrow> outcome" where
  "step_Text iswspace ch p =
    (if ch = 60 then
       (if current_text p \<noteq> [] then AppendLastChild (XMLText (current_text p)) 0 (GetTextData_text p)
        else Go 1 (goto Node p))
     else if node_type_stack p = [] \<and> ch \<noteq> 0 \<and> \<not> iswspace ch then Reject
     else Go 1 (ProcessTextChar ch p))"

definition step_Node :: "nat \<Rightarrow> xml_parser \<Rightarrow> outcome" where
  "step_Node ch p =
    (if ch = 33 then Go 1 (goto SkipCommentOrDecl p)
     else if ch = 47 then Go 1 (goto CloseElement p)
     else if ch = 63 then
       Go 1 (goto Target (p\<lparr>node_type_stack := kInstruction # node_type_stack p\<rparr>))
     else Go 0 (goto Tag (p\<lparr>node_type_stack := kElement # node_type_stack p\<rparr>)))"

definition step_Target :: "nat \<Rightarrow> xml_parser \<Rightarrow> outcome" where
  "step_Target ch p =
    (if \<not> IsXMLNameChar ch (current_text p = []) then
       if current_text p = [] then Reject
       else
         let target_name = current_text p; p = GetTextData_text (goto TargetData p) in
         if target_name = L ''originalXFAVersion'' \<or> target_name = L ''acrobat''
         then OpenChild (XMLInstruction target_name []) 0 p
         else Go 0 p
     else Go 1 (push_text ch p))"

definition step_Tag :: "nat \<Rightarrow> xml_parser \<Rightarrow> outcome" where
  "step_Tag ch p =
    (if \<not> IsXMLNameChar ch (current_text p = []) then
       if current_text p = [] then Reject
       else OpenChild (XMLElement (current_text p) [] []) 0 (GetTextData_text (goto AttriName p))
     else Go 1 (push_text ch p))"

definition step_AttriName :: "nat \<Rightarrow> xml_parser \<Rightarrow> outcome" where
  "step_AttriName ch p =
    (if current_text p = [] \<and> IsXMLWhiteSpace ch then Go 1 p
     else if \<not> IsXMLNameChar ch (current_text p = []) then
       (case node_type_stack p of
          [] \<Rightarrow> Stuck
        | ty # _ \<Rightarrow>
          if current_text p = [] then
            if ty = kElement then (if ch = 62 \<or> ch = 47 then Go 0 (goto BreakElement p) else Reject)
            else if ty = kInstruction then
              (if ch = 63 then Go 1 (goto CloseInstruction p) else Go 0 (goto TargetData p))
            else Reject
          else if ty = kInstruction \<and> ch \<noteq> 61 \<and> \<not> IsXMLWhiteSpace ch then Go 0 (goto TargetData p)
          else Go 0 (GetTextData_text (goto AttriEqualSign (p\<lparr>current_attribute_name := current_text p\<rparr>))))
     else Go 1 (push_text ch p))"

definition step_AttriEqualSign :: "nat \<Rightarrow> xml_parser \<Rightarrow> outcome" where
  "step_AttriEqualSign ch p =
    (if IsXMLWhiteSpace ch then Go 1 p
     else if ch \<noteq> 61 then
       (case node_type_stack p of
          [] \<Rightarrow> Stuck
        | ty # _ \<Rightarrow> if ty = kInstruction then Go 0 (goto TargetData p) else Reject)
     else Go 1 (goto AttriQuotation p))"

definition step_AttriQuotation :: "nat \<Rightarrow> xml_parser \<Rightarrow> outcome" where
  "step_AttriQuotation ch p =
    (if IsXMLWhiteSpace ch then Go 1 p
     else if ch \<noteq> 34 \<and> ch \<noteq> 39 then Reject
     else Go 1 (goto AttriValue (p\<lparr>current_quote_character := ch\<rparr>)))"

definition step_AttriValue :: "nat \<Rightarrow> xml_parser \<Rightarrow> outcome" where
  "step_AttriValue ch p =
    (if ch = current_quote_character p then
       if -1 < entity_start p then Reject
       else
         let value = current_text p;
             q = goto AttriName (p\<lparr>current_quote_character := 0\<rparr>);
             q = (case current_node q of
                    XMLElement nm as cs # up \<Rightarrow>
                      (GetTextData_text q)\<lparr>current_node := XMLElement nm (SetAttribute (current_attribute_name q) value as) cs # up\<rparr>
                  | _ \<Rightarrow> q)
         in Go 1 (q\<lparr>current_attribute_name := []\<rparr>)
     else Go 1 (ProcessTextChar ch p))"

definition step_CloseInstruction :: "nat \<Rightarrow> xml_parser \<Rightarrow> outcome" where
  "step_CloseInstruction ch p =
    (if ch \<noteq> 62 then Go 0 (goto TargetData (push_text ch p))
     else if current_text p \<noteq> [] then Go 0 (ProcessTargetData p)
     else if node_type_stack p = [] then Reject
     else
       let p = goto Text (p\<lparr>node_type_stack := tl (node_type_stack p)\<rparr>) in
       case current_node p of
         XMLInstruction nm ds # up \<Rightarrow> GoToParent 1 p
       | _ \<Rightarrow> Go 1 p)"

definition step_BreakElement :: "nat \<Rightarrow> xml_parser \<Rightarrow> outcome" where
  "step_BreakElement ch p =
    (if ch = 62 then Go 1 (goto Text p)
     else if ch = 47 then Go 1 (goto CloseElement p)
     else Reject)"

definition step_CloseElement :: "nat \<Rightarrow> xml_parser \<Rightarrow> outcome" where
  "step_CloseElement ch p =
    (if \<not> IsXMLNameChar ch (current_text p = []) then
       if ch = 62 then
         if node_type_stack p = [] then Reject
         else
           let p = goto Text (p\<lparr>node_type_stack := tl (node_type_stack p)\<rparr>) in
           case current_node p of
             XMLElement nm as cs # up \<Rightarrow>
               let element_name = current_text p; p = GetTextData_text p in
               if element_name \<noteq> [] \<and> element_name \<noteq> nm then Reject
               else GoToParent 1 (p\<lparr>iCount := iCount p + 1\<rparr>)
           | _ \<Rightarrow> Reject
       else if \<not> IsXMLWhiteSpace ch then Reject
       else Go 1 p
     else Go 1 (push_text ch p))"

text \<open>The look-ahead handlers see the buffer from the current character to its end.\<close>

definition step_SkipCommentOrDecl :: "(nat \<Rightarrow> nat) \<Rightarrow> wstring \<Rightarrow> xml_parser \<Rightarrow> outcome" where
  "step_SkipCommentOrDecl towlower span p = (case wcsnicmp_eq towlower span (L ''--'') of
      None \<Rightarrow> Stuck
    | Some True \<Rightarrow> Go 2 (goto SkipComment p)
    | Some False \<Rightarrow> (case wcsnicmp_eq towlower span (L ''[CDATA['') of
          None \<Rightarrow> Stuck
        | Some True \<Rightarrow> Go 7 (goto SkipCData p)
        | Some False \<Rightarrow> Go 0 (goto SkipDeclNode (p\<lparr>current_character_to_skip_to := 62,
            character_to_skip_too_stack := 62 # character_to_skip_too_stack p\<rparr>))))"

definition step_SkipCData :: "(nat \<Rightarrow> nat) \<Rightarrow> wstring \<Rightarrow> nat \<Rightarrow> xml_parser \<Rightarrow> outcome" where
  "step_SkipCData towlower span ch p = (case wcsnicmp_eq towlower span (L '']]>'') of
      None \<Rightarrow> Stuck
    | Some True \<Rightarrow> AppendLastChild (XMLCharData (current_text p)) 3 (GetTextData_text (goto Text p))
    | Some False \<Rightarrow> Go 1 (push_text ch p))"

definition pop_skip :: "xml_parser \<Rightarrow> outcome" where
  "pop_skip p = (case character_to_skip_too_stack p of
      [] \<Rightarrow> Stuck
    | [_] \<Rightarrow> Go 1 (goto Text (p\<lparr>character_to_skip_too_stack := []\<rparr>))
    | _ # ty # rest \<Rightarrow> Go 1 (p\<lparr>character_to_skip_too_stack := ty # rest, current_character_to_skip_to := ty\<rparr>))"

definition push_skip :: "nat \<Rightarrow> xml_parser \<Rightarrow> outcome" where
  "push_skip c p = Go 1 (p\<lparr>current_character_to_skip_to := c,
    character_to_skip_too_stack := c # character_to_skip_too_stack p\<rparr>)"

definition step_SkipDeclNode :: "nat \<Rightarrow> xml_parser \<Rightarrow> outcome" where
  "step_SkipDeclNode ch p =
    (if current_character_to_skip_to p = 39 \<or> current_character_to_skip_to p = 34 then
       if ch \<noteq> current_character_to_skip_to p then Go 1 p else pop_skip p
     else if ch = 60 then push_skip 62 p
     else if ch = 91 then push_skip 93 p
     else if ch = 40 then push_skip 41 p
     else if ch = 39 then push_skip 39 p
     else if ch = 34 then push_skip 34 p
     else if ch = current_character_to_skip_to p then pop_skip p
     else Go 1 p)"

definition step_SkipComment :: "(nat \<Rightarrow> nat) \<Rightarrow> wstring \<Rightarrow> xml_parser \<Rightarrow> outcome" where
  "step_SkipComment towlower span p = (case wcsnicmp_eq towlower span (L ''-->'') of
      None \<Rightarrow> Stuck
    | Some True \<Rightarrow> Go 3 (goto Text p)
    | Some False \<Rightarrow> Go 1 p)"

definition step_TargetData :: "nat \<Rightarrow> xml_parser \<Rightarrow> outcome" where
  "step_TargetData ch p =
    (if IsXMLWhiteSpace ch \<and> current_text p = [] then Go 1 p
     else if IsXMLWhiteSpace ch \<and> current_quote_character p = 0 then Go 1 (ProcessTargetData p)
     else if ch = 63 then Go 1 (goto CloseInstruction p)
     else if ch = 34 then
       if current_quote_character p = 0 then Go 1 (p\<lparr>current_quote_character := ch\<rparr>)
       else if ch = current_quote_character p then Go 1 (ProcessTargetData (p\<lparr>current_quote_character := 0\<rparr>))
       else Reject
     else Go 1 (push_text ch p))"

definition step :: "(nat \<Rightarrow> bool) \<Rightarrow> (nat \<Rightarrow> nat) \<Rightarrow> wstring \<Rightarrow> nat \<Rightarrow> xml_parser \<Rightarrow> outcome" where
  "step iswspace towlower span ch p = (case current_parser_state p of
      Text \<Rightarrow> step_Text iswspace ch p
    | Node \<Rightarrow> step_Node ch p
    | Target \<Rightarrow> step_Target ch p
    | Tag \<Rightarrow> step_Tag ch p
    | AttriName \<Rightarrow> step_AttriName ch p
    | AttriEqualSign \<Rightarrow> step_AttriEqualSign ch p
    | AttriQuotation \<Rightarrow> step_AttriQuotation ch p
    | AttriValue \<Rightarrow> step_AttriValue ch p
    | CloseInstruction \<Rightarrow> step_CloseInstruction ch p
    | BreakElement \<Rightarrow> step_BreakElement ch p
    | CloseElement \<Rightarrow> step_CloseElement ch p
    | SkipDeclNode \<Rightarrow> step_SkipDeclNode ch p
    | SkipComment \<Rightarrow> step_SkipComment towlower span p
    | SkipCommentOrDecl \<Rightarrow> step_SkipCommentOrDecl towlower span p
    | SkipCData \<Rightarrow> step_SkipCData towlower span ch p
    | TargetData \<Rightarrow> step_TargetData ch p)"

section \<open>The loops\<close>

text \<open>Every step consumes a character or lowers this rank.\<close>

definition rank :: "xml_parser \<Rightarrow> nat" where
  "rank p = (case current_parser_state p of
      Text \<Rightarrow> if current_text p = [] then 0 else 1
    | Node \<Rightarrow> 6 | Tag \<Rightarrow> 5 | AttriName \<Rightarrow> 4 | AttriEqualSign \<Rightarrow> 3 | BreakElement \<Rightarrow> 0
    | Target \<Rightarrow> 5 | CloseInstruction \<Rightarrow> (if current_text p = [] then 1 else 2)
    | SkipCommentOrDecl \<Rightarrow> 1 | _ \<Rightarrow> 0)"

lemmas step_defs = step_Text_def step_Node_def step_Target_def step_Tag_def step_AttriName_def
  step_AttriEqualSign_def step_AttriQuotation_def step_AttriValue_def step_CloseInstruction_def
  step_BreakElement_def step_CloseElement_def step_SkipDeclNode_def step_SkipComment_def
  step_SkipCommentOrDecl_def step_SkipCData_def step_TargetData_def pop_skip_def push_skip_def

lemmas node_op_defs = AppendLastChild_def OpenChild_def GoToParent_def

lemmas text_op_defs = goto_def GetTextData_text_def push_text_def

lemma step_advances:
  "step iswspace towlower span ch p = Go n p' \<Longrightarrow> 0 < n \<or> rank p' < rank p"
  unfolding step_def
  by (cases "current_parser_state p")
    (auto simp: step_defs node_op_defs text_op_defs rank_def ProcessTargetData_def Let_def
      split: if_splits list.splits xml_node.splits option.splits bool.splits)

function parse_block :: "(nat \<Rightarrow> bool) \<Rightarrow> (nat \<Rightarrow> nat) \<Rightarrow> wstring \<Rightarrow> wstring \<Rightarrow> xml_parser \<Rightarrow> outcome" where
  "parse_block iswspace towlower tail cur p = (case cur of
      [] \<Rightarrow> Go 0 p
    | ch # _ \<Rightarrow> (case step iswspace towlower (cur @ tail) ch p of
          Go n p' \<Rightarrow> parse_block iswspace towlower tail (drop n cur) p'
        | r \<Rightarrow> r))"
  by pat_completeness auto
termination
proof (relation "measures [\<lambda>(_, _, _, cur, _). length cur, \<lambda>(_, _, _, _, p). rank p]", goal_cases)
  case (2 iswspace towlower tail cur p ch rest n p')
  then show ?case using step_advances [of iswspace towlower "cur @ tail" ch p n p'] by auto
qed simp

declare parse_block.simps [simp del]

text \<open>
  The buffer has one character more than a block can fill, always zero; a shorter block leaves the
  characters of earlier ones behind it.
\<close>

fun parse_blocks :: "(nat \<Rightarrow> bool) \<Rightarrow> (nat \<Rightarrow> nat) \<Rightarrow> wstring \<Rightarrow> wstring list \<Rightarrow> xml_parser \<Rightarrow> outcome" where
  "parse_blocks iswspace towlower buffer [] p = Go 0 p"
| "parse_blocks iswspace towlower buffer (block # blocks) p =
    (let buffer = memcpy buffer 0 block in
     case parse_block iswspace towlower (drop (length block) buffer) block p of
       Go n p' \<Rightarrow> parse_blocks iswspace towlower buffer blocks p'
     | r \<Rightarrow> r)"

definition initial_parser :: xml_parser where
  "initial_parser = \<lparr>current_node = [XMLElement (L ''root'') [] []], current_text = [], entity_start = -1,
    current_parser_state = Text, node_type_stack = [], character_to_skip_too_stack = [],
    current_attribute_name = [], current_quote_character = 0, current_character_to_skip_to = 0, iCount = 0\<rparr>"

text \<open>The document's root element: every open node joined to its parent.\<close>

fun close_nodes :: "xml_node list \<Rightarrow> xml_node option" where
  "close_nodes [] = None"
| "close_nodes [root] = Some root"
| "close_nodes (child # XMLElement nm as cs # up) = close_nodes (XMLElement nm as (cs @ [child]) # up)"
| "close_nodes (child # other # up) = None"

datatype parse_result = Document xml_node | NoDocument | Undefined

definition Parse :: "(nat \<Rightarrow> bool) \<Rightarrow> (nat \<Rightarrow> nat) \<Rightarrow> FX_CodePage \<Rightarrow> bytes \<Rightarrow> parse_result" where
  "Parse iswspace towlower acp data =
    (let xml_plane_size = min 1024 (length data) in
     if xml_plane_size = 0 then NoDocument
     else
       case parse_blocks iswspace towlower (replicate (xml_plane_size + 1) 0)
              (read_blocks xml_plane_size (open_xml_stream acp data)) initial_parser of
         Go n p \<Rightarrow> (case close_nodes (current_node p) of Some root \<Rightarrow> Document root | None \<Rightarrow> Undefined)
       | Reject \<Rightarrow> NoDocument
       | Stuck \<Rightarrow> Undefined)"

section \<open>The parser is never stuck\<close>

fun is_element :: "xml_node \<Rightarrow> bool" where
  "is_element (XMLElement n as cs) = True"
| "is_element _ = False"

text \<open>
  The node type stack mirrors the open nodes: \<open>d\<close> elements below the root are open.  While a tag or
  target name is being read its entry is already on the stack and its node not yet open; in the data of
  an instruction the node is open when its target is one the parser keeps.
\<close>

definition nodes_ok :: "nat \<Rightarrow> xml_node list \<Rightarrow> bool" where
  "nodes_ok d fs \<longleftrightarrow> list_all is_element fs \<and> length fs = Suc d"

definition shape :: "nat \<Rightarrow> xml_parser \<Rightarrow> bool" where
  "shape d p \<longleftrightarrow> (case current_parser_state p of
      Tag \<Rightarrow> node_type_stack p = kElement # replicate d kElement \<and> nodes_ok d (current_node p)
    | Target \<Rightarrow> node_type_stack p = kInstruction # replicate d kElement \<and> nodes_ok d (current_node p)
    | TargetData \<Rightarrow> node_type_stack p = kInstruction # replicate d kElement \<and>
        (nodes_ok d (current_node p) \<or> (\<exists>n ds up. current_node p = XMLInstruction n ds # up \<and> nodes_ok d up))
    | CloseInstruction \<Rightarrow> node_type_stack p = kInstruction # replicate d kElement \<and>
        (nodes_ok d (current_node p) \<or> (\<exists>n ds up. current_node p = XMLInstruction n ds # up \<and> nodes_ok d up))
    | AttriName \<Rightarrow> 0 < d \<and> node_type_stack p = replicate d kElement \<and> nodes_ok d (current_node p)
    | AttriEqualSign \<Rightarrow> 0 < d \<and> node_type_stack p = replicate d kElement \<and> nodes_ok d (current_node p)
    | AttriQuotation \<Rightarrow> 0 < d \<and> node_type_stack p = replicate d kElement \<and> nodes_ok d (current_node p)
    | AttriValue \<Rightarrow> 0 < d \<and> node_type_stack p = replicate d kElement \<and> nodes_ok d (current_node p)
    | BreakElement \<Rightarrow> 0 < d \<and> node_type_stack p = replicate d kElement \<and> nodes_ok d (current_node p)
    | _ \<Rightarrow> node_type_stack p = replicate d kElement \<and> nodes_ok d (current_node p))"

definition parser_ok :: "xml_parser \<Rightarrow> bool" where
  "parser_ok p \<longleftrightarrow> (\<exists>d. shape d p) \<and>
    (current_parser_state p = SkipDeclNode \<longrightarrow> character_to_skip_too_stack p \<noteq> []) \<and>
    - 1 \<le> entity_start p \<and> entity_start p < int (length (current_text p))"

text \<open>What the model needs of the platform's case folding: no character of the marks folds to NUL.\<close>

definition folds_marks :: "(nat \<Rightarrow> nat) \<Rightarrow> bool" where
  "folds_marks towlower \<longleftrightarrow> list_all (\<lambda>c. towlower c \<noteq> towlower 0) (L ''-[CDATA]>'')"

lemma wcsnicmp_in_buffer:
  "list_all (\<lambda>c. towlower c \<noteq> towlower 0) mark \<Longrightarrow> span \<noteq> [] \<Longrightarrow> last span = 0 \<Longrightarrow>
    wcsnicmp_eq towlower span mark \<noteq> None"
proof (induction towlower span mark rule: wcsnicmp_eq.induct)
  case (3 towlower b s1 c s2)
  then show ?case by (cases "s1 = []") auto
qed auto

lemma marks_in_buffer:
  assumes "folds_marks towlower" and "span \<noteq> []" and "last span = 0"
  shows "wcsnicmp_eq towlower span (L ''--'') \<noteq> None" "wcsnicmp_eq towlower span (L ''[CDATA['') \<noteq> None"
    "wcsnicmp_eq towlower span (L '']]>'') \<noteq> None" "wcsnicmp_eq towlower span (L ''-->'') \<noteq> None"
  using assms by (intro wcsnicmp_in_buffer; simp add: folds_marks_def L_def)+

lemma ProcessTextChar_frame [simp]:
  "current_parser_state (ProcessTextChar ch p) = current_parser_state p"
  "node_type_stack (ProcessTextChar ch p) = node_type_stack p"
  "current_node (ProcessTextChar ch p) = current_node p"
  "character_to_skip_too_stack (ProcessTextChar ch p) = character_to_skip_too_stack p"
  by (simp_all add: ProcessTextChar_def Let_def)

lemma ProcessTextChar_entity:
  "- 1 \<le> entity_start p \<Longrightarrow> entity_start p < int (length (current_text p)) \<Longrightarrow>
    - 1 \<le> entity_start (ProcessTextChar ch p) \<and>
    entity_start (ProcessTextChar ch p) < int (length (current_text (ProcessTextChar ch p)))"
  by (auto simp: ProcessTextChar_def Let_def)

lemma nodes_okE:
  assumes "nodes_ok d fs"
  obtains nm as cs up where "fs = XMLElement nm as cs # up" "list_all is_element up" "length up = d"
proof -
  obtain f up where "fs = f # up" "length up = d" using assms by (cases fs) (auto simp: nodes_ok_def)
  moreover from this have "is_element f" "list_all is_element up" using assms by (auto simp: nodes_ok_def)
  ultimately show ?thesis using that by (cases f) auto
qed

lemma nodes_ok_instruction [simp]: "\<not> nodes_ok d (XMLInstruction n ds # up)"
  by (simp add: nodes_ok_def)

definition safe :: "outcome \<Rightarrow> bool" where
  "safe r \<longleftrightarrow> (case r of Reject \<Rightarrow> True | Stuck \<Rightarrow> False | Go n p \<Rightarrow> parser_ok p)"

lemma safe_simps [simp]: "safe Reject" "\<not> safe Stuck" "safe (Go n p) = parser_ok p"
  by (simp_all add: safe_def)

lemmas ok_defs = parser_ok_def shape_def text_op_defs node_op_defs

lemma safe_Text: "current_parser_state p = Text \<Longrightarrow> parser_ok p \<Longrightarrow> safe (step_Text iswspace ch p)"
  using ProcessTextChar_entity [of p ch]
  by (auto simp: ok_defs step_Text_def elim!: nodes_okE) (auto simp: nodes_ok_def)

lemma safe_Node: "current_parser_state p = Node \<Longrightarrow> parser_ok p \<Longrightarrow> safe (step_Node ch p)"
  by (auto simp: ok_defs step_Node_def)

lemma safe_Target: "current_parser_state p = Target \<Longrightarrow> parser_ok p \<Longrightarrow> safe (step_Target ch p)"
  by (auto simp: ok_defs step_Target_def Let_def elim!: nodes_okE) (auto simp: nodes_ok_def)

lemma safe_Tag: "current_parser_state p = Tag \<Longrightarrow> parser_ok p \<Longrightarrow> safe (step_Tag ch p)"
  by (auto simp: ok_defs step_Tag_def elim!: nodes_okE) (auto simp: nodes_ok_def intro!: exI [of _ "Suc _"])

lemma safe_AttriName: "current_parser_state p = AttriName \<Longrightarrow> parser_ok p \<Longrightarrow> safe (step_AttriName ch p)"
  by (auto simp: ok_defs step_AttriName_def gr0_conv_Suc split: list.splits)

lemma safe_AttriEqualSign: "current_parser_state p = AttriEqualSign \<Longrightarrow> parser_ok p \<Longrightarrow> safe (step_AttriEqualSign ch p)"
  by (auto simp: ok_defs step_AttriEqualSign_def gr0_conv_Suc split: list.splits)

lemma safe_AttriQuotation: "current_parser_state p = AttriQuotation \<Longrightarrow> parser_ok p \<Longrightarrow> safe (step_AttriQuotation ch p)"
  by (auto simp: ok_defs step_AttriQuotation_def)

lemma safe_AttriValue: "current_parser_state p = AttriValue \<Longrightarrow> parser_ok p \<Longrightarrow> safe (step_AttriValue ch p)"
  using ProcessTextChar_entity [of p ch]
  by (auto simp: ok_defs step_AttriValue_def Let_def elim!: nodes_okE) (auto simp: nodes_ok_def)

lemma safe_CloseInstruction: "current_parser_state p = CloseInstruction \<Longrightarrow> parser_ok p \<Longrightarrow> safe (step_CloseInstruction ch p)"
  by (auto simp: ok_defs step_CloseInstruction_def ProcessTargetData_def Let_def elim!: nodes_okE) (auto simp: nodes_ok_def)

lemma safe_BreakElement: "current_parser_state p = BreakElement \<Longrightarrow> parser_ok p \<Longrightarrow> safe (step_BreakElement ch p)"
  by (auto simp: ok_defs step_BreakElement_def)

lemma safe_SkipDeclNode: "current_parser_state p = SkipDeclNode \<Longrightarrow> parser_ok p \<Longrightarrow> safe (step_SkipDeclNode ch p)"
  by (auto simp: ok_defs step_SkipDeclNode_def pop_skip_def push_skip_def split: list.splits)

lemma safe_TargetData: "current_parser_state p = TargetData \<Longrightarrow> parser_ok p \<Longrightarrow> safe (step_TargetData ch p)"
  by (auto simp: ok_defs step_TargetData_def ProcessTargetData_def Let_def split: list.splits xml_node.splits)

lemma safe_CloseElement: "current_parser_state p = CloseElement \<Longrightarrow> parser_ok p \<Longrightarrow> safe (step_CloseElement ch p)"
proof -
  assume st: "current_parser_state p = CloseElement" and ok: "parser_ok p"
  then obtain d where d: "node_type_stack p = replicate d kElement" "nodes_ok d (current_node p)"
    by (auto simp: parser_ok_def shape_def)
  show ?thesis
  proof (cases d)
    case 0
    then show ?thesis using st ok d by (auto simp: step_CloseElement_def ok_defs)
  next
    case (Suc e)
    from d(2) obtain nm as cs up where up: "current_node p = XMLElement nm as cs # up" "nodes_ok e up"
      by (rule nodes_okE) (simp add: Suc nodes_ok_def)
    from up(2) obtain nm' as' cs' up' where up': "up = XMLElement nm' as' cs' # up'" "list_all is_element up'" "length up' = e"
      by (rule nodes_okE)
    have "shape e q" if "current_parser_state q = Text" "node_type_stack q = replicate e kElement"
      "current_node q = XMLElement nm' as' (cs' @ [XMLElement nm as cs]) # up'" for q
      using that up' by (simp add: shape_def nodes_ok_def)
    moreover have "shape d p" using st d by (simp add: shape_def)
    ultimately show ?thesis using st ok d Suc up up'
      by (simp add: step_CloseElement_def Let_def node_op_defs text_op_defs)
        (auto simp: parser_ok_def shape_def nodes_ok_def)
  qed
qed

lemma safe_step:
  assumes "parser_ok p" and "folds_marks towlower" and "span \<noteq> []" and "last span = 0"
  shows "safe (step iswspace towlower span ch p)"
proof (cases "current_parser_state p")
  case SkipComment
  then show ?thesis using assms marks_in_buffer [OF assms(2-4)]
    by (auto simp: step_def step_SkipComment_def ok_defs split: bool.splits)
next
  case SkipCommentOrDecl
  then show ?thesis using assms marks_in_buffer [OF assms(2-4)]
    by (auto simp: step_def step_SkipCommentOrDecl_def ok_defs split: bool.splits)
next
  case SkipCData
  then show ?thesis using assms marks_in_buffer [OF assms(2-4)]
    by (auto simp: step_def step_SkipCData_def ok_defs split: bool.splits elim!: nodes_okE) (auto simp: nodes_ok_def)
qed (use assms in \<open>simp_all add: step_def safe_Text safe_Node safe_Target safe_Tag safe_AttriName
  safe_AttriEqualSign safe_AttriQuotation safe_AttriValue safe_CloseInstruction safe_BreakElement
  safe_CloseElement safe_SkipDeclNode safe_TargetData\<close>)

lemma safe_parse_block:
  "folds_marks towlower \<Longrightarrow> tail \<noteq> [] \<Longrightarrow> last tail = 0 \<Longrightarrow> parser_ok p \<Longrightarrow>
    safe (parse_block iswspace towlower tail cur p)"
proof (induction iswspace towlower tail cur p rule: parse_block.induct)
  case (1 iswspace towlower tail cur p)
  show ?case
  proof (cases cur)
    case Nil
    then show ?thesis using 1 by (simp add: parse_block.simps)
  next
    case (Cons ch rest)
    have "safe (step iswspace towlower (cur @ tail) ch p)"
      using safe_step "1.prems" by simp
    then show ?thesis
      using 1 Cons by (cases "step iswspace towlower (cur @ tail) ch p") (simp_all add: parse_block.simps [of _ _ _ "ch # rest"])
  qed
qed

lemma safe_parse_blocks:
  "folds_marks towlower \<Longrightarrow> buffer \<noteq> [] \<Longrightarrow> last buffer = 0 \<Longrightarrow> parser_ok p \<Longrightarrow>
    list_all (\<lambda>block. length block < length buffer) blocks \<Longrightarrow>
    safe (parse_blocks iswspace towlower buffer blocks p)"
proof (induction blocks arbitrary: buffer p)
  case (Cons block blocks)
  let ?buffer = "memcpy buffer 0 block" and ?tail = "drop (length block) (memcpy buffer 0 block)"
  have tail: "?tail \<noteq> []" "last ?tail = 0" and buf: "?buffer \<noteq> []" "last ?buffer = 0" "length ?buffer = length buffer"
    using Cons.prems by (auto simp: memcpy_def)
  have "safe (parse_block iswspace towlower ?tail block p)"
    using safe_parse_block [OF Cons.prems(1) tail Cons.prems(4)] .
  then show ?case
    using Cons.IH [OF Cons.prems(1) buf(1,2)] Cons.prems(5) buf(3)
    by (cases "parse_block iswspace towlower ?tail block p") (simp_all add: Let_def)
qed simp

lemma close_nodes_elements: "fs \<noteq> [] \<Longrightarrow> list_all is_element (tl fs) \<Longrightarrow> close_nodes fs \<noteq> None"
proof (induction fs rule: close_nodes.induct)
  case (3 child nm as cs up)
  then show ?case by simp
qed auto

lemma parser_ok_closes: "parser_ok p \<Longrightarrow> close_nodes (current_node p) \<noteq> None"
proof -
  assume "parser_ok p"
  then obtain d where "shape d p" by (auto simp: parser_ok_def)
  moreover have "fs \<noteq> [] \<and> list_all is_element fs \<and> list_all is_element (tl fs)" if "nodes_ok d fs" for fs
    using that by (rule nodes_okE) simp
  ultimately have "current_node p \<noteq> [] \<and> list_all is_element (tl (current_node p))"
    by (cases "current_parser_state p") (auto simp: shape_def)
  then show ?thesis using close_nodes_elements by blast
qed

section \<open>Properties of the parser\<close>

text \<open>
  C6: for every sequence of input bytes the parser terminates and either returns a document or
  rejects the input: it never reads past its block buffer, never takes the top of an empty stack and
  never follows a null node pointer, and the document it returns is a complete tree.
\<close>

theorem xml_parse_total:
  assumes "folds_marks towlower"
  shows "Parse iswspace towlower acp data \<noteq> Undefined"
proof -
  let ?sz = "min 1024 (length data)"
  have "parser_ok initial_parser"
    by (simp add: parser_ok_def initial_parser_def shape_def nodes_ok_def)
  moreover have "last (replicate (?sz + 1) (0 :: nat)) = 0" by (simp del: replicate_Suc)
  ultimately have "safe (parse_blocks iswspace towlower (replicate (?sz + 1) 0)
      (read_blocks ?sz (open_xml_stream acp data)) initial_parser)"
    using assms read_blocks_fit [of ?sz "open_xml_stream acp data"]
    by (intro safe_parse_blocks) (auto simp: list_all_iff)
  then show ?thesis
    by (auto simp: Parse_def Let_def dest: parser_ok_closes split: outcome.splits option.splits)
qed

theorem xml_parse_total_witness:
  "Parse (\<lambda>c. c = 32) (\<lambda>c. c) kOtherCodePage (FX_UTF8Encode (L ''<a''))  \<noteq> Undefined"
proof -
  have "folds_marks (\<lambda>c. c)" by (simp add: folds_marks_def L_def)
  then show ?thesis by (rule xml_parse_total)
qed

end
