(* ===== verification/Xml_Roundtrip.thy ===== *)
theory Xml_Roundtrip
  imports Xml_Parser
begin

text \<open>
  Writing an element with CFX_XMLElement::Save and parsing the bytes gives the element back, however
  the stream is cut into blocks.  The proof follows the parser's run over the written characters; the
  states met on the way do not look ahead, so that a run may be cut at any character.
\<close>

section \<open>Runs without look-ahead\<close>

definition plain :: "xml_parser \<Rightarrow> bool" where
  "plain p \<longleftrightarrow> current_parser_state p \<notin> {SkipComment, SkipCommentOrDecl, SkipCData}"

lemma step_plain: "plain p \<Longrightarrow> step iswspace towlower span ch p = step iswspace towlower' span' ch p"
  by (cases "current_parser_state p") (auto simp: plain_def step_def)

inductive runs :: "(nat \<Rightarrow> bool) \<Rightarrow> wstring \<Rightarrow> xml_parser \<Rightarrow> xml_parser \<Rightarrow> bool" for iswspace where
  runs_nil: "runs iswspace [] p p"
| runs_eat: "plain p \<Longrightarrow> step iswspace id [] ch p = Go 1 q \<Longrightarrow> runs iswspace s q r \<Longrightarrow> runs iswspace (ch # s) p r"
| runs_stay: "plain p \<Longrightarrow> step iswspace id [] ch p = Go 0 q \<Longrightarrow> runs iswspace (ch # s) q r \<Longrightarrow> runs iswspace (ch # s) p r"

inductive_cases runs_nilE: "runs iswspace [] p q"

lemma runs_append: "runs iswspace s p q \<Longrightarrow> runs iswspace t q r \<Longrightarrow> runs iswspace (s @ t) p r"
  by (induction rule: runs.induct) (auto intro: runs.intros)

lemma runs_split: "runs iswspace u p r \<Longrightarrow> u = s @ t \<Longrightarrow> \<exists>q. runs iswspace s p q \<and> runs iswspace t q r"
proof (induction arbitrary: s rule: runs.induct)
  case (runs_nil p)
  then show ?case by (auto intro: runs.runs_nil)
next
  case (runs_eat p ch q u r)
  show ?case
  proof (cases s)
    case Nil
    moreover have "runs iswspace (ch # u) p r" using runs_eat.hyps by (rule runs.runs_eat)
    ultimately show ?thesis using runs_eat.prems by (metis append_Nil runs.runs_nil)
  next
    case (Cons c s')
    then show ?thesis using runs_eat by (metis append_Cons list.inject runs.runs_eat)
  qed
next
  case (runs_stay p ch q u r)
  show ?case
  proof (cases s)
    case Nil
    moreover have "runs iswspace (ch # u) p r" using runs_stay.hyps by (rule runs.runs_stay)
    ultimately show ?thesis using runs_stay.prems by (metis append_Nil runs.runs_nil)
  next
    case (Cons c s')
    then show ?thesis using runs_stay by (metis append_Cons list.inject runs.runs_stay)
  qed
qed

lemma runs_parse_block: "runs iswspace s p r \<Longrightarrow> parse_block iswspace towlower tail s p = Go 0 r"
proof (induction rule: runs.induct)
  case (runs_nil p)
  then show ?case by (simp add: parse_block.simps)
next
  case (runs_eat p ch q s r)
  then show ?case
    using step_plain [OF runs_eat.hyps(1), of iswspace towlower "(ch # s) @ tail" ch id "[]"]
    by (simp add: parse_block.simps [of _ _ _ "ch # s"])
next
  case (runs_stay p ch q s r)
  then show ?case
    using step_plain [OF runs_stay.hyps(1), of iswspace towlower "(ch # s) @ tail" ch id "[]"]
    by (simp add: parse_block.simps [of _ _ _ "ch # s" p])
qed

lemma runs_parse_blocks:
  "runs iswspace (concat blocks) p r \<Longrightarrow> \<exists>n. parse_blocks iswspace towlower buffer blocks p = Go n r"
proof (induction blocks arbitrary: p buffer)
  case Nil
  then have "p = r" by (auto elim: runs_nilE)
  then show ?case by simp
next
  case (Cons block blocks)
  then obtain q where q: "runs iswspace block p q" "runs iswspace (concat blocks) q r"
    using runs_split [OF Cons.prems, of block "concat blocks"] by auto
  then show ?case using Cons.IH [OF q(2)] runs_parse_block [OF q(1)] by (simp add: Let_def)
qed

section \<open>Text and entities\<close>

lemma ProcessTextChar_in_name:
  "0 \<le> entity_start p \<Longrightarrow> c \<noteq> 59 \<Longrightarrow> ProcessTextChar c p = p\<lparr>current_text := current_text p @ [c]\<rparr>"
  by (simp add: ProcessTextChar_def)

lemma fold_ProcessTextChar_name:
  "0 \<le> entity_start p \<Longrightarrow> list_all (\<lambda>c. c \<noteq> 59) cs \<Longrightarrow>
    fold ProcessTextChar cs p = p\<lparr>current_text := current_text p @ cs\<rparr>"
proof (induction cs arbitrary: p)
  case (Cons c cs)
  then show ?case using Cons.IH [of "p\<lparr>current_text := current_text p @ [c]\<rparr>"]
    by (simp add: ProcessTextChar_in_name)
qed simp

lemma fold_ProcessTextChar_reference:
  assumes "entity_start p = -1" and "list_all (\<lambda>c. c \<noteq> 59) cs"
  shows "fold ProcessTextChar (38 # cs @ [59]) p = p\<lparr>current_text := current_text p @ decode_entity cs\<rparr>"
proof -
  let ?t = "current_text p"
  let ?q = "p\<lparr>current_text := ?t @ [38], entity_start := int (length ?t)\<rparr>"
  have start: "ProcessTextChar 38 p = ?q" using assms(1) by (simp add: ProcessTextChar_def)
  have "fold ProcessTextChar cs ?q = ?q\<lparr>current_text := ?t @ 38 # cs\<rparr>"
    using fold_ProcessTextChar_name [of ?q cs] assms(2) by simp
  moreover have "ProcessTextChar 59 (?q\<lparr>current_text := ?t @ 38 # cs\<rparr>) = p\<lparr>current_text := ?t @ decode_entity cs\<rparr>"
    using assms(1) by (simp add: ProcessTextChar_def)
  ultimately show ?thesis by (simp add: start)
qed

lemma decode_entity_names:
  "decode_entity (L ''amp'') = [38]" "decode_entity (L ''lt'') = [60]" "decode_entity (L ''gt'') = [62]"
  "decode_entity (L ''apos'') = [39]" "decode_entity (L ''quot'') = [34]"
  by (simp_all add: decode_entity_def L_def)

lemma fold_ProcessTextChar_entity:
  assumes "entity_start p = -1"
  shows "fold ProcessTextChar (encode_char c) p = p\<lparr>current_text := current_text p @ [c]\<rparr>"
proof -
  have "fold ProcessTextChar (38 # L n @ [59]) p = p\<lparr>current_text := current_text p @ decode_entity (L n)\<rparr>"
    if "list_all (\<lambda>c. c \<noteq> 59) (L n)" for n
    using fold_ProcessTextChar_reference [OF assms that] .
  from this [of "''amp''"] this [of "''lt''"] this [of "''gt''"] this [of "''apos''"] this [of "''quot''"]
  show ?thesis
    unfolding decode_entity_names using assms
    by (simp add: encode_char_def L_def ProcessTextChar_def [of c])
qed

lemma fold_ProcessTextChar_encoded:
  "entity_start p = -1 \<Longrightarrow> fold ProcessTextChar (EncodeEntities s) p = p\<lparr>current_text := current_text p @ s\<rparr>"
  unfolding EncodeEntities_concat
proof (induction s arbitrary: p)
  case (Cons c s)
  then show ?case by (simp add: fold_ProcessTextChar_entity)
qed simp

lemma encoded_chars: "list_all (\<lambda>c. c \<noteq> 34 \<and> c \<noteq> 60) (EncodeEntities s)"
  unfolding EncodeEntities_concat by (induction s) (auto simp: encode_char_def L_def)

lemma runs_ProcessTextChar:
  assumes "\<And>q. Q q \<Longrightarrow> plain q" and "\<And>q c. Q q \<Longrightarrow> c \<in> set s \<Longrightarrow> step iswspace id [] c q = Go 1 (ProcessTextChar c q)"
    and "\<And>q c. Q q \<Longrightarrow> Q (ProcessTextChar c q)" and "Q p"
  shows "runs iswspace s p (fold ProcessTextChar s p)"
  using assms(2,4)
proof (induction s arbitrary: p)
  case Nil
  then show ?case by (simp add: runs_nil)
next
  case (Cons c s)
  have "runs iswspace s (ProcessTextChar c p) (fold ProcessTextChar s (ProcessTextChar c p))"
    by (rule Cons.IH) (use Cons.prems assms(3) in auto)
  then show ?case using runs_eat [OF assms(1) Cons.prems(1)] Cons.prems(2) by simp
qed

section \<open>Names\<close>

definition xml_name :: "wstring \<Rightarrow> bool" where
  "xml_name n \<longleftrightarrow> n \<noteq> [] \<and> IsXMLNameChar (hd n) True \<and> list_all (\<lambda>c. IsXMLNameChar c False) n"

lemma not_name_chars [simp]:
  "\<not> IsXMLNameChar 32 b" "\<not> IsXMLNameChar 33 b" "\<not> IsXMLNameChar 47 b" "\<not> IsXMLNameChar 60 b"
  "\<not> IsXMLNameChar 61 b" "\<not> IsXMLNameChar 62 b" "\<not> IsXMLNameChar 63 b" "\<not> IsXMLNameChar 9 b"
  "\<not> IsXMLNameChar 10 b" "\<not> IsXMLNameChar 13 b"
  by (simp_all add: IsXMLNameChar_def kXMLNameChars_def)

lemma name_char_not_white: "IsXMLNameChar c b \<Longrightarrow> \<not> IsXMLWhiteSpace c"
  using not_name_chars by (auto simp: IsXMLWhiteSpace_def)

text \<open>In the states that read a name, name characters are pushed.\<close>

lemma runs_name:
  assumes "current_parser_state p \<in> {Tag, AttriName, CloseElement}"
    and "list_all (\<lambda>c. IsXMLNameChar c False) n" and "n = [] \<or> current_text p \<noteq> [] \<or> IsXMLNameChar (hd n) True"
  shows "runs iswspace n p (p\<lparr>current_text := current_text p @ n\<rparr>)"
  using assms
proof (induction n arbitrary: p)
  case Nil
  then show ?case by (simp add: runs_nil)
next
  case (Cons c n)
  have c: "IsXMLNameChar c (current_text p = [])" using Cons.prems(2,3) by (cases "current_text p = []") auto
  have "plain p" using Cons.prems(1) by (auto simp: plain_def)
  moreover have "step iswspace id [] c p = Go 1 (push_text c p)"
    using Cons.prems(1) c name_char_not_white [OF c]
    by (auto simp: step_def step_Tag_def step_AttriName_def step_CloseElement_def)
  moreover have "runs iswspace n (push_text c p) (p\<lparr>current_text := current_text p @ c # n\<rparr>)"
    using Cons.IH [of "push_text c p"] Cons.prems by (simp add: push_text_def)
  ultimately show ?case by (rule runs_eat)
qed

section \<open>Positions in the written text\<close>

definition in_text :: "xml_node list \<Rightarrow> wstring \<Rightarrow> attrs \<Rightarrow> xml_node list \<Rightarrow> wstring \<Rightarrow> node_type list \<Rightarrow> xml_parser \<Rightarrow> bool" where
  "in_text up nm as cs pend st p \<longleftrightarrow> current_parser_state p = Text \<and> current_node p = XMLElement nm as cs # up \<and>
    current_text p = pend \<and> entity_start p = -1 \<and> node_type_stack p = st"

definition in_attr :: "xml_node list \<Rightarrow> wstring \<Rightarrow> attrs \<Rightarrow> node_type list \<Rightarrow> xml_parser \<Rightarrow> bool" where
  "in_attr up n as st p \<longleftrightarrow> current_parser_state p = AttriName \<and> current_node p = XMLElement n as [] # up \<and>
    current_text p = [] \<and> entity_start p = -1 \<and> node_type_stack p = kElement # st"

text \<open>The children after the pending text, if any, has become a node.\<close>

definition flush :: "xml_node list \<Rightarrow> wstring \<Rightarrow> xml_node list" where
  "flush cs pend = cs @ (if pend = [] then [] else [XMLText pend])"

lemmas position_defs = in_text_def in_attr_def

lemma run_text:
  assumes "in_text up nm as cs [] st p" and "st \<noteq> []"
  shows "\<exists>q. runs iswspace (EncodeEntities t) p q \<and> in_text up nm as cs t st q"
proof -
  let ?q = "fold ProcessTextChar (EncodeEntities t) p"
  have "runs iswspace (EncodeEntities t) p ?q"
    by (rule runs_ProcessTextChar [where Q = "\<lambda>q. current_parser_state q = Text \<and> node_type_stack q = st"])
      (use assms encoded_chars [of t] in \<open>auto simp: in_text_def plain_def step_def step_Text_def list_all_iff\<close>)
  moreover have "in_text up nm as cs t st ?q"
    using assms(1) by (simp add: in_text_def fold_ProcessTextChar_encoded)
  ultimately show ?thesis by blast
qed

lemma run_less_than:
  assumes "in_text up nm as cs pend st p"
  shows "\<exists>q. runs iswspace [60] p q \<and> current_parser_state q = Node \<and>
    current_node q = XMLElement nm as (flush cs pend) # up \<and> current_text q = [] \<and> entity_start q = -1 \<and>
    node_type_stack q = st"
proof (cases "pend = []")
  case True
  then have "step iswspace id [] 60 p = Go 1 (goto Node p)" "plain p"
    using assms by (simp_all add: in_text_def step_def step_Text_def plain_def)
  then have "runs iswspace [60] p (goto Node p)" by (blast intro: runs_eat runs_nil)
  then show ?thesis using assms True by (intro exI [of _ "goto Node p"]) (simp add: in_text_def goto_def flush_def)
next
  case False
  define q where "q = (GetTextData_text p)\<lparr>current_node := XMLElement nm as (flush cs pend) # up\<rparr>"
  have "step iswspace id [] 60 p = Go 0 q" "plain p" "step iswspace id [] 60 q = Go 1 (goto Node q)" "plain q"
    using assms False
    by (simp_all add: in_text_def step_def step_Text_def plain_def q_def GetTextData_text_def AppendLastChild_def flush_def)
  then have "runs iswspace [60] p (goto Node q)" by (blast intro: runs_eat runs_nil runs_stay)
  then show ?thesis using assms by (intro exI [of _ "goto Node q"]) (simp add: in_text_def goto_def q_def GetTextData_text_def)
qed

lemma run_eat1: "plain p \<Longrightarrow> step iswspace id [] c p = Go 1 q \<Longrightarrow> runs iswspace [c] p q"
  by (blast intro: runs_eat runs_nil)

lemma run_stay1: "plain p \<Longrightarrow> step iswspace id [] c p = Go 0 q \<Longrightarrow> runs iswspace (c # s) q r \<Longrightarrow> runs iswspace (c # s) p r"
  by (blast intro: runs_stay)

text \<open>An opening tag up to its first attribute or its end: the rest decides from the state after the name.\<close>

lemma run_open_tag:
  assumes "in_text up nm as cs pend st p" and n: "xml_name n" and rest: "c = 32 \<or> c = 62"
  shows "\<exists>q. in_attr (XMLElement nm as (flush cs pend) # up) n [] st q \<and>
    (\<forall>s r. runs iswspace (c # s) q r \<longrightarrow> runs iswspace (60 # n @ c # s) p r)"
proof -
  obtain p1 where p1: "runs iswspace [60] p p1" "current_parser_state p1 = Node"
    "current_node p1 = XMLElement nm as (flush cs pend) # up" "current_text p1 = []" "entity_start p1 = -1" "node_type_stack p1 = st"
    using run_less_than [OF assms(1)] by blast
  define p2 where "p2 = goto Tag (p1\<lparr>node_type_stack := kElement # st\<rparr>)"
  define p3 where "p3 = p2\<lparr>current_text := n\<rparr>"
  define q where "q = (GetTextData_text (goto AttriName p3))\<lparr>current_node := XMLElement n [] [] # current_node p1\<rparr>"
  obtain c0 n' where n': "n = c0 # n'" "IsXMLNameChar c0 True" using n by (cases n) (auto simp: xml_name_def)
  have "c0 \<noteq> 33" "c0 \<noteq> 47" "c0 \<noteq> 63" using n'(2) by auto
  then have "step iswspace id [] c0 p1 = Go 0 p2" "plain p1"
    using p1 by (auto simp: step_def step_Node_def p2_def plain_def)
  moreover have "runs iswspace n p2 p3"
    using runs_name [of p2 n iswspace] n p1 by (simp add: p3_def p2_def goto_def xml_name_def)
  ultimately have name: "runs iswspace n p1 p3" unfolding n'(1) by (blast intro: runs_stay)
  have "step iswspace id [] c p3 = Go 0 q" "plain p3"
    using rest p1 n'(1)
    by (auto simp: step_def step_Tag_def p3_def p2_def q_def goto_def plain_def OpenChild_def GetTextData_text_def)
  then have "runs iswspace (c # s) q r \<Longrightarrow> runs iswspace ([60] @ n @ (c # s)) p r" for s r
    by (meson run_stay1 runs_append p1(1) name)
  moreover have "in_attr (XMLElement nm as (flush cs pend) # up) n [] st q"
    using p1 by (simp add: in_attr_def q_def p3_def p2_def goto_def GetTextData_text_def)
  ultimately show ?thesis by auto
qed

lemma run_attribute:
  assumes "in_attr up n as st p" and k: "xml_name k"
  shows "\<exists>q. runs iswspace (AttributeToString k v) p q \<and> in_attr up n (SetAttribute k v as) st q"
proof -
  have pl: "plain q" if "current_parser_state q \<in> {AttriName, AttriEqualSign, AttriQuotation, AttriValue}" for q
    using that by (auto simp: plain_def)
  have "k \<noteq> []" using k by (simp add: xml_name_def)
  define p1 where "p1 = p\<lparr>current_text := k\<rparr>"
  define p2 where "p2 = GetTextData_text (goto AttriEqualSign (p1\<lparr>current_attribute_name := k\<rparr>))"
  define p3 where "p3 = goto AttriValue ((goto AttriQuotation p2)\<lparr>current_quote_character := 34\<rparr>)"
  define p4 where "p4 = p3\<lparr>current_text := v\<rparr>"
  define q where "q = (GetTextData_text (goto AttriName (p4\<lparr>current_quote_character := 0\<rparr>)))\<lparr>current_node :=
    XMLElement n (SetAttribute k v as) [] # up, current_attribute_name := []\<rparr>"
  note defs = p1_def p2_def p3_def p4_def q_def text_op_defs
  have white: "runs iswspace [32] p p"
    by (rule run_eat1) (use assms in \<open>simp_all add: pl in_attr_def step_def step_AttriName_def IsXMLWhiteSpace_def\<close>)
  have name: "runs iswspace k p p1"
    using runs_name [of p k iswspace] k assms(1) by (simp add: in_attr_def xml_name_def p1_def)
  have "step iswspace id [] 61 p1 = Go 0 p2" "plain p1" "step iswspace id [] 61 p2 = Go 1 (goto AttriQuotation p2)" "plain p2"
    using assms \<open>k \<noteq> []\<close>
    by (simp_all add: pl in_attr_def step_def step_AttriName_def step_AttriEqualSign_def IsXMLWhiteSpace_def defs)
  then have equals: "runs iswspace [61] p1 (goto AttriQuotation p2)" by (blast intro: runs_eat runs_stay runs_nil)
  have quote: "runs iswspace [34] (goto AttriQuotation p2) p3"
    by (rule run_eat1) (simp_all add: pl step_def step_AttriQuotation_def IsXMLWhiteSpace_def defs)
  have "runs iswspace (EncodeEntities v) p3 (fold ProcessTextChar (EncodeEntities v) p3)"
    by (rule runs_ProcessTextChar [where Q = "\<lambda>q. current_parser_state q = AttriValue \<and> current_quote_character q = 34"])
      (use encoded_chars [of v] in \<open>auto simp: pl step_def step_AttriValue_def list_all_iff ProcessTextChar_def Let_def defs\<close>)
  then have val: "runs iswspace (EncodeEntities v) p3 p4"
    using assms by (simp add: fold_ProcessTextChar_encoded in_attr_def defs)
  have close: "runs iswspace [34] p4 q"
    by (rule run_eat1) (use assms in \<open>simp_all add: pl step_def step_AttriValue_def in_attr_def Let_def defs\<close>)
  have "runs iswspace ([32] @ k @ [61] @ [34] @ EncodeEntities v @ [34]) p q"
    by (rule runs_append [OF white runs_append [OF name runs_append [OF equals
            runs_append [OF quote runs_append [OF val close]]]]])
  moreover have "in_attr up n (SetAttribute k v as) st q" using assms(1) by (simp add: in_attr_def defs)
  ultimately show ?thesis by (auto simp: AttributeToString_def L_def)
qed

lemma run_attributes:
  assumes "in_attr up n as st p" and "list_all (\<lambda>(k, v). xml_name k) kvs"
  shows "\<exists>q. runs iswspace (concat (map (\<lambda>(k, v). AttributeToString k v) kvs)) p q \<and>
    in_attr up n (fold (\<lambda>(k, v). SetAttribute k v) kvs as) st q"
  using assms
proof (induction kvs arbitrary: p as)
  case Nil
  then show ?case by (auto intro: runs_nil)
next
  case (Cons kv kvs)
  obtain k v where kv: "kv = (k, v)" by fastforce
  obtain p1 where p1: "runs iswspace (AttributeToString k v) p p1" "in_attr up n (SetAttribute k v as) st p1"
    using run_attribute Cons.prems kv by fastforce
  obtain q where "runs iswspace (concat (map (\<lambda>(k, v). AttributeToString k v) kvs)) p1 q"
    "in_attr up n (fold (\<lambda>(k, v). SetAttribute k v) kvs (SetAttribute k v as)) st q"
    using Cons.IH [OF p1(2)] Cons.prems(2) by auto
  then show ?case using runs_append [OF p1(1)] kv by auto
qed

text \<open>Closing an element joins it to its parent, whose text is then being read.\<close>

lemma run_close:
  assumes "current_parser_state p = CloseElement" and "current_node p = XMLElement n as cs # XMLElement nm bs ds # up"
    and "current_text p = [] \<or> current_text p = n" and "node_type_stack p = kElement # st"
  shows "\<exists>q. runs iswspace [62] p q \<and> in_text up nm bs (ds @ [XMLElement n as cs]) [] st q"
proof -
  obtain q where "step iswspace id [] 62 p = Go 1 q" "in_text up nm bs (ds @ [XMLElement n as cs]) [] st q"
    using assms by (auto simp: step_def step_CloseElement_def Let_def node_op_defs text_op_defs in_text_def)
  moreover have "plain p" using assms(1) by (simp add: plain_def)
  ultimately show ?thesis using run_eat1 by blast
qed

lemma run_slash:
  assumes "in_attr up n as st p"
  shows "\<exists>q. runs iswspace [32, 47] p q \<and> current_parser_state q = CloseElement \<and>
    current_node q = XMLElement n as [] # up \<and> current_text q = [] \<and> node_type_stack q = kElement # st"
proof -
  have "step iswspace id [] 32 p = Go 1 p" "step iswspace id [] 47 p = Go 0 (goto BreakElement p)"
    "step iswspace id [] 47 (goto BreakElement p) = Go 1 (goto CloseElement (goto BreakElement p))"
    "plain p" "plain (goto BreakElement p)"
    using assms by (simp_all add: in_attr_def step_def step_AttriName_def step_BreakElement_def IsXMLWhiteSpace_def goto_def plain_def)
  then have "runs iswspace [32, 47] p (goto CloseElement (goto BreakElement p))"
    by (blast intro: runs_eat runs_stay runs_nil)
  then show ?thesis using assms by (intro exI conjI) (auto simp: goto_def in_attr_def)
qed

lemma run_open_end:
  assumes "in_attr up n as st p"
  shows "\<exists>q. runs iswspace [62] p q \<and> in_text up n as [] [] (kElement # st) q"
proof -
  have "step iswspace id [] 62 p = Go 0 (goto BreakElement p)"
    "step iswspace id [] 62 (goto BreakElement p) = Go 1 (goto Text (goto BreakElement p))"
    "plain p" "plain (goto BreakElement p)"
    using assms by (simp_all add: in_attr_def step_def step_AttriName_def step_BreakElement_def IsXMLWhiteSpace_def goto_def plain_def)
  then have "runs iswspace [62] p (goto Text (goto BreakElement p))"
    by (blast intro: runs_eat runs_stay runs_nil)
  then show ?thesis using assms by (intro exI conjI) (auto simp: goto_def in_attr_def in_text_def)
qed

lemma run_end_tag:
  assumes "in_text (XMLElement nm bs ds # up) n as cs pend (kElement # st) p" and "xml_name n"
  shows "\<exists>q. runs iswspace ([60] @ [47] @ n @ [62]) p q \<and>
    in_text up nm bs (ds @ [XMLElement n as (flush cs pend)]) [] st q"
proof -
  obtain p1 where p1: "runs iswspace [60] p p1" "current_parser_state p1 = Node"
    "current_node p1 = XMLElement n as (flush cs pend) # XMLElement nm bs ds # up" "current_text p1 = []"
    "node_type_stack p1 = kElement # st"
    using run_less_than [OF assms(1)] by blast
  define p2 where "p2 = goto CloseElement p1"
  have slash: "runs iswspace [47] p1 p2"
    by (rule run_eat1) (use p1 in \<open>simp_all add: plain_def step_def step_Node_def p2_def\<close>)
  have name: "runs iswspace n p2 (p2\<lparr>current_text := n\<rparr>)"
    using runs_name [of p2 n iswspace] assms(2) p1 by (simp add: p2_def goto_def xml_name_def)
  obtain q where q: "runs iswspace [62] (p2\<lparr>current_text := n\<rparr>) q"
    "in_text up nm bs (ds @ [XMLElement n as (flush cs pend)]) [] st q"
    using run_close [of "p2\<lparr>current_text := n\<rparr>" n as "flush cs pend" nm bs ds up st] p1 by (auto simp: p2_def goto_def)
  show ?thesis using runs_append [OF p1(1) runs_append [OF slash runs_append [OF name q(1)]]] q(2) by blast
qed

section \<open>Whole elements\<close>

fun is_text :: "xml_node \<Rightarrow> bool" where
  "is_text (XMLText t) = True"
| "is_text _ = False"

text \<open>
  The trees that survive writing and parsing: elements and non-empty texts, no two texts side by side,
  XML names, attributes in the order of their map.
\<close>

fun wf_node :: "xml_node \<Rightarrow> bool" where
  "wf_node (XMLElement n as cs) \<longleftrightarrow> xml_name n \<and> attrs_sorted as \<and> list_all (\<lambda>(k, v). xml_name k) as \<and>
    (\<forall>c\<in>set cs. wf_node c) \<and> successively (\<lambda>a b. \<not> (is_text a \<and> is_text b)) cs"
| "wf_node (XMLText t) \<longleftrightarrow> t \<noteq> []"
| "wf_node _ \<longleftrightarrow> False"

lemma SetAttribute_last: "attrs_sorted (as @ [(k, v)]) \<Longrightarrow> SetAttribute k v as = as @ [(k, v)]"
proof (induction as)
  case (Cons a as)
  obtain l w where a: "a = (l, w)" by fastforce
  have "Compare l k < 0" "attrs_sorted (as @ [(k, v)])" using Cons.prems by (auto simp: attrs_sorted_def a)
  then show ?case using Cons.IH Compare_antisym [of k l] by (simp add: a)
qed simp

lemma fold_SetAttribute_sorted: "attrs_sorted as \<Longrightarrow> fold (\<lambda>(k, v). SetAttribute k v) as [] = as"
proof (induction as rule: rev_induct)
  case (snoc a as)
  obtain k v where a: "a = (k, v)" by fastforce
  have "attrs_sorted as" using snoc.prems by (simp add: attrs_sorted_def sorted_wrt_append)
  then show ?case using snoc SetAttribute_last [of as k v] by (simp add: a)
qed simp

abbreviation element_runs :: "(nat \<Rightarrow> bool) \<Rightarrow> xml_node \<Rightarrow> bool" where
  "element_runs iswspace e \<equiv> \<forall>up nm bs ds pend st p. in_text up nm bs ds pend st p \<longrightarrow>
    (\<exists>q. runs iswspace (save_chars e) p q \<and> in_text up nm bs (flush ds pend @ [e]) [] st q)"

lemma run_children:
  assumes "\<forall>c\<in>set cs. wf_node c \<and> (\<not> is_text c \<longrightarrow> element_runs iswspace c)"
    and "successively (\<lambda>a b. \<not> (is_text a \<and> is_text b)) cs"
    and "in_text up n as ks pend st p" and "st \<noteq> []" and "pend = [] \<or> cs = [] \<or> \<not> is_text (hd cs)"
  shows "\<exists>q ks' pend'. runs iswspace (concat (map save_chars cs)) p q \<and>
    in_text up n as ks' pend' st q \<and> flush ks' pend' = flush ks pend @ cs"
  using assms
proof (induction cs arbitrary: p ks pend)
  case Nil
  then show ?case by (auto intro: runs_nil)
next
  case (Cons c cs)
  have succ: "successively (\<lambda>a b. \<not> (is_text a \<and> is_text b)) cs" "is_text c \<Longrightarrow> cs = [] \<or> \<not> is_text (hd cs)"
    using Cons.prems(2) by (cases cs; simp)+
  obtain p1 ks1 pend1 where p1: "runs iswspace (save_chars c) p p1" "in_text up n as ks1 pend1 st p1"
    "flush ks1 pend1 = flush ks pend @ [c]" "pend1 = [] \<or> cs = [] \<or> \<not> is_text (hd cs)"
  proof (cases "is_text c")
    case True
    then obtain t where t: "c = XMLText t" by (cases c) auto
    have "pend = []" "t \<noteq> []" using Cons.prems(1,5) True t by auto
    then obtain q where "runs iswspace (save_chars c) p q" "in_text up n as ks t st q"
      using run_text [of up n as ks st p iswspace t] Cons.prems(3,4) t by auto
    then show ?thesis using that [of q ks t] \<open>pend = []\<close> \<open>t \<noteq> []\<close> succ(2) True t by (simp add: flush_def)
  next
    case False
    then obtain q where "runs iswspace (save_chars c) p q" "in_text up n as (flush ks pend @ [c]) [] st q"
      using Cons.prems(1,3) by (meson list.set_intros(1))
    then show ?thesis using that [of q "flush ks pend @ [c]" "[]"] by (simp add: flush_def)
  qed
  have "\<forall>c\<in>set cs. wf_node c \<and> (\<not> is_text c \<longrightarrow> element_runs iswspace c)" using Cons.prems(1) by simp
  from Cons.IH [OF this succ(1) p1(2) Cons.prems(4) p1(4)]
  obtain q ks' pend' where "runs iswspace (concat (map save_chars cs)) p1 q" "in_text up n as ks' pend' st q"
    "flush ks' pend' = flush ks1 pend1 @ cs" by blast
  then show ?case
    using runs_append [OF p1(1)] p1(3) by (intro exI [of _ q] exI [of _ ks'] exI [of _ pend']) simp
qed

lemma run_element: "wf_node e \<Longrightarrow> \<not> is_text e \<Longrightarrow> element_runs iswspace e"
proof (induction e)
  case (XMLElement n as cs)
  have wf: "xml_name n" "attrs_sorted as" "list_all (\<lambda>(k, v). xml_name k) as" using XMLElement.prems by simp_all
  define attrs where "attrs = concat (map (\<lambda>(k, v). AttributeToString k v) as)"
  define rest where "rest = attrs @ (if cs = [] then L '' />'' else L ''>'' @ concat (map save_chars cs) @ L ''</'' @ n @ L ''>'')"
  have chars: "save_chars (XMLElement n as cs) = 60 # n @ rest" by (simp add: rest_def attrs_def L_def)
  have "\<exists>c s. rest = c # s \<and> (c = 32 \<or> c = 62)"
    by (cases as) (auto simp: rest_def attrs_def AttributeToString_def L_def)
  then obtain c s where rest: "rest = c # s" "c = 32 \<or> c = 62" by blast
  show ?case
  proof (intro allI impI)
    fix up nm bs ds pend st p
    assume "in_text up nm bs ds pend st p"
    from run_open_tag [OF this wf(1) rest(2), of iswspace]
    obtain q0 where q0: "in_attr (XMLElement nm bs (flush ds pend) # up) n [] st q0"
      "\<And>r. runs iswspace rest q0 r \<Longrightarrow> runs iswspace (60 # n @ rest) p r" unfolding rest(1) by blast
    obtain q1 where q1: "runs iswspace attrs q0 q1" "in_attr (XMLElement nm bs (flush ds pend) # up) n as st q1"
      using run_attributes [OF q0(1) wf(3), of iswspace] fold_SetAttribute_sorted [OF wf(2)] by (auto simp: attrs_def)
    have "\<exists>r. runs iswspace rest q0 r \<and> in_text up nm bs (flush ds pend @ [XMLElement n as cs]) [] st r"
    proof (cases "cs = []")
      case True
      obtain q2 where q2: "runs iswspace [32, 47] q1 q2" "current_parser_state q2 = CloseElement"
        "current_node q2 = XMLElement n as [] # XMLElement nm bs (flush ds pend) # up" "current_text q2 = []"
        "node_type_stack q2 = kElement # st"
        using run_slash [OF q1(2)] by blast
      obtain r where "runs iswspace [62] q2 r" "in_text up nm bs (flush ds pend @ [XMLElement n as []]) [] st r"
        using run_close [OF q2(2,3) _ q2(5)] q2(4) by blast
      then show ?thesis
        using runs_append [OF q1(1) runs_append [OF q2(1)]] True by (auto simp: rest_def L_def)
    next
      case False
      obtain q2 where q2: "runs iswspace [62] q1 q2"
        "in_text (XMLElement nm bs (flush ds pend) # up) n as [] [] (kElement # st) q2"
        using run_open_end [OF q1(2)] by blast
      have kids: "\<forall>c\<in>set cs. wf_node c \<and> (\<not> is_text c \<longrightarrow> element_runs iswspace c)"
        using XMLElement by simp
      obtain q3 ks' pend' where q3: "runs iswspace (concat (map save_chars cs)) q2 q3"
        "in_text (XMLElement nm bs (flush ds pend) # up) n as ks' pend' (kElement # st) q3" "flush ks' pend' = cs"
        using run_children [OF kids _ q2(2)] XMLElement.prems by (auto simp: flush_def)
      obtain r where "runs iswspace ([60] @ [47] @ n @ [62]) q3 r"
        "in_text up nm bs (flush ds pend @ [XMLElement n as cs]) [] st r"
        using run_end_tag [OF q3(2) wf(1)] q3(3) by blast
      then show ?thesis
        using runs_append [OF q1(1) runs_append [OF q2(1) runs_append [OF q3(1)]]] False
        by (auto simp: rest_def L_def)
    qed
    then show "\<exists>q. runs iswspace (save_chars (XMLElement n as cs)) p q \<and>
        in_text up nm bs (flush ds pend @ [XMLElement n as cs]) [] st q"
      unfolding chars using q0(2) by blast
  qed
qed auto

lemma parse_saved:
  assumes "wf_node (XMLElement n as cs)" and "list_all (\<lambda>c. c < 0x80000000) (save_chars (XMLElement n as cs))"
  shows "Parse iswspace towlower kOtherCodePage (Save (XMLElement n as cs)) =
    Document (XMLElement (L ''root'') [] [XMLElement n as cs])"
proof -
  let ?e = "XMLElement n as cs"
  let ?data = "Save ?e"
  have hd: "hd (save_chars ?e) \<noteq> 0xFEFF" by (simp add: L_def)
  have blocks: "concat (read_blocks (min 1024 (length ?data)) (open_xml_stream kOtherCodePage ?data)) = save_chars ?e"
    unfolding Save_chars by (rule read_blocks_open [OF assms(2) disjI2 [OF hd]])
  have "in_text [] (L ''root'') [] [] [] [] initial_parser" by (simp add: in_text_def initial_parser_def)
  from run_element [OF assms(1), of iswspace, rule_format, OF _ this]
  obtain q where q: "runs iswspace (save_chars ?e) initial_parser q" "in_text [] (L ''root'') [] [?e] [] [] q"
    by (auto simp: flush_def)
  obtain m where "parse_blocks iswspace towlower (replicate (min 1024 (length ?data) + 1) 0)
      (read_blocks (min 1024 (length ?data)) (open_xml_stream kOtherCodePage ?data)) initial_parser = Go m q"
    using runs_parse_blocks [of iswspace _ initial_parser q] q(1) unfolding blocks [symmetric] by blast
  moreover have "?data \<noteq> []" by (simp add: L_def CFX_UTF8Encoder_Input_def)
  ultimately show ?thesis using q(2) by (simp add: Parse_def Let_def in_text_def)
qed

section \<open>Properties\<close>

text \<open>
  C3: parsing the bytes that \<open>CFX_XMLElement::Save\<close> writes for an element gives a document whose root
  element has exactly that element as its child: names, attributes with any characters in their values,
  nested elements and texts come back unchanged, whatever the length of the stream and wherever the
  1024-character blocks cut it.
\<close>

theorem xml_save_parse_roundtrip:
  assumes "wf_node (XMLElement n as cs)" and "list_all (\<lambda>c. c < 0x80000000) (save_chars (XMLElement n as cs))"
  shows "Parse iswspace towlower kOtherCodePage (Save (XMLElement n as cs)) =
    Document (XMLElement (L ''root'') [] [XMLElement n as cs])"
  using assms by (rule parse_saved)

theorem xml_save_parse_roundtrip_witness:
  "Parse (\<lambda>c. c = 32) (\<lambda>c. c) kOtherCodePage
      (Save (XMLElement (L ''a'') [(L ''b'', L ''<&>'')] [XMLText (L ''x&y''), XMLElement (L ''c'') [] []])) =
    Document (XMLElement (L ''root'') []
      [XMLElement (L ''a'') [(L ''b'', L ''<&>'')] [XMLText (L ''x&y''), XMLElement (L ''c'') [] []]])"
  by (rule xml_save_parse_roundtrip)
    (simp_all add: L_def xml_name_def IsXMLNameChar_def kXMLNameChars_def attrs_sorted_def AttributeToString_def
      EncodeEntities_concat encode_char_def)



text \<open>
  inside the data of an instruction a question mark that does not end it is dropped and the
  character after it is recorded twice.
\<close>

theorem instruction_question_mark_duplicates:
  assumes "current_parser_state p = TargetData" and "\<not> IsXMLWhiteSpace c" and "c \<noteq> 62" and "c \<noteq> 63" and "c \<noteq> 34"
  shows "parse_block iswspace towlower tail (63 # c # s) p =
    parse_block iswspace towlower tail s (p\<lparr>current_text := current_text p @ [c, c]\<rparr>)"
  using assms by (cases p) (simp add: parse_block.simps [of _ _ _ "_ # _"] step_def step_TargetData_def
      step_CloseInstruction_def text_op_defs IsXMLWhiteSpace_def)

theorem instruction_question_mark_duplicates_witness:
  "parse_block (\<lambda>c. c = 32) (\<lambda>c. c) [0] (L ''?b'') (goto TargetData initial_parser) =
    Go 0 ((goto TargetData initial_parser)\<lparr>current_text := L ''bb''\<rparr>)"
  using instruction_question_mark_duplicates [of "goto TargetData initial_parser" 98 "\<lambda>c. c = 32" "\<lambda>c. c" "[0]" "[]"]
  by (simp add: goto_def IsXMLWhiteSpace_def L_def initial_parser_def parse_block.simps [of _ _ _ "[]"])

end
