(* ===== verification/Tree_Node.thy ===== *)
theory Tree_Node
  imports Xilou_Prelude
begin

text \<open>
  The intrusive tree of src/core/fxcrt/tree_node.h, from which the XML nodes derive, and the two
  functions of cfx_xmlnode.cpp built on it.  Nodes are addresses of a store; a null pointer is
  \<open>None\<close>.  An operation returns \<open>None\<close> where the code aborts: a \<open>CHECK\<close> that fails or a null pointer
  that is followed.  The abstract view gives every node the list of its children, and each operation
  is shown to act on these lists as its name says.
\<close>

section \<open>The node store\<close>

type_synonym addr = nat

record tree_node =
  m_pParent :: "addr option"
  m_pFirstChild :: "addr option"
  m_pLastChild :: "addr option"
  m_pNextSibling :: "addr option"
  m_pPrevSibling :: "addr option"

definition empty_node :: tree_node where
  "empty_node = \<lparr>m_pParent = None, m_pFirstChild = None, m_pLastChild = None,
    m_pNextSibling = None, m_pPrevSibling = None\<rparr>"

type_synonym store = "addr \<Rightarrow> tree_node"

abbreviation set_parent :: "addr \<Rightarrow> addr option \<Rightarrow> store \<Rightarrow> store" where
  "set_parent a v h \<equiv> h(a := (h a)\<lparr>m_pParent := v\<rparr>)"

abbreviation set_first :: "addr \<Rightarrow> addr option \<Rightarrow> store \<Rightarrow> store" where
  "set_first a v h \<equiv> h(a := (h a)\<lparr>m_pFirstChild := v\<rparr>)"

abbreviation set_last :: "addr \<Rightarrow> addr option \<Rightarrow> store \<Rightarrow> store" where
  "set_last a v h \<equiv> h(a := (h a)\<lparr>m_pLastChild := v\<rparr>)"

abbreviation set_next :: "addr \<Rightarrow> addr option \<Rightarrow> store \<Rightarrow> store" where
  "set_next a v h \<equiv> h(a := (h a)\<lparr>m_pNextSibling := v\<rparr>)"

abbreviation set_prev :: "addr \<Rightarrow> addr option \<Rightarrow> store \<Rightarrow> store" where
  "set_prev a v h \<equiv> h(a := (h a)\<lparr>m_pPrevSibling := v\<rparr>)"

text \<open>\<open>CHECK\<close> aborts the program when its condition is false; \<open>deref\<close> follows a pointer.\<close>

definition CHECK :: "bool \<Rightarrow> store \<Rightarrow> store option" where
  "CHECK b h = (if b then Some h else None)"

definition deref :: "addr option \<Rightarrow> (addr \<Rightarrow> store \<Rightarrow> store) \<Rightarrow> store \<Rightarrow> store option" where
  "deref p f h = map_option (\<lambda>a. f a h) p"

section \<open>Operations\<close>

definition HasChild :: "addr \<Rightarrow> addr \<Rightarrow> store \<Rightarrow> bool" where
  "HasChild this child h \<longleftrightarrow> child \<noteq> this \<and> m_pParent (h child) = Some this"

fun nth_sibling :: "nat \<Rightarrow> addr option \<Rightarrow> store \<Rightarrow> addr option" where
  "nth_sibling 0 result h = result"
| "nth_sibling (Suc n) None h = None"
| "nth_sibling (Suc n) (Some a) h = nth_sibling n (m_pNextSibling (h a)) h"

definition GetNthChild :: "addr \<Rightarrow> int \<Rightarrow> store \<Rightarrow> addr option" where
  "GetNthChild this n h = (if n < 0 then None else nth_sibling (nat n) (m_pFirstChild (h this)) h)"

definition RemoveChild :: "addr \<Rightarrow> addr \<Rightarrow> store \<Rightarrow> store option" where
  "RemoveChild this child h0 =
    Option.bind (CHECK (HasChild this child h0) h0) (\<lambda>h.
    Option.bind
      (if m_pLastChild (h this) = Some child
       then map_option (set_last this (m_pPrevSibling (h child))) (CHECK (m_pNextSibling (h child) = None) h)
       else deref (m_pNextSibling (h child)) (\<lambda>nx. set_prev nx (m_pPrevSibling (h child))) h) (\<lambda>h.
    Option.bind
      (if m_pFirstChild (h this) = Some child
       then map_option (set_first this (m_pNextSibling (h child))) (CHECK (m_pPrevSibling (h child) = None) h)
       else deref (m_pPrevSibling (h child)) (\<lambda>pv. set_next pv (m_pNextSibling (h child))) h) (\<lambda>h.
    Some (set_next child None (set_prev child None (set_parent child None h))))))"

definition BecomeParent :: "addr \<Rightarrow> addr \<Rightarrow> store \<Rightarrow> store option" where
  "BecomeParent this child h0 =
    Option.bind (CHECK (child \<noteq> this) h0) (\<lambda>h.
    Option.bind (case m_pParent (h child) of None \<Rightarrow> Some h | Some p \<Rightarrow> RemoveChild p child h) (\<lambda>h.
    let h = set_parent child (Some this) h in
    Option.bind (CHECK (m_pNextSibling (h child) = None) h) (CHECK (m_pPrevSibling (h child) = None))))"

definition AppendFirstChild :: "addr \<Rightarrow> addr \<Rightarrow> store \<Rightarrow> store option" where
  "AppendFirstChild this child h0 =
    Option.bind (BecomeParent this child h0) (\<lambda>h.
    case m_pFirstChild (h this) of
      Some f \<Rightarrow> map_option (\<lambda>h. let h = set_prev f (Some child) h; h = set_next child (m_pFirstChild (h this)) h
          in set_first this (Some child) h) (CHECK (m_pLastChild (h this) \<noteq> None) h)
    | None \<Rightarrow> map_option (\<lambda>h. set_last this (Some child) (set_first this (Some child) h))
        (CHECK (m_pLastChild (h this) = None) h))"

definition AppendLastChild :: "addr \<Rightarrow> addr \<Rightarrow> store \<Rightarrow> store option" where
  "AppendLastChild this child h0 =
    Option.bind (BecomeParent this child h0) (\<lambda>h.
    case m_pLastChild (h this) of
      Some l \<Rightarrow> map_option (\<lambda>h. let h = set_next l (Some child) h; h = set_prev child (m_pLastChild (h this)) h
          in set_last this (Some child) h) (CHECK (m_pFirstChild (h this) \<noteq> None) h)
    | None \<Rightarrow> map_option (\<lambda>h. set_last this (Some child) (set_first this (Some child) h))
        (CHECK (m_pFirstChild (h this) = None) h))"

definition InsertBefore :: "addr \<Rightarrow> addr \<Rightarrow> addr option \<Rightarrow> store \<Rightarrow> store option" where
  "InsertBefore this child other h0 = (case other of None \<Rightarrow> AppendLastChild this child h0 | Some other \<Rightarrow>
    Option.bind (BecomeParent this child h0) (\<lambda>h.
    Option.bind (CHECK (HasChild this other h) h) (\<lambda>h.
    let h = set_next child (Some other) h; h = set_prev child (m_pPrevSibling (h other)) h in
    Option.bind
      (if m_pFirstChild (h this) = Some other
       then map_option (set_first this (Some child)) (CHECK (m_pPrevSibling (h other) = None) h)
       else deref (m_pPrevSibling (h other)) (\<lambda>pv. set_next pv (Some child)) h) (\<lambda>h.
    Some (set_prev other (Some child) h)))))"

definition InsertAfter :: "addr \<Rightarrow> addr \<Rightarrow> addr option \<Rightarrow> store \<Rightarrow> store option" where
  "InsertAfter this child other h0 = (case other of None \<Rightarrow> AppendFirstChild this child h0 | Some other \<Rightarrow>
    Option.bind (BecomeParent this child h0) (\<lambda>h.
    Option.bind (CHECK (HasChild this other h) h) (\<lambda>h.
    let h = set_next child (m_pNextSibling (h other)) h; h = set_prev child (Some other) h in
    Option.bind
      (if m_pLastChild (h this) = Some other
       then map_option (set_last this (Some child)) (CHECK (m_pNextSibling (h other) = None) h)
       else deref (m_pNextSibling (h other)) (\<lambda>nx. set_prev nx (Some child)) h) (\<lambda>h.
    Some (set_next other (Some child) h)))))"

text \<open>The loop runs until there is no first child; it aborts when a removal does.\<close>

partial_function (option) RemoveAllChildren :: "addr \<Rightarrow> store \<Rightarrow> store option" where
  "RemoveAllChildren this h = (case m_pFirstChild (h this) of None \<Rightarrow> Some h
    | Some child \<Rightarrow> Option.bind (RemoveChild this child h) (RemoveAllChildren this))"

definition RemoveSelfIfParented :: "addr \<Rightarrow> store \<Rightarrow> store option" where
  "RemoveSelfIfParented this h = (case m_pParent (h this) of None \<Rightarrow> Some h | Some p \<Rightarrow> RemoveChild p this h)"

definition InsertChildNode :: "addr \<Rightarrow> addr \<Rightarrow> int \<Rightarrow> store \<Rightarrow> store option" where
  "InsertChildNode this pNode index h = InsertBefore this pNode (GetNthChild this index h) h"

partial_function (option) GetRoot :: "addr \<Rightarrow> store \<Rightarrow> addr option" where
  "GetRoot pParent h = (case m_pParent (h pParent) of None \<Rightarrow> Some pParent | Some q \<Rightarrow> GetRoot q h)"

section \<open>Neighbours in a list\<close>

fun hd_opt :: "'a list \<Rightarrow> 'a option" where
  "hd_opt [] = None"
| "hd_opt (x # xs) = Some x"

fun next_in :: "'a list \<Rightarrow> 'a \<Rightarrow> 'a option" where
  "next_in [] c = None"
| "next_in (x # xs) c = (if x = c then hd_opt xs else next_in xs c)"

abbreviation last_opt :: "'a list \<Rightarrow> 'a option" where
  "last_opt xs \<equiv> hd_opt (rev xs)"

abbreviation prev_in :: "'a list \<Rightarrow> 'a \<Rightarrow> 'a option" where
  "prev_in xs c \<equiv> next_in (rev xs) c"

lemma hd_opt_append [simp]: "hd_opt (xs @ ys) = (case hd_opt xs of None \<Rightarrow> hd_opt ys | Some x \<Rightarrow> Some x)"
  by (cases xs) simp_all

lemma hd_opt_None [simp]: "hd_opt xs = None \<longleftrightarrow> xs = []" "None = hd_opt xs \<longleftrightarrow> xs = []"
  by (cases xs; simp)+

lemma hd_opt_Some_iff: "hd_opt xs = Some x \<longleftrightarrow> (\<exists>ys. xs = x # ys)"
  by (cases xs) auto

lemma next_in_notin [simp]: "c \<notin> set xs \<Longrightarrow> next_in xs c = None"
  by (induction xs) auto

lemma next_in_split: "c \<notin> set xs \<Longrightarrow> next_in (xs @ c # ys) c = hd_opt ys"
  by (induction xs) auto

lemma next_in_last: "distinct xs \<Longrightarrow> last_opt xs = Some d \<Longrightarrow> next_in (xs @ ys) d = hd_opt ys"
  by (auto simp: hd_opt_Some_iff rev_eq_Cons_iff next_in_split)

text \<open>Taking out or putting in one element changes the neighbours of the two beside it only.\<close>

lemma next_in_skip:
  assumes "distinct (xs @ c # ys)" and "d \<noteq> c"
  shows "next_in (xs @ ys) d = (if last_opt xs = Some d then hd_opt ys else next_in (xs @ c # ys) d)"
  using assms
proof (induction xs)
  case (Cons x xs)
  then show ?case by (cases xs rule: rev_cases) (auto split: option.splits)
qed simp

lemma prev_in_skip:
  assumes "distinct (xs @ c # ys)" and "d \<noteq> c"
  shows "prev_in (xs @ ys) d = (if hd_opt ys = Some d then last_opt xs else prev_in (xs @ c # ys) d)"
  using next_in_skip [of "rev ys" c "rev xs" d] assms by (auto simp: Int_commute)

section \<open>Child lists\<close>

text \<open>The store represents the child lists \<open>ks\<close>.\<close>

definition tree_ok :: "store \<Rightarrow> (addr \<Rightarrow> addr list) \<Rightarrow> bool" where
  "tree_ok h ks \<longleftrightarrow>
    (\<forall>p. distinct (ks p) \<and> p \<notin> set (ks p) \<and>
      m_pFirstChild (h p) = hd_opt (ks p) \<and> m_pLastChild (h p) = last_opt (ks p)) \<and>
    (\<forall>p c. m_pParent (h c) = Some p \<longleftrightarrow> c \<in> set (ks p)) \<and>
    (\<forall>c. m_pNextSibling (h c) = Option.bind (m_pParent (h c)) (\<lambda>p. next_in (ks p) c) \<and>
      m_pPrevSibling (h c) = Option.bind (m_pParent (h c)) (\<lambda>p. prev_in (ks p) c))"

definition unlink :: "addr \<Rightarrow> addr \<Rightarrow> addr list \<Rightarrow> addr list \<Rightarrow> store \<Rightarrow> store" where
  "unlink p c xs ys h = (\<lambda>a. \<lparr>
    m_pParent = (if a = c then None else m_pParent (h a)),
    m_pFirstChild = (if a = p then hd_opt (xs @ ys) else m_pFirstChild (h a)),
    m_pLastChild = (if a = p then last_opt (xs @ ys) else m_pLastChild (h a)),
    m_pNextSibling = (if a = c then None else if last_opt xs = Some a then hd_opt ys else m_pNextSibling (h a)),
    m_pPrevSibling = (if a = c then None else if hd_opt ys = Some a then last_opt xs else m_pPrevSibling (h a))\<rparr>)"

definition link :: "addr \<Rightarrow> addr \<Rightarrow> addr list \<Rightarrow> addr list \<Rightarrow> store \<Rightarrow> store" where
  "link p c xs ys h = (\<lambda>a. \<lparr>
    m_pParent = (if a = c then Some p else m_pParent (h a)),
    m_pFirstChild = (if a = p then hd_opt (xs @ c # ys) else m_pFirstChild (h a)),
    m_pLastChild = (if a = p then last_opt (xs @ c # ys) else m_pLastChild (h a)),
    m_pNextSibling = (if a = c then hd_opt ys else if last_opt xs = Some a then Some c else m_pNextSibling (h a)),
    m_pPrevSibling = (if a = c then last_opt xs else if hd_opt ys = Some a then Some c else m_pPrevSibling (h a))\<rparr>)"

lemma tree_okD:
  assumes "tree_ok h ks"
  shows "distinct (ks p)" "p \<notin> set (ks p)" "m_pFirstChild (h p) = hd_opt (ks p)"
    "m_pLastChild (h p) = last_opt (ks p)" "m_pParent (h c) = Some p \<longleftrightarrow> c \<in> set (ks p)"
    "m_pNextSibling (h c) = Option.bind (m_pParent (h c)) (\<lambda>p. next_in (ks p) c)"
    "m_pPrevSibling (h c) = Option.bind (m_pParent (h c)) (\<lambda>p. prev_in (ks p) c)"
  using assms unfolding tree_ok_def by simp_all

lemma last_opt_in [dest]: "last_opt xs = Some d \<Longrightarrow> d \<in> set xs"
  by (auto simp: hd_opt_Some_iff rev_eq_Cons_iff)

lemma hd_opt_in [dest]: "hd_opt xs = Some d \<Longrightarrow> d \<in> set xs"
  by (auto simp: hd_opt_Some_iff)

lemma tree_ok_unlink:
  assumes "tree_ok h ks" and split: "ks p = xs @ c # ys"
  shows "tree_ok (unlink p c xs ys h) (ks(p := xs @ ys))"
proof -
  note ok = tree_okD [OF assms(1)]
  have d: "distinct (xs @ c # ys)" "c \<noteq> p" "p \<notin> set (xs @ ys)" using ok(1,2) [of p] split by auto
  have par: "m_pParent (h a) = Some p \<longleftrightarrow> a \<in> set (xs @ c # ys)" for a using ok(5) split by metis
  show ?thesis
    unfolding tree_ok_def
  proof (intro conjI allI, goal_cases)
    case (1 q) then show ?case using ok(1) d by simp
  next
    case (2 q) then show ?case using ok(2) d by simp
  next
    case (3 q) then show ?case using ok(3) d by (simp add: unlink_def)
  next
    case (4 q) then show ?case using ok(4) d by (simp add: unlink_def)
  next
    case (5 q a) then show ?case using ok(5) [of a q] par [of a] d par [of c] by (auto simp: unlink_def)
  next
    case (6 a)
    then show ?case
      using ok(6) [of a] next_in_skip [OF d(1), of a] par [of a] split
      by (cases "m_pParent (h a)") (auto simp: unlink_def split: if_splits)
  next
    case (7 a)
    then show ?case
      using ok(7) [of a] prev_in_skip [OF d(1), of a] par [of a] split
      by (cases "m_pParent (h a)") (auto simp: unlink_def split: if_splits)
  qed
qed

lemma tree_ok_link:
  assumes "tree_ok h ks" and split: "ks p = xs @ ys" and "m_pParent (h c) = None" and "c \<noteq> p"
  shows "tree_ok (link p c xs ys h) (ks(p := xs @ c # ys))"
proof -
  note ok = tree_okD [OF assms(1)]
  have c: "c \<notin> set (ks q)" for q using ok(5) [of c q] assms(3) by simp
  have d: "distinct (xs @ c # ys)" "p \<notin> set (xs @ c # ys)" using ok(1,2) [of p] split c [of p] assms(4) by auto
  have par: "m_pParent (h a) = Some p \<longleftrightarrow> a \<in> set (xs @ ys)" for a using ok(5) split by metis
  show ?thesis
    unfolding tree_ok_def
  proof (intro conjI allI, goal_cases)
    case (1 q) then show ?case using ok(1) d by simp
  next
    case (2 q) then show ?case using ok(2) d by simp
  next
    case (3 q) then show ?case using ok(3) d by (simp add: link_def)
  next
    case (4 q) then show ?case using ok(4) d by (simp add: link_def)
  next
    case (5 q a) then show ?case using ok(5) [of a q] par [of a] d c [of q] by (auto simp: link_def)
  next
    case (6 a)
    then show ?case
      using ok(6) [of a] next_in_skip [OF d(1), of a] next_in_split [of c xs ys]
        next_in_last [of xs a "c # ys"] par [of a] split d
      by (cases "m_pParent (h a)") (auto simp: link_def split: if_splits)
  next
    case (7 a)
    then show ?case
      using ok(7) [of a] prev_in_skip [OF d(1), of a] next_in_split [of c "rev ys" "rev xs"]
        next_in_last [of "rev ys" a "c # rev xs"] par [of a] split d
      by (cases "m_pParent (h a)") (auto simp: link_def split: if_splits)
  qed
qed


section \<open>The operations on child lists\<close>

lemma map_CHECK: "map_option f (CHECK b h) = (if b then Some (f h) else None)"
  by (simp add: CHECK_def)

lemmas store_op_defs = map_CHECK CHECK_def deref_def Let_def

lemma tree_ok_at:
  assumes "tree_ok h ks" and "ks p = xs @ c # ys"
  shows "m_pParent (h c) = Some p" "m_pNextSibling (h c) = hd_opt ys" "m_pPrevSibling (h c) = last_opt xs"
    "c \<noteq> p" "c \<notin> set xs" "c \<notin> set ys" "p \<notin> set xs" "p \<notin> set ys" "set xs \<inter> set ys = {}"
    "distinct xs" "distinct ys"
proof -
  note ok = tree_okD [OF assms(1)]
  show 1: "m_pParent (h c) = Some p" using ok(5) [of c p] assms(2) by simp
  show "c \<noteq> p" "p \<notin> set xs" "p \<notin> set ys" using ok(2) [of p] assms(2) by auto
  show 2: "c \<notin> set xs" "c \<notin> set ys" "set xs \<inter> set ys = {}" "distinct xs" "distinct ys"
    using ok(1) [of p] assms(2) by auto
  show "m_pNextSibling (h c) = hd_opt ys" using ok(6) [of c] 1 2 assms(2) by (simp add: next_in_split)
  show "m_pPrevSibling (h c) = last_opt xs" using ok(7) [of c] 1 2 assms(2) by (simp add: next_in_split)
qed

lemma RemoveChild_unlink:
  assumes "tree_ok h ks" and "ks p = xs @ c # ys"
  shows "RemoveChild p c h = Some (unlink p c xs ys h)"
proof -
  note at = tree_ok_at [OF assms]
  have ends: "m_pFirstChild (h p) = hd_opt (xs @ c # ys)" "m_pLastChild (h p) = last_opt (xs @ c # ys)"
    using tree_okD(3,4) [OF assms(1), of p] assms(2) by simp_all
  show ?thesis
    by (cases xs rule: rev_cases; cases ys)
      (use at ends in \<open>auto simp: RemoveChild_def store_op_defs HasChild_def unlink_def fun_eq_iff split: option.splits\<close>)
qed


text \<open>The child lists after a node has been taken out of its parent's list.\<close>

definition detach :: "addr \<Rightarrow> (addr \<Rightarrow> addr list) \<Rightarrow> addr \<Rightarrow> addr list" where
  "detach c ks = (\<lambda>p. removeAll c (ks p))"

lemma detach_parent:
  assumes "tree_ok h ks" and "ks p = xs @ c # ys"
  shows "detach c ks = ks(p := xs @ ys)"
proof (rule ext)
  fix q
  show "detach c ks q = (ks(p := xs @ ys)) q"
    using tree_okD(5) [OF assms(1), of c q] tree_ok_at(1,5,6) [OF assms] assms(2)
    by (auto simp: detach_def removeAll_id)
qed

lemma detach_orphan: "tree_ok h ks \<Longrightarrow> m_pParent (h c) = None \<Longrightarrow> detach c ks = ks"
  using tree_okD(5) [of h ks c] by (auto simp: detach_def fun_eq_iff intro!: removeAll_id)

lemma RemoveSelfIfParented_detach:
  assumes "tree_ok h ks"
  obtains h1 where "RemoveSelfIfParented c h = Some h1" "tree_ok h1 (detach c ks)" "m_pParent (h1 c) = None"
proof (cases "m_pParent (h c)")
  case None
  then show ?thesis using that [of h] assms by (simp add: RemoveSelfIfParented_def detach_orphan)
next
  case (Some p)
  then obtain xs ys where "ks p = xs @ c # ys" using tree_okD(5) [OF assms] by (metis split_list)
  then show ?thesis
    using that [of "unlink p c xs ys h"] Some assms tree_ok_unlink [OF assms]
    by (simp add: RemoveSelfIfParented_def RemoveChild_unlink detach_parent) (simp add: unlink_def)
qed

lemma BecomeParent_detach:
  assumes "tree_ok h ks" and "c \<noteq> p"
  obtains h1 where "BecomeParent p c h = Some (set_parent c (Some p) h1)" "tree_ok h1 (detach c ks)"
    "m_pParent (h1 c) = None"
proof -
  obtain h1 where h1: "RemoveSelfIfParented c h = Some h1" "tree_ok h1 (detach c ks)" "m_pParent (h1 c) = None"
    using RemoveSelfIfParented_detach [OF assms(1)] .
  then show ?thesis
    using that [of h1] assms(2) tree_okD(6,7) [OF h1(2), of c]
    by (simp add: BecomeParent_def RemoveSelfIfParented_def store_op_defs)
qed

text \<open>What an insertion finds when the child has become an orphan, and where it goes.\<close>

definition ready :: "store \<Rightarrow> (addr \<Rightarrow> addr list) \<Rightarrow> addr \<Rightarrow> addr \<Rightarrow> addr list \<Rightarrow> addr list \<Rightarrow> bool" where
  "ready h ks p c xs ys \<longleftrightarrow> tree_ok h ks \<and> m_pParent (h c) = None \<and> c \<noteq> p \<and> ks p = xs @ ys"

lemma readyD:
  assumes "ready h ks p c xs ys"
  shows "m_pFirstChild (h p) = hd_opt (xs @ ys)" "m_pLastChild (h p) = last_opt (xs @ ys)" "c \<noteq> p"
    "m_pNextSibling (h c) = None" "m_pPrevSibling (h c) = None" "c \<notin> set xs" "c \<notin> set ys"
    "p \<notin> set xs" "p \<notin> set ys" "distinct (xs @ ys)"
    "a \<in> set (xs @ ys) \<Longrightarrow> m_pParent (h a) = Some p"
    "a \<in> set (xs @ ys) \<Longrightarrow> m_pNextSibling (h a) = next_in (xs @ ys) a"
    "a \<in> set (xs @ ys) \<Longrightarrow> m_pPrevSibling (h a) = prev_in (xs @ ys) a"
proof -
  have ok: "tree_ok h ks" and c: "m_pParent (h c) = None" "c \<noteq> p" and ks: "ks p = xs @ ys"
    using assms by (auto simp: ready_def)
  note ok = tree_okD [OF ok]
  show "m_pFirstChild (h p) = hd_opt (xs @ ys)" "m_pLastChild (h p) = last_opt (xs @ ys)"
    using ok(3,4) [of p] ks by simp_all
  show "c \<noteq> p" "m_pNextSibling (h c) = None" "m_pPrevSibling (h c) = None"
    using c ok(6,7) [of c] by simp_all
  show "c \<notin> set xs" "c \<notin> set ys" using ok(5) [of c p] c ks by auto
  show "p \<notin> set xs" "p \<notin> set ys" "distinct (xs @ ys)" using ok(1,2) [of p] ks by auto
  assume a: "a \<in> set (xs @ ys)"
  then show par: "m_pParent (h a) = Some p" using ok(5) [of a p] ks by simp
  show "m_pNextSibling (h a) = next_in (xs @ ys) a" "m_pPrevSibling (h a) = prev_in (xs @ ys) a"
    using ok(6,7) [of a] par ks by simp_all
qed


lemma AppendLastChild_link:
  assumes "BecomeParent p c h0 = Some (set_parent c (Some p) h)" and "ready h ks p c xs []"
  shows "AppendLastChild p c h0 = Some (link p c xs [] h)"
  by (cases xs rule: rev_cases; use readyD [OF assms(2)] assms(1) in
    \<open>auto simp: AppendLastChild_def store_op_defs link_def fun_eq_iff simp del: map_option_eq_Some
        split: option.splits\<close>)




lemma BecomeParent_ready:
  assumes "tree_ok h ks" and "c \<noteq> p" and "removeAll c (ks p) = xs @ ys"
  obtains h1 where "BecomeParent p c h = Some (set_parent c (Some p) h1)" "ready h1 (detach c ks) p c xs ys"
    "tree_ok (link p c xs ys h1) ((detach c ks)(p := xs @ c # ys))"
  using BecomeParent_detach [OF assms(1,2)] that assms(2,3) tree_ok_link [of _ "detach c ks" p xs ys c]
  by (auto simp: ready_def detach_def)


lemma AppendLastChild_ok:
  assumes "tree_ok h ks" and "c \<noteq> p"
  shows "\<exists>h'. AppendLastChild p c h = Some h' \<and> tree_ok h' ((detach c ks)(p := removeAll c (ks p) @ [c]))"
  using BecomeParent_ready [OF assms, of "removeAll c (ks p)" "[]"] AppendLastChild_link by fastforce



lemma RemoveChild_ok:
  assumes "tree_ok h ks" and "c \<in> set (ks p)"
  shows "\<exists>h'. RemoveChild p c h = Some h' \<and> tree_ok h' (detach c ks) \<and> m_pParent (h' c) = None"
proof -
  obtain xs ys where s: "ks p = xs @ c # ys" using assms(2) by (metis split_list)
  show ?thesis
    using RemoveChild_unlink [OF assms(1) s] tree_ok_unlink [OF assms(1) s]
    by (simp add: detach_parent [OF assms(1) s]) (simp add: unlink_def)
qed

lemma RemoveChild_stranger: "tree_ok h ks \<Longrightarrow> c \<notin> set (ks p) \<Longrightarrow> RemoveChild p c h = None"
  by (simp add: RemoveChild_def CHECK_def HasChild_def tree_okD(5))

lemma RemoveAllChildren_ok:
  assumes "tree_ok h ks"
  shows "\<exists>h'. RemoveAllChildren p h = Some h' \<and> tree_ok h' (ks(p := []))"
  using assms
proof (induction "ks p" arbitrary: h ks)
  case Nil
  then have "ks(p := []) = ks" by (metis fun_upd_triv)
  then show ?case using Nil tree_okD(3) [OF Nil.prems, of p]
    by (simp add: RemoveAllChildren.simps [of p h])
next
  case (Cons c cs)
  have s: "ks p = [] @ c # cs" using Cons.hyps(2) by simp
  note un = RemoveChild_unlink [OF Cons.prems s] tree_ok_unlink [OF Cons.prems s]
  show ?case
    using Cons.hyps(1) [of "ks(p := cs)" "unlink p c [] cs h"] un tree_okD(3) [OF Cons.prems, of p] s
    by (simp add: RemoveAllChildren.simps [of p h])
qed

lemma nth_sibling_ok:
  assumes "tree_ok h ks" and "ks p = xs @ ys"
  shows "nth_sibling n (hd_opt ys) h = (if n < length ys then Some (ys ! n) else None)"
  using assms(2)
proof (induction n arbitrary: xs ys)
  case 0
  then show ?case by (cases ys) simp_all
next
  case (Suc n)
  show ?case
  proof (cases ys)
    case (Cons y zs)
    then show ?thesis using Suc.IH [of "xs @ [y]" zs] Suc.prems tree_ok_at(2) [OF assms(1), of p xs y zs] by simp
  qed simp
qed

lemma GetNthChild_ok:
  "tree_ok h ks \<Longrightarrow> GetNthChild p n h = (if 0 \<le> n \<and> nat n < length (ks p) then Some (ks p ! nat n) else None)"
  using nth_sibling_ok [of h ks p "[]" "ks p" "nat n"] tree_okD(3) [of h ks p] by (simp add: GetNthChild_def)


text \<open>Following parents reaches a node without one when the tree has no cycle.\<close>

lemma GetRoot_ok:
  assumes "\<And>a p. m_pParent (h a) = Some p \<Longrightarrow> depth p < (depth a :: nat)"
  shows "\<exists>r. GetRoot a h = Some r \<and> m_pParent (h r) = None"
proof (induction "depth a" arbitrary: a rule: less_induct)
  case less
  then show ?case
    by (cases "m_pParent (h a)") (auto simp: GetRoot.simps [of a h] dest: assms)
qed

section \<open>The interface its clients use\<close>

text \<open>
  What the XML layer relies on: a relation between a store and child lists, an operation that appends
  a child and one that gives the child at a position.
\<close>

locale child_lists =
  fixes rep :: "'h \<Rightarrow> ('a \<Rightarrow> 'a list) \<Rightarrow> bool"
    and append :: "'a \<Rightarrow> 'a \<Rightarrow> 'h \<Rightarrow> 'h option"
    and remove :: "'a \<Rightarrow> 'a \<Rightarrow> 'h \<Rightarrow> 'h option"
    and nth :: "'a \<Rightarrow> int \<Rightarrow> 'h \<Rightarrow> 'a option"
  assumes append_rep: "rep h ks \<Longrightarrow> c \<noteq> p \<Longrightarrow>
      \<exists>h'. append p c h = Some h' \<and> rep h' ((\<lambda>q. removeAll c (ks q))(p := removeAll c (ks p) @ [c]))"
    and remove_rep: "rep h ks \<Longrightarrow> c \<in> set (ks p) \<Longrightarrow>
      \<exists>h'. remove p c h = Some h' \<and> rep h' (\<lambda>q. removeAll c (ks q))"
    and nth_rep: "rep h ks \<Longrightarrow> nth p n h = (if 0 \<le> n \<and> nat n < length (ks p) then Some (ks p ! nat n) else None)"
begin

lemma append_many:
  assumes "rep h ks" and "distinct cs" and "p \<notin> set cs" and "\<And>q. set cs \<inter> set (ks q) = {}"
  shows "\<exists>h'. fold (\<lambda>c r. Option.bind r (append p c)) cs (Some h) = Some h' \<and> rep h' (ks(p := ks p @ cs))"
  using assms
proof (induction cs arbitrary: h ks)
  case Nil
  then show ?case by simp
next
  case (Cons c cs)
  have fresh: "removeAll c (ks q) = ks q" for q using Cons.prems(4) [of q] by (intro removeAll_id) auto
  obtain h1 where h1: "append p c h = Some h1" "rep h1 (ks(p := ks p @ [c]))"
    using append_rep [OF Cons.prems(1), of c p] Cons.prems(3) by (auto simp: fresh)
  have "set cs \<inter> set ((ks(p := ks p @ [c])) q) = {}" for q
    using Cons.prems(2) Cons.prems(4) [of q] Cons.prems(4) [of p] by auto
  from Cons.IH [OF h1(2) _ _ this] show ?case using Cons.prems h1(1) by (simp cong: if_cong)
qed

lemma append_many_nth:
  assumes "rep h ks" and "ks p = []" and "distinct cs" and "p \<notin> set cs" and "\<And>q. set cs \<inter> set (ks q) = {}"
  shows "\<exists>h'. fold (\<lambda>c r. Option.bind r (append p c)) cs (Some h) = Some h' \<and>
    map (\<lambda>i. nth p (int i) h') [0..<length cs] = map Some cs \<and> nth p (int (length cs)) h' = None"
proof -
  obtain h' where h': "fold (\<lambda>c r. Option.bind r (append p c)) cs (Some h) = Some h'" "rep h' (ks(p := cs))"
    using append_many [OF assms(1,3,4,5)] assms(2) by auto
  have "map (\<lambda>i. nth p (int i) h') [0..<length cs] = map Some cs"
    by (rule nth_equalityI) (simp_all add: nth_rep [OF h'(2)])
  then show ?thesis using h' by (auto simp: nth_rep [OF h'(2)])
qed

text \<open>Moving a child to the end of another node's list takes it out of the list it was in.\<close>

lemma move:
  assumes "rep h ks" and "c \<in> set (ks p)" and "q \<noteq> p" and "c \<noteq> q" and "c \<notin> set (ks q)"
  shows "\<exists>h' ks'. append q c h = Some h' \<and> rep h' ks' \<and> ks' p = removeAll c (ks p) \<and> ks' q = ks q @ [c]"
  using append_rep [OF assms(1,4)] assms by (force simp: removeAll_id)

end

interpretation tree: child_lists tree_ok AppendLastChild RemoveChild GetNthChild
proof (unfold_locales, goal_cases)
  case (1 h ks c p)
  then show ?case using AppendLastChild_ok by (simp add: detach_def)
next
  case (2 h ks c p)
  then show ?case using RemoveChild_ok by (fastforce simp: detach_def)
next
  case (3 h ks p n)
  then show ?case by (rule GetNthChild_ok)
qed

text \<open>Inserting a node beside itself: the node is taken out first, and then its own neighbour is null.\<close>

lemma InsertBefore_self:
  assumes "tree_ok h ks" and "c \<in> set (ks p)"
  shows "InsertBefore p c (Some c) h = None" "InsertAfter p c (Some c) h = None"
proof -
  have "c \<noteq> p" using tree_okD(2) [OF assms(1)] assms(2) by metis
  then obtain h1 where b: "BecomeParent p c h = Some (set_parent c (Some p) h1)"
      "ready h1 (detach c ks) p c (removeAll c (ks p)) []"
    using BecomeParent_ready [OF assms(1), of c p "removeAll c (ks p)" "[]"] by auto
  have n: "hd_opt (removeAll c (ks p)) \<noteq> Some c" "last_opt (removeAll c (ks p)) \<noteq> Some c"
    using hd_opt_in [of "removeAll c (ks p)" c] last_opt_in [of "removeAll c (ks p)" c] by auto
  show "InsertBefore p c (Some c) h = None" "InsertAfter p c (Some c) h = None"
    using b(1) readyD(1-5) [OF b(2)] n
    by (simp_all add: InsertBefore_def InsertAfter_def store_op_defs HasChild_def)
qed

section \<open>Properties\<close>



definition two_children :: store where
  "two_children = (\<lambda>a. if a = 0 then empty_node\<lparr>m_pFirstChild := Some 1, m_pLastChild := Some 2\<rparr>
    else if a = 1 then empty_node\<lparr>m_pParent := Some 0, m_pNextSibling := Some 2\<rparr>
    else if a = 2 then empty_node\<lparr>m_pParent := Some 0, m_pPrevSibling := Some 1\<rparr> else empty_node)"

lemma two_children_ok: "tree_ok two_children (\<lambda>p. if p = 0 then [1, 2] else [])"
  by (auto simp: tree_ok_def two_children_def empty_node_def)


text \<open>
  C22: removal takes a child out of its parent's list, aborts on a node that is not a child, and the loop
  that removes all children ends with an empty list; the other lists are kept.
\<close>

theorem tree_removals_refine_lists:
  assumes "tree_ok h ks"
  shows "(if child \<in> set (ks this)
      then \<exists>h'. RemoveChild this child h = Some h' \<and> tree_ok h' (\<lambda>q. removeAll child (ks q)) \<and> m_pParent (h' child) = None
      else RemoveChild this child h = None) \<and>
    (\<exists>h'. RemoveSelfIfParented child h = Some h' \<and> tree_ok h' (\<lambda>q. removeAll child (ks q))) \<and>
    (\<exists>h'. RemoveAllChildren this h = Some h' \<and> tree_ok h' (ks(this := [])))"
proof (intro conjI)
  show "if child \<in> set (ks this)
      then \<exists>h'. RemoveChild this child h = Some h' \<and> tree_ok h' (\<lambda>q. removeAll child (ks q)) \<and> m_pParent (h' child) = None
      else RemoveChild this child h = None"
    using RemoveChild_ok [OF assms, of child this] RemoveChild_stranger [OF assms, of child this]
    by (simp add: detach_def)
  show "\<exists>h'. RemoveSelfIfParented child h = Some h' \<and> tree_ok h' (\<lambda>q. removeAll child (ks q))"
    by (rule RemoveSelfIfParented_detach [OF assms, of child]) (auto simp: detach_def)
  show "\<exists>h'. RemoveAllChildren this h = Some h' \<and> tree_ok h' (ks(this := []))"
    by (rule RemoveAllChildren_ok [OF assms])
qed

theorem tree_removals_refine_lists_witness:
  "\<exists>h'. RemoveAllChildren 0 two_children = Some h' \<and> tree_ok h' ((\<lambda>p. if p = 0 then [1, 2] else [])(0 := []))"
  using tree_removals_refine_lists [OF two_children_ok, of 1 0] by blast

text \<open>
  appending new children one after the other, as the XML parser does, succeeds, and reading the
  children by position gives them in the order they were appended and null past the end.
\<close>

theorem tree_append_then_read:
  assumes "tree_ok h ks" and "ks this = []" and "distinct cs" and "this \<notin> set cs"
    and "\<And>q. set cs \<inter> set (ks q) = {}"
  shows "\<exists>h'. fold (\<lambda>c r. Option.bind r (AppendLastChild this c)) cs (Some h) = Some h' \<and>
    map (\<lambda>i. GetNthChild this (int i) h') [0..<length cs] = map Some cs \<and>
    GetNthChild this (int (length cs)) h' = None"
  by (rule tree.append_many_nth [OF assms])

theorem tree_append_then_read_witness:
  "\<exists>h'. fold (\<lambda>c r. Option.bind r (AppendLastChild 5 c)) [6, 7] (Some two_children) = Some h' \<and>
    map (\<lambda>i. GetNthChild 5 (int i) h') [0..<2] = [Some 6, Some 7] \<and> GetNthChild 5 2 h' = None"
  using tree_append_then_read [OF two_children_ok, of 5 "[6, 7]"] by (auto simp: numeral_2_eq_2)

text \<open>
  placing a node at the position it already has fails: the node is taken out of the list before its
  position is looked at, and its own null sibling pointer is then followed.
\<close>

theorem insert_child_at_own_index_aborts:
  assumes "tree_ok h ks" and "n < length (ks this)"
  shows "InsertChildNode this (ks this ! n) (int n) h = None"
  using InsertBefore_self(1) [OF assms(1), of "ks this ! n" this] assms
  by (simp add: InsertChildNode_def GetNthChild_ok)

theorem insert_child_at_own_index_aborts_witness: "InsertChildNode 0 2 1 two_children = None"
  using insert_child_at_own_index_aborts [OF two_children_ok, of 1 0] by simp

end
