(* ===== verification/Span.thy ===== *)
theory Span
  imports Xilou_Prelude
begin

text \<open>
  Bounds-checked buffers: the span accesses of the sources and the copies of src/core/fxcrt/span_util.h.
  An access outside the buffer, which aborts the program in a span and is undefined for a raw pointer,
  is \<open>None\<close>; a codec that returns \<open>Some\<close> has made no such access.
\<close>

section \<open>Element access\<close>

definition read_at :: "'a list \<Rightarrow> nat \<Rightarrow> 'a option" where
  "read_at xs i = (if i < length xs then Some (xs ! i) else None)"

definition write_at :: "'a list \<Rightarrow> nat \<Rightarrow> 'a \<Rightarrow> 'a list option" where
  "write_at xs i v = (if i < length xs then Some (xs[i := v]) else None)"

lemma read_at_Some [codec]: "i < length xs \<Longrightarrow> read_at xs i = Some (xs ! i)"
  by (simp add: read_at_def)

lemma write_at_Some [codec]: "i < length xs \<Longrightarrow> write_at xs i v = Some (xs[i := v])"
  by (simp add: write_at_def)

section \<open>Subspans and bulk operations\<close>

definition subspan :: "'a list \<Rightarrow> nat \<Rightarrow> nat \<Rightarrow> 'a list option" where
  "subspan xs pos len = (if pos \<le> length xs \<and> len \<le> length xs - pos
    then Some (take len (drop pos xs)) else None)"

definition spancpy :: "'a list \<Rightarrow> nat \<Rightarrow> 'a list \<Rightarrow> 'a list option" where
  "spancpy dst pos src = (if pos \<le> length dst \<and> length src \<le> length dst - pos
    then Some (memcpy dst pos src) else None)"

definition spanset :: "'a list \<Rightarrow> nat \<Rightarrow> nat \<Rightarrow> 'a \<Rightarrow> 'a list option" where
  "spanset dst pos len val = (if pos \<le> length dst \<and> len \<le> length dst - pos
    then Some (memcpy dst pos (replicate len val)) else None)"

lemma subspan_Some [codec]: "pos + len \<le> length xs \<Longrightarrow> subspan xs pos len = Some (take len (drop pos xs))"
  by (simp add: subspan_def)

lemma spancpy_Some [codec]: "pos + length src \<le> length dst \<Longrightarrow> spancpy dst pos src = Some (memcpy dst pos src)"
  by (simp add: spancpy_def)

lemma spanset_Some [codec]:
  "pos + len \<le> length dst \<Longrightarrow> spanset dst pos len v = Some (memcpy dst pos (replicate len v))"
  by (simp add: spanset_def)

lemma drop_head: "i < length xs \<Longrightarrow> drop i xs = xs ! i # drop (Suc i) xs"
  by (simp add: Cons_nth_drop_Suc)

text \<open>Filling a buffer from its start: what has been written is a prefix.\<close>

lemma memcpy_prefix [codec]:
  "take n dst = pre \<Longrightarrow> n = length pre \<Longrightarrow> n + length src \<le> length dst \<Longrightarrow>
   take (n + length src) (memcpy dst n src) = pre @ src"
  by (simp add: take_memcpy)

lemma write_prefix [codec]:
  "n < length dst \<Longrightarrow> take (Suc n) (dst[n := v]) = take n dst @ [v]"
  by (simp add: take_Suc_conv_app_nth)

text \<open>Writing a sequence of bytes one after the other.\<close>

fun write_all :: "'a list \<Rightarrow> nat \<Rightarrow> 'a list \<Rightarrow> 'a list option" where
  "write_all dst n [] = Some dst"
| "write_all dst n (v # vs) = Option.bind (write_at dst n v) (\<lambda>dst. write_all dst (n + 1) vs)"

lemma memcpy_Cons: "n < length dst \<Longrightarrow> memcpy (dst[n := v]) (Suc n) vs = memcpy dst n (v # vs)"
  by (simp add: memcpy_def take_Suc_conv_app_nth)

lemma write_all_Some [codec]: "n + length vs \<le> length dst \<Longrightarrow> write_all dst n vs = Some (memcpy dst n vs)"
proof (induction vs arbitrary: n dst)
  case Nil
  then show ?case by (simp add: memcpy_def)
next
  case (Cons v vs)
  then show ?case using Cons.IH [of "Suc n" "dst[n := v]"] by (simp add: write_at_Some memcpy_Cons)
qed

section \<open>Outcomes of a stream decoder\<close>

text \<open>The error offset, an aborted access, or the offset of the end and the data.\<close>

datatype decode_result = InvalidOffset | Aborted | Decoded nat bytes

end
