(* ===== verification/Run_Length.thy ===== *)
theory Run_Length
  imports Span
begin

text \<open>
  The run-length filter: the decoder RunLengthDecode of src/core/fpdfapi/parser/fpdf_parser_decode.cpp
  and the encoder BasicModule::RunLengthEncode of src/core/fxcodec/basic/basicmodule.cpp.  The decoder
  makes two passes, one that sizes the output and one that fills it; the encoder writes through a raw
  pointer into a buffer of an estimated size.  Both are shown to stay inside their buffers, and decoding
  inverts encoding.
\<close>

section \<open>Decoder\<close>

definition kMaxStreamSize :: nat where
  "kMaxStreamSize = 20 * 1024 * 1024"

text \<open>The first pass; \<open>dest_size\<close> is a 32-bit counter and a wrap-around is an error.\<close>

function rl_size :: "bytes \<Rightarrow> nat \<Rightarrow> u32 \<Rightarrow> u32 option" where
  "rl_size src i dest_size =
    (if i < length src \<and> src ! i \<noteq> 128 then
       (if src ! i < 128 then
          let new_size = dest_size + of_nat (unat (src ! i) + 1) in
          if new_size < dest_size then None else rl_size src (i + unat (src ! i) + 2) new_size
        else
          let new_size = dest_size + of_nat (257 - unat (src ! i)) in
          if new_size < dest_size then None else rl_size src (i + 2) new_size)
     else Some dest_size)"
  by pat_completeness auto
termination by (relation "measure (\<lambda>(src, i, _). length src - i)") auto

text \<open>The second pass; the result is the position of the end mark and the filled buffer.\<close>

function rl_fill :: "bytes \<Rightarrow> nat \<Rightarrow> nat \<Rightarrow> bytes \<Rightarrow> (nat \<times> bytes) option" where
  "rl_fill src i dest_count dest =
    (if i < length src \<and> src ! i \<noteq> 128 then
       (if src ! i < 128 then
          let copy_len = unat (src ! i) + 1; buf_left = length src - i - 1 in
          Option.bind
            (if buf_left < copy_len then spanset dest (dest_count + buf_left) (copy_len - buf_left) 0
             else Some dest) (\<lambda>dest.
          Option.bind (subspan src (i + 1) (min copy_len buf_left)) (\<lambda>copy_span.
          Option.bind (spancpy dest dest_count copy_span) (\<lambda>dest.
          rl_fill src (i + unat (src ! i) + 2) (dest_count + unat (src ! i) + 1) dest)))
        else
          let fill = (if i < length src - 1 then src ! (i + 1) else 0); fill_size = 257 - unat (src ! i) in
          Option.bind (spanset dest dest_count fill_size fill) (\<lambda>dest.
          rl_fill src (i + 2) (dest_count + fill_size) dest))
     else Some (i, dest))"
  by pat_completeness auto
termination by (relation "measure (\<lambda>(src, i, _). length src - i)") auto

definition RunLengthDecode :: "bytes \<Rightarrow> decode_result" where
  "RunLengthDecode src = (case rl_size src 0 0 of None \<Rightarrow> InvalidOffset
    | Some dest_size \<Rightarrow>
      if kMaxStreamSize \<le> unat dest_size then InvalidOffset
      else (case rl_fill src 0 0 (replicate (unat dest_size) 0) of None \<Rightarrow> Aborted
        | Some (i, dest) \<Rightarrow> Decoded (min (i + 1) (length src)) dest))"

declare rl_size.simps [simp del] rl_fill.simps [simp del]

text \<open>The data a run-length stream stands for; a truncated stream is continued with zeros.\<close>

definition literal :: "nat \<Rightarrow> bytes \<Rightarrow> bytes" where
  "literal n src = take n src @ replicate (n - length src) 0"

lemma length_literal [simp]: "length (literal n src) = n"
  by (simp add: literal_def)

lemma literal_full [simp]: "n \<le> length src \<Longrightarrow> literal n src = take n src"
  by (simp add: literal_def)

lemma literal_copy:
  "length s < n \<Longrightarrow> dc + n \<le> length dest \<Longrightarrow>
   memcpy (memcpy dest (dc + length s) (replicate (n - length s) 0)) dc s = memcpy dest dc (literal n s)"
  by (auto simp: memcpy_def literal_def)

function rl_data :: "bytes \<Rightarrow> bytes" where
  "rl_data [] = []"
| "rl_data (n # src) =
    (if n = 128 then []
     else if n < 128 then literal (unat n + 1) src @ rl_data (drop (unat n + 1) src)
     else replicate (257 - unat n) (if src = [] then 0 else hd src) @ rl_data (drop 1 src))"
  by pat_completeness auto
termination by (relation "measure length") auto

lemma byte_128: "(b :: byte) \<noteq> 128 \<Longrightarrow> \<not> b < 128 \<Longrightarrow> 128 < unat b" "(b :: byte) < 128 \<Longrightarrow> unat b < 128"
  by (auto simp: word_less_nat_alt word_unat_eq_iff)

lemma u32_step:
  assumes "n < 2 ^ 31"
  shows "(d + of_nat n < (d :: u32)) = (2 ^ 32 \<le> unat d + n)"
    and "unat d + n < 2 ^ 32 \<Longrightarrow> unat (d + of_nat n) = unat d + n"
proof -
  have "unat (d + of_nat n) = (unat d + n) mod 2 ^ 32" using assms by (simp add: unat_simps)
  moreover have "unat d < 2 ^ 32" by (rule unat_u32_less)
  ultimately show "(d + of_nat n < (d :: u32)) = (2 ^ 32 \<le> unat d + n)"
    "unat d + n < 2 ^ 32 \<Longrightarrow> unat (d + of_nat n) = unat d + n"
    using assms by (auto simp: word_less_nat_alt mod_if [of "_ + _"] split: if_splits)
qed

lemma rl_data_at:
  assumes "i < length src"
  shows "src ! i = 128 \<Longrightarrow> rl_data (drop i src) = []"
    and "src ! i < 128 \<Longrightarrow> rl_data (drop i src) =
      literal (unat (src ! i) + 1) (drop (i + 1) src) @ rl_data (drop (i + unat (src ! i) + 2) src)"
    and "\<not> src ! i < 128 \<Longrightarrow> src ! i \<noteq> 128 \<Longrightarrow> rl_data (drop i src) =
      replicate (257 - unat (src ! i)) (if i < length src - 1 then src ! (i + 1) else 0) @ rl_data (drop (i + 2) src)"
  using assms by (simp_all add: drop_head hd_drop_conv_nth add.commute add.left_commute less_diff_conv not_le
      literal_def)

lemma rl_size_data:
  "rl_size src i d = (if unat d + length (rl_data (drop i src)) < 2 ^ 32
     then Some (of_nat (unat d + length (rl_data (drop i src)))) else None)"
proof (induction src i d rule: rl_size.induct)
  case (1 src i d)
  show ?case
  proof (cases "i < length src \<and> src ! i \<noteq> 128")
    case False
    then show ?thesis
      using rl_data_at(1) [of i src] unat_u32_less [of d] by (cases "i < length src") (auto simp: rl_size.simps)
  next
    case True
    show ?thesis
    proof (cases "src ! i < 128")
      case lit: True
      then have n: "unat (src ! i) + 1 < 2 ^ 31" using byte_128(2) [of "src ! i"] by simp
      have len: "length (rl_data (drop i src)) = unat (src ! i) + 1 + length (rl_data (drop (i + unat (src ! i) + 2) src))"
        using rl_data_at(2) [of i src] True lit by simp
      show ?thesis
        using 1(1) True lit u32_step [OF n, of d] len
        by (subst rl_size.simps) (auto simp: Let_def)
    next
      case run: False
      have n: "257 - unat (src ! i) < 2 ^ 31" by simp
      have len: "length (rl_data (drop i src)) = 257 - unat (src ! i) + length (rl_data (drop (i + 2) src))"
        using rl_data_at(3) [of i src] True run by simp
      show ?thesis
        using 1(2) True run u32_step [OF n, of d] len
        by (subst rl_size.simps) (auto simp: Let_def)
    qed
  qed
qed

text \<open>One step of the second pass writes the bytes of one item.\<close>

lemma rl_fill_literal:
  assumes "i < length src" and "src ! i < 128" and "n = unat (src ! i) + 1" and "dc + n \<le> length dest"
  shows "rl_fill src i dc dest = rl_fill src (i + n + 1) (dc + n) (memcpy dest dc (literal n (drop (i + 1) src)))"
proof -
  have "src ! i \<noteq> 128" using assms(2) by auto
  moreover have "take (length src - Suc i) (drop (Suc i) src) = drop (Suc i) src" by simp
  ultimately show ?thesis
    using assms literal_copy [of "drop (i + 1) src" n dc dest]
    by (subst rl_fill.simps) (auto simp: Let_def codec min_def)
qed

lemma rl_fill_run:
  assumes "i < length src" and "\<not> src ! i < 128" "src ! i \<noteq> 128" and "n = 257 - unat (src ! i)"
    and "dc + n \<le> length dest"
  shows "rl_fill src i dc dest = rl_fill src (i + 2) (dc + n)
    (memcpy dest dc (replicate n (if i < length src - 1 then src ! (i + 1) else 0)))"
  using assms by (subst rl_fill.simps) (simp add: Let_def codec)

lemma rl_fill_data:
  "length dest = dc + length (rl_data (drop i src)) \<Longrightarrow>
   \<exists>j. rl_fill src i dc dest = Some (j, take dc dest @ rl_data (drop i src))"
proof (induction "length src - i" arbitrary: i dc dest rule: less_induct)
  case less
  show ?case
  proof (cases "i < length src \<and> src ! i \<noteq> 128")
    case False
    then show ?thesis
      using rl_data_at(1) [of i src] less(2) by (cases "i < length src") (auto simp: rl_fill.simps)
  next
    case True
    have step: "\<exists>j. rl_fill src i dc dest = Some (j, take dc dest @ item @ rl_data (drop k src))"
      if "i < k" and "length dest = dc + length item + length (rl_data (drop k src))"
        and "rl_fill src i dc dest = rl_fill src k (dc + length item) (memcpy dest dc item)" for k item
      using less(1) [of k "memcpy dest dc item" "dc + length item"] that True
      by (simp add: memcpy_prefix diff_less_mono2)
    show ?thesis
    proof (cases "src ! i < 128")
      case lit: True
      then show ?thesis
        using step [of "i + unat (src ! i) + 2" "literal (unat (src ! i) + 1) (drop (i + 1) src)"] True less(2)
          rl_data_at(2) [of i src] rl_fill_literal [of i src "unat (src ! i) + 1" dc dest] by simp
    next
      case run: False
      then show ?thesis
        using step [of "i + 2" "replicate (257 - unat (src ! i)) (if i < length src - 1 then src ! (i + 1) else 0)"] True less(2)
          rl_data_at(3) [of i src] rl_fill_run [of i src "257 - unat (src ! i)" dc dest] by simp
    qed
  qed
qed

lemma RunLengthDecode_data:
  "(\<exists>off. RunLengthDecode src = Decoded off (rl_data src) \<and> off \<le> length src \<and> length (rl_data src) < kMaxStreamSize) \<or>
   (RunLengthDecode src = InvalidOffset \<and> kMaxStreamSize \<le> length (rl_data src))"
proof (cases "length (rl_data src) < 2 ^ 32")
  case True
  then have "unat (of_nat (length (rl_data src)) :: u32) = length (rl_data src)" by (simp add: unat_of_nat)
  then show ?thesis
    using True rl_fill_data [of "replicate (length (rl_data src)) 0" 0 0 src] rl_size_data [of src 0 0]
    by (auto simp: RunLengthDecode_def not_le)
next
  case False
  then show ?thesis using rl_size_data [of src 0 0] by (simp add: RunLengthDecode_def kMaxStreamSize_def)
qed

section \<open>Encoder\<close>

text \<open>
  \<open>out\<close> is the position of the output pointer in the buffer \<open>dest\<close>; \<open>x\<close> and \<open>y\<close> hold the characters
  at \<open>run_start\<close> (or the last one seen) and \<open>run_end\<close>.
\<close>

record rle_state =
  run_start :: nat
  run_end :: nat
  rle_x :: byte
  rle_y :: byte
  rle_out :: nat
  rle_dest :: bytes

text \<open>The loop over equal characters.\<close>

function match_loop :: "bytes \<Rightarrow> nat \<Rightarrow> nat \<Rightarrow> byte \<Rightarrow> nat \<Rightarrow> byte \<Rightarrow> (nat \<times> byte) option" where
  "match_loop src start max_len x e y =
    (if x = y \<and> e - start < max_len - 1
     then Option.bind (read_at src (e + 1)) (match_loop src start max_len x (e + 1))
     else Some (e, y))"
  by pat_completeness auto
termination by (relation "measure (\<lambda>(src, start, max_len, x, e, y). max_len + start - e)") auto

text \<open>The loop over a run of characters in which no two neighbours are equal.\<close>

function literal_loop :: "bytes \<Rightarrow> nat \<Rightarrow> nat \<Rightarrow> nat \<Rightarrow> bytes \<Rightarrow> byte \<Rightarrow> byte \<Rightarrow> nat \<Rightarrow> (bytes \<times> byte \<times> byte \<times> nat) option" where
  "literal_loop src out start max_len dest x y e =
    (if x \<noteq> y \<and> e \<le> start + max_len then
       Option.bind (write_at dest (out + (e - start)) x) (\<lambda>dest.
       let x = y; e = e + 1 in
       if e = length src then
         (if e \<le> start + max_len
          then Option.bind (write_at dest (out + (e - start)) x) (\<lambda>dest. Some (dest, x, y, e + 1))
          else Some (dest, x, y, e))
       else Option.bind (read_at src e) (\<lambda>y. literal_loop src out start max_len dest x y e))
     else Some (dest, x, y, e))"
  by pat_completeness auto
termination by (relation "measure (\<lambda>(src, out, start, max_len, dest, x, y, e). Suc (max_len + start) - e)") auto

declare match_loop.simps [simp del] literal_loop.simps [simp del]

text \<open>\<open>y\<close> is read again when there is a character at \<open>e\<close> and keeps its value otherwise.\<close>

definition reread :: "bytes \<Rightarrow> nat \<Rightarrow> byte \<Rightarrow> byte" where
  "reread src e y = (if e < length src then src ! e else y)"

definition rle_step :: "bytes \<Rightarrow> rle_state \<Rightarrow> rle_state option" where
  "rle_step src st =
    (let start = run_start st; x = rle_x st; out = rle_out st; max_len = min 128 (length src - start) in
     Option.bind (match_loop src start max_len x (run_end st) (rle_y st)) (\<lambda>(e, y).
     let (e, y) = (if x = y then (e + 1, reread src (e + 1) y) else (e, y)) in
     if 1 < e - start then
       Option.bind (write_at (rle_dest st) out (of_nat (257 - (e - start)))) (\<lambda>dest.
       Option.bind (write_at dest (out + 1) x) (\<lambda>dest.
       Some \<lparr>run_start = e, run_end = e + 1, rle_x = y, rle_y = reread src (e + 1) y,
         rle_out = out + 2, rle_dest = dest\<rparr>))
     else
       Option.bind (literal_loop src out start max_len (rle_dest st) x y e) (\<lambda>(dest, x, y, e).
       Option.bind (write_at dest out (of_nat (e - start - 2))) (\<lambda>dest.
       Some \<lparr>run_start = e - 1, run_end = e, rle_x = x, rle_y = y,
         rle_out = out + (e - start), rle_dest = dest\<rparr>))))"

partial_function (option) rle_loop :: "bytes \<Rightarrow> rle_state \<Rightarrow> rle_state option" where
  "rle_loop src st = (if run_end st < length src then Option.bind (rle_step src st) (rle_loop src) else Some st)"

definition rle_finish :: "bytes \<Rightarrow> rle_state \<Rightarrow> bytes option" where
  "rle_finish src st =
    Option.bind
      (if run_start st < length src
       then Option.bind (write_at (rle_dest st) (rle_out st) 0) (\<lambda>dest.
         map_option (Pair (rle_out st + 2)) (write_at dest (rle_out st + 1) (rle_x st)))
       else Some (rle_out st, rle_dest st)) (\<lambda>(out, dest).
    Option.bind (write_at dest out 128) (\<lambda>dest. Some (take (out + 1) dest)))"

text \<open>The result is the encoded data, \<open>None\<close> an access outside a buffer; an empty input is refused.\<close>

definition RunLengthEncode :: "bytes \<Rightarrow> bytes option option" where
  "RunLengthEncode src =
    (if src = [] then Some None
     else if length src = 1 then Some (Some [0, hd src, 128])
     else
       let estimated_size = (length src + 2) div 3 * 4 + 1 in
       map_option Some (Option.bind
         (rle_loop src \<lparr>run_start = 0, run_end = 1, rle_x = src ! 0, rle_y = src ! 1, rle_out = 0,
           rle_dest = replicate estimated_size 0\<rparr>) (rle_finish src)))"


section \<open>The encoder's loops\<close>

lemma match_loop_run:
  assumes "start < e" "e - start \<le> max_len - 1" "start + max_len \<le> length src" "2 \<le> max_len"
    "\<forall>k. start \<le> k \<and> k < e \<longrightarrow> src ! k = x"
  shows "\<exists>e'. match_loop src start max_len x e (src ! e) = Some (e', src ! e') \<and> e \<le> e' \<and> e' - start \<le> max_len - 1 \<and>
    (\<forall>k. start \<le> k \<and> k < e' \<longrightarrow> src ! k = x) \<and> (src ! e' = x \<longrightarrow> e' - start = max_len - 1)"
  using assms
proof (induction "start + max_len - e" arbitrary: e rule: less_induct)
  case less
  show ?case
  proof (cases "x = src ! e \<and> e - start < max_len - 1")
    case True
    have eq: "match_loop src start max_len x e (src ! e) = match_loop src start max_len x (e + 1) (src ! (e + 1))"
      using True less.prems read_at_Some [of "e + 1" src] by (subst match_loop.simps) auto
    have "\<exists>e'. match_loop src start max_len x (e + 1) (src ! (e + 1)) = Some (e', src ! e') \<and> e + 1 \<le> e' \<and>
        e' - start \<le> max_len - 1 \<and> (\<forall>k. start \<le> k \<and> k < e' \<longrightarrow> src ! k = x) \<and> (src ! e' = x \<longrightarrow> e' - start = max_len - 1)"
      using True less.prems by (intro less.hyps) (auto simp: less_Suc_eq)
    then show ?thesis using eq by fastforce
  next
    case False
    then show ?thesis using less.prems by (subst match_loop.simps) auto
  qed
qed

text \<open>What the literal loop has written after it has looked at the characters before \<open>e\<close>.\<close>

definition literals :: "bytes \<Rightarrow> nat \<Rightarrow> nat \<Rightarrow> nat \<Rightarrow> bytes \<Rightarrow> bool" where
  "literals src out start e dest \<longleftrightarrow>
    take (e - start - 1) (drop (out + 1) dest) = take (e - start - 1) (drop start src)"

lemma literals_write:
  assumes "literals src out start e dest" "start < e" "e - 1 < length src" "out + (e - start) < length dest"
  shows "literals src out start (e + 1) (dest[out + (e - start) := src ! (e - 1)])"
proof -
  obtain k where k: "e = Suc (start + k)" using assms(2) less_iff_Suc_add by auto
  have "take (Suc k) (drop (Suc out) (dest[Suc out + k := src ! (start + k)])) =
      take k (drop (Suc out) dest) @ [src ! (start + k)]"
    using assms(4) k by (simp add: drop_update_swap take_Suc_conv_app_nth)
  moreover have "take (Suc k) (drop start src) = take k (drop start src) @ [src ! (start + k)]"
    using assms(3) k by (simp add: take_Suc_conv_app_nth)
  ultimately show ?thesis using assms(1) k by (simp add: literals_def)
qed

lemma literal_loop_write:
  assumes "x \<noteq> y" "start < e" "e - start \<le> max_len" "out + max_len < length dest" "e < length src"
    and "dest1 = dest[out + (e - start) := x]"
  shows "literal_loop src out start max_len dest x y e =
    (if e + 1 = length src then
       if e + 1 - start \<le> max_len then Some (dest1[out + (e + 1 - start) := y], y, y, e + 2) else Some (dest1, y, y, e + 1)
     else literal_loop src out start max_len dest1 y (src ! (e + 1)) (e + 1))"
proof -
  have w: "write_at dest (out + (e - start)) x = Some dest1"
    using assms by (simp add: codec)
  have r: "e + 1 \<noteq> length src \<Longrightarrow> read_at src (e + 1) = Some (src ! (e + 1))" using assms(5) by (simp add: codec)
  have w2: "e + 1 - start \<le> max_len \<Longrightarrow> write_at dest1 (out + (e + 1 - start)) y = Some (dest1[out + (e + 1 - start) := y])"
    using assms by (simp add: codec)
  have g: "e \<le> start + max_len" "e + 1 \<le> start + max_len \<longleftrightarrow> e + 1 - start \<le> max_len" using assms by auto
  show ?thesis
    by (subst literal_loop.simps, cases "e + 1 = length src"; cases "e + 1 - start \<le> max_len")
      (use assms(1) w r w2 g in \<open>simp_all add: Let_def flip: Suc_eq_plus1\<close>)
qed

text \<open>What the literal loop leaves: the characters it wrote, and why it stopped.\<close>

fun literal_post :: "bytes \<Rightarrow> nat \<Rightarrow> nat \<Rightarrow> nat \<Rightarrow> bytes \<Rightarrow> bytes \<times> byte \<times> byte \<times> nat \<Rightarrow> bool" where
  "literal_post src out start max_len dest (dest', x', y', e') \<longleftrightarrow>
    start < e' \<and> e' \<le> start + max_len + 1 \<and> length dest' = length dest \<and>
    take (out + 1) dest' = take (out + 1) dest \<and> literals src out start e' dest' \<and>
    (if e' \<le> length src then x' = src ! (e' - 1) else True) \<and> (if e' < length src then y' = src ! e' else True) \<and>
    (e' = length src + 1 \<or> e' = start + max_len + 1 \<or> e' < length src \<and> x' = y')"

lemma literal_loop_run:
  assumes "start < e" "e < length src" "e - start \<le> max_len" "start + max_len \<le> length src"
    "out + max_len < length dest" "literals src out start e dest"
  shows "\<exists>r. literal_loop src out start max_len dest (src ! (e - 1)) (src ! e) e = Some r \<and>
    literal_post src out start max_len dest r \<and> e \<le> snd (snd (snd r)) \<and>
    (src ! (e - 1) \<noteq> src ! e \<longrightarrow> e < snd (snd (snd r)))"
  using assms
proof (induction "length src - e" arbitrary: e dest rule: less_induct)
  case less
  note p = less.prems
  define dest1 where "dest1 = dest[out + (e - start) := src ! (e - 1)]"
  define dest2 where "dest2 = dest1[out + (e + 1 - start) := src ! e]"
  have l1: "literals src out start (e + 1) dest1" "take (out + 1) dest1 = take (out + 1) dest" "length dest1 = length dest"
    using p literals_write [of src out start e dest] by (simp_all add: dest1_def take_update_cancel)
  have l2: "literals src out start (e + 2) dest2 \<and> take (out + 1) dest2 = take (out + 1) dest \<and> length dest2 = length dest"
    if "e + 1 - start \<le> max_len"
    using literals_write [OF l1(1)] that p l1 by (simp add: dest2_def take_update_cancel)
  show ?case
  proof (cases "src ! (e - 1) = src ! e")
    case True
    then show ?thesis using p by (subst literal_loop.simps) auto
  next
    case neq: False
    note step = literal_loop_write [OF neq p(1,3,5,2) dest1_def, folded dest2_def]
    consider (last) "e + 1 = length src" "e + 1 - start \<le> max_len" | (cut) "e + 1 = length src" "\<not> e + 1 - start \<le> max_len"
      | (more) "e + 1 \<noteq> length src" "e + 1 - start \<le> max_len" | (full) "e + 1 \<noteq> length src" "\<not> e + 1 - start \<le> max_len"
      by blast
    then show ?thesis
    proof cases
      case last
      then show ?thesis using step l2 p by simp
    next
      case cut
      then have "length src - 1 = e" "length src = start + max_len + 1" using p by auto
      then show ?thesis using cut step l1 p by simp
    next
      case more
      then obtain r where r: "literal_loop src out start max_len dest1 (src ! e) (src ! (e + 1)) (e + 1) = Some r"
          "literal_post src out start max_len dest1 r" "e + 1 \<le> snd (snd (snd r))"
        using less.hyps [of "e + 1" dest1] p l1
        by (auto simp del: literal_post.simps split_paired_Ex simp: diff_less_mono2)
      then have "literal_post src out start max_len dest r" using l1 by (cases r) simp
      then show ?thesis using r step more(1) by simp
    next
      case full
      then have e: "e + 1 = start + max_len + 1" using p by auto
      have "literal_loop src out start max_len dest1 (src ! e) (src ! (e + 1)) (e + 1) = Some (dest1, src ! e, src ! (e + 1), e + 1)"
        by (subst literal_loop.simps) (use e in auto)
      then show ?thesis using step l1 p full(1) e by simp
    qed
  qed
qed


section \<open>The encoder inverts the decoder and stays in its buffer\<close>

definition rle_estimate :: "bytes \<Rightarrow> nat" where
  "rle_estimate src = (length src + 2) div 3 * 4 + 1"

text \<open>
  Between two steps: the bytes written stand for the characters before \<open>run_start\<close>, and three times
  their number is at most four times that of the characters, up to two that the matched run about to
  be written makes good.
\<close>

definition rle_inv :: "bytes \<Rightarrow> rle_state \<Rightarrow> bool" where
  "rle_inv src st \<longleftrightarrow> (let n = length src; s = run_start st in
    run_end st = s + 1 \<and> s \<le> n \<and> (s < n \<longrightarrow> rle_x st = src ! s) \<and> (s + 1 < n \<longrightarrow> rle_y st = src ! (s + 1)) \<and>
    length (rle_dest st) = rle_estimate src \<and>
    (\<forall>rest. rl_data (take (rle_out st) (rle_dest st) @ rest) = take s src @ rl_data rest) \<and>
    3 * rle_out st \<le> 4 * s + (if s = n \<or> s + 1 < n \<and> rle_x st = rle_y st then 2 else 0))"

lemma rle_estimate_bound: "4 * length src + 3 \<le> 3 * rle_estimate src"
  unfolding rle_estimate_def by presburger

lemma unat_byte_of_nat: "n < 256 \<Longrightarrow> unat (of_nat n :: byte) = n"
  by (simp add: unat_of_nat)

lemma rl_data_run:
  assumes "2 \<le> k" "k \<le> 128"
  shows "rl_data (of_nat (257 - k) # v # rest) = replicate k v @ rl_data rest"
proof -
  have "unat (of_nat (257 - k) :: byte) = 257 - k" by (rule unat_byte_of_nat) (use assms in simp)
  then show ?thesis using assms by (auto simp: word_less_nat_alt word_unat_eq_iff)
qed

lemma rl_data_literal:
  assumes "1 \<le> length vs" "length vs \<le> 128"
  shows "rl_data (of_nat (length vs - 1) # vs @ rest) = vs @ rl_data rest"
proof -
  have "unat (of_nat (length vs - 1) :: byte) = length vs - 1" by (rule unat_byte_of_nat) (use assms in simp)
  moreover have "length vs - 1 < 128" using assms by auto
  ultimately show ?thesis using assms by (simp add: word_less_nat_alt word_unat_eq_iff Suc_le_eq)
qed

declare rl_data.simps(2) [simp del]

lemma take_equal_run:
  assumes "\<forall>k. s \<le> k \<and> k < f \<longrightarrow> src ! k = x" and "f \<le> length src" and "s < f"
  shows "take f src = take s src @ replicate (f - s) x"
proof -
  have "take (f - s) (drop s src) = replicate (f - s) x"
    by (rule nth_equalityI) (use assms in simp_all)
  then show ?thesis using assms take_add [of s "f - s" src] by simp
qed

lemma take_write_two:
  "out + 1 < length dest \<Longrightarrow> take (out + 2) (dest[out := a, out + 1 := b]) = take out dest @ [a, b]"
  by (simp add: take_Suc_conv_app_nth numeral_2_eq_2)

text \<open>A matched run.\<close>

lemma rle_step_run:
  assumes inv: "rle_inv src st" and more: "run_end st < length src" and eq: "rle_x st = rle_y st"
  shows "\<exists>st'. rle_step src st = Some st' \<and> rle_inv src st' \<and> run_start st < run_start st'"
proof -
  define s n m where "s = run_start st" and "n = length src" and "m = min 128 (n - s)"
  note defs = s_def [symmetric] n_def [symmetric] m_def [symmetric]
  obtain x where x: "src ! s = x" by simp
  have i: "run_end st = s + 1" "s + 1 < n" "rle_x st = x" "rle_y st = src ! (s + 1)" "src ! (s + 1) = x"
    "length (rle_dest st) = rle_estimate src" "3 * rle_out st \<le> 4 * s + 2"
    "\<And>rest. rl_data (take (rle_out st) (rle_dest st) @ rest) = take s src @ rl_data rest"
    using inv more eq x by (auto simp: rle_inv_def Let_def defs split: if_splits)
  have m: "2 \<le> m" "s + m \<le> n" "m \<le> 128" using i(2) by (simp_all add: m_def)
  have "\<forall>k. s \<le> k \<and> k < s + 1 \<longrightarrow> src ! k = x" using x by (auto simp: less_Suc_eq)
  moreover have "s < s + 1" "s + 1 - s \<le> m - 1" "s + m \<le> length src" "2 \<le> m" using m by (simp_all add: n_def)
  ultimately obtain e where e: "match_loop src s m x (s + 1) (src ! (s + 1)) = Some (e, src ! e)" "s + 1 \<le> e"
      "e - s \<le> m - 1" "\<forall>k. s \<le> k \<and> k < e \<longrightarrow> src ! k = x" "src ! e = x \<longrightarrow> e - s = m - 1"
    using match_loop_run [of s "s + 1" m src x] by blast
  have e1: "1 < e - s \<or> src ! e = x" using e(2) i(5) by (cases "e = s + 1") auto
  define f where "f = (if x = src ! e then e + 1 else e)"
  have "2 \<le> f - s \<and> f - s \<le> m \<and> f \<le> n \<and> s < f"
    using e(2,3) e1 m by (auto simp: f_def)
  moreover have "\<forall>k. s \<le> k \<and> k < f \<longrightarrow> src ! k = x"
    using e(4) by (auto simp: f_def less_Suc_eq split: if_splits)
  ultimately have f: "2 \<le> f - s" "f - s \<le> m" "f \<le> n" "\<forall>k. s \<le> k \<and> k < f \<longrightarrow> src ! k = x" "s < f"
    by blast+
  have run: "take f src = take s src @ replicate (f - s) x"
    by (rule take_equal_run) (use f in \<open>simp_all add: n_def\<close>)
  define y where "y = reread src f (src ! e)"
  define dest where "dest = (rle_dest st)[rle_out st := of_nat (257 - (f - s)), rle_out st + 1 := x]"
  have room: "rle_out st + 1 < length (rle_dest st)"
    using rle_estimate_bound [of src] i(2,6,7) by (simp add: n_def)
  have w: "write_at (rle_dest st) (rle_out st) (of_nat (257 - (f - s))) =
      Some ((rle_dest st)[rle_out st := of_nat (257 - (f - s))])"
    "write_at ((rle_dest st)[rle_out st := of_nat (257 - (f - s))]) (rle_out st + 1) x = Some dest"
    using room by (simp_all add: codec dest_def)
  have fy: "(if x = src ! e then (e + 1, reread src (e + 1) (src ! e)) else (e, src ! e)) = (f, y)"
    using e(2,3) m by (auto simp: f_def y_def reread_def n_def)
  have step: "rle_step src st = Some \<lparr>run_start = f, run_end = f + 1, rle_x = y, rle_y = reread src (f + 1) y,
      rle_out = rle_out st + 2, rle_dest = dest\<rparr>"
    unfolding rle_step_def Let_def defs i(1,3,4) e(1) bind.bind_lunit prod.case fy
    using f(1) w by simp
  have dec: "rl_data (take (rle_out st + 2) dest @ rest) = take f src @ rl_data rest" for rest
    using rl_data_run [of "f - s" x rest] i(8) [of "of_nat (257 - (f - s)) # x # rest"] f(1,2) run
    unfolding dest_def take_write_two [OF room] using m(3) by (simp del: of_nat_diff)
  have "rle_inv src \<lparr>run_start = f, run_end = f + 1, rle_x = y, rle_y = reread src (f + 1) y,
      rle_out = rle_out st + 2, rle_dest = dest\<rparr>"
    using dec f(3) i(6,7) f(1) by (simp add: rle_inv_def Let_def y_def reread_def dest_def n_def)
  then show ?thesis using step f(5) by (simp add: s_def)
qed


text \<open>A run of unequal neighbours.\<close>

lemma take_write_literal:
  assumes "literals src out start e dest" "start < e" "e - 1 \<le> length src" "out + (e - start) \<le> length dest"
  shows "take (out + (e - start)) (dest[out := v]) = take out dest @ v # take (e - start - 1) (drop start src)"
proof -
  have "take (out + (e - start)) (dest[out := v]) = take out (dest[out := v]) @ take (e - start) (drop out (dest[out := v]))"
    by (rule take_add)
  also have "drop out (dest[out := v]) = v # drop (out + 1) dest"
    using assms by (simp add: drop_head drop_update_cancel)
  finally show ?thesis
    using assms by (cases "e - start") (simp_all add: literals_def take_update_cancel)
qed

lemma rle_step_literal:
  assumes inv: "rle_inv src st" and more: "run_end st < length src" and neq: "rle_x st \<noteq> rle_y st"
  shows "\<exists>st'. rle_step src st = Some st' \<and> rle_inv src st' \<and> run_start st < run_start st'"
proof -
  define s n m out where "s = run_start st" and "n = length src" and "m = min 128 (n - s)" and "out = rle_out st"
  note defs = s_def [symmetric] n_def [symmetric] m_def [symmetric] out_def [symmetric]
  have i: "run_end st = s + 1" "s + 1 < n" "rle_x st = src ! s" "rle_y st = src ! (s + 1)" "src ! s \<noteq> src ! (s + 1)"
    "length (rle_dest st) = rle_estimate src" "3 * out \<le> 4 * s"
    "\<And>rest. rl_data (take out (rle_dest st) @ rest) = take s src @ rl_data rest"
    using inv more neq by (auto simp: rle_inv_def Let_def defs split: if_splits)
  have m: "2 \<le> m" "s + m \<le> n" "m \<le> 128" "m = n - s \<or> m = 128" using i(2) by (auto simp: m_def)
  have room: "out + m < length (rle_dest st)"
    using rle_estimate_bound [of src] i(6,7) m(2) by (simp add: n_def)
  have "literals src out s (s + 1) (rle_dest st)" by (simp add: literals_def)
  then obtain r where r: "literal_loop src out s m (rle_dest st) (src ! s) (src ! (s + 1)) (s + 1) = Some r"
      "literal_post src out s m (rle_dest st) r" "s + 1 < snd (snd (snd r))"
    using literal_loop_run [of s "s + 1" src m out "rle_dest st"] i(2,5) m room
    by (auto simp: n_def simp del: literal_post.simps split_paired_Ex)
  obtain dest x y e where re: "r = (dest, x, y, e)" by (cases r)
  have l: "s + 1 < e" "e \<le> s + m + 1" "length dest = length (rle_dest st)" "take out dest = take out (rle_dest st)"
      "literals src out s e dest" "e \<le> n \<longrightarrow> x = src ! (e - 1)" "e < n \<longrightarrow> y = src ! e"
      "e = n + 1 \<or> e = s + m + 1 \<or> e < n \<and> x = y"
    using r(2,3) re by (auto simp: n_def split: if_splits dest: arg_cong [of "take (Suc out) _" _ "take out"])
  define k where "k = e - s - 1"
  have k: "1 \<le> k" "k \<le> 128" "s + k \<le> n" "e - 1 = s + k" "e - s = k + 1" "k \<le> m" "e = s + k + 1" using l(1,2) m by (auto simp: k_def)
  define st' where "st' = \<lparr>run_start = e - 1, run_end = e, rle_x = x, rle_y = y, rle_out = out + (e - s),
    rle_dest = dest[out := of_nat (e - s - 2)]\<rparr>"
  have w: "write_at dest out (of_nat (e - s - 2)) = Some (dest[out := of_nat (e - s - 2)])"
    using l(3) room by (intro write_at_Some) simp
  have mt: "match_loop src s m (src ! s) (s + 1) (src ! (s + 1)) = Some (s + 1, src ! (s + 1))"
    using i(5) by (subst match_loop.simps) simp
  have step: "rle_step src st = Some st'"
    unfolding rle_step_def Let_def defs i(1,3,4) mt bind.bind_lunit prod.case st'_def
    using i(5) r(1) re w by simp
  have dec: "rl_data (take (rle_out st') (rle_dest st') @ rest) = take (s + k) src @ rl_data rest" for rest
    using take_write_literal [OF l(5), of "of_nat (e - s - 2)"] l(1,3,4) k room m
      i(8) [of "of_nat (k - 1) # take k (drop s src) @ rest"] rl_data_literal [of "take k (drop s src)" rest]
      take_add [of s k src]
    by (simp add: st'_def n_def del: of_nat_diff)
  have slack: "3 * (out + (k + 1)) \<le> 4 * (s + k) + (if s + k = n \<or> s + k + 1 < n \<and> x = y then 2 else 0)"
    using i(7) k l(8) m by auto
  have "rle_inv src st'"
    using dec slack k l(3,6,7) i(6) by (simp add: rle_inv_def Let_def st'_def n_def)
  then show ?thesis using step k by (simp add: st'_def s_def)
qed

lemma rle_loop_ends:
  "rle_inv src st \<Longrightarrow> \<exists>st'. rle_loop src st = Some st' \<and> rle_inv src st' \<and> length src \<le> run_end st'"
proof (induction "length src - run_start st" arbitrary: st rule: less_induct)
  case less
  show ?case
  proof (cases "run_end st < length src")
    case True
    then obtain st' where st': "rle_step src st = Some st'" "rle_inv src st'" "run_start st < run_start st'"
      using rle_step_run [OF less.prems] rle_step_literal [OF less.prems] by blast
    moreover have "run_start st < length src" using True less.prems by (simp add: rle_inv_def Let_def)
    ultimately show ?thesis
      using less.hyps [of st'] True by (simp add: rle_loop.simps [of src st] diff_less_mono2)
  next
    case False
    then show ?thesis using less.prems by (simp add: rle_loop.simps [of src st])
  qed
qed

lemma rl_data_end [simp]: "rl_data [128] = []"
  by (simp add: rl_data.simps)

lemma rle_finish_ok:
  assumes inv: "rle_inv src st" and e: "length src \<le> run_end st"
  shows "\<exists>enc. rle_finish src st = Some enc \<and> rl_data enc = src \<and> length enc \<le> rle_estimate src"
proof -
  define out dest where "out = rle_out st" and "dest = rle_dest st"
  note defs = out_def [symmetric] dest_def [symmetric]
  have i: "run_end st = run_start st + 1" "length dest = rle_estimate src"
    "\<And>rest. rl_data (take out dest @ rest) = take (run_start st) src @ rl_data rest"
    using inv by (simp_all add: rle_inv_def Let_def defs)
  show ?thesis
  proof (cases "run_start st < length src")
    case True
    then have s: "length src = run_start st + 1" "rle_x st = src ! run_start st" "3 * out \<le> 4 * run_start st"
      using inv e i(1) by (auto simp: rle_inv_def Let_def defs)
    have room: "out + 2 < length dest" using s i(2) rle_estimate_bound [of src] by simp
    have "take (run_start st) src @ [src ! run_start st] = src"
      using s(1) take_Suc_conv_app_nth [of "run_start st" src] by simp
    then have "rl_data (take out dest @ [0, src ! run_start st, 128]) = src"
      using i(3) [of "[0, src ! run_start st, 128]"] rl_data_literal [of "[src ! run_start st]" "[128]"] by simp
    moreover have "rle_finish src st = Some (take out dest @ [0, src ! run_start st, 128])"
      using True room s(2)
      by (simp add: rle_finish_def defs codec take_Suc_conv_app_nth numeral_2_eq_2)
    ultimately show ?thesis using room i(2) by simp
  next
    case False
    then have s: "run_start st = length src" "3 * out \<le> 4 * length src + 2"
      using inv by (auto simp: rle_inv_def Let_def defs)
    have room: "out < length dest" using s i(2) rle_estimate_bound [of src] by simp
    have "rle_finish src st = Some (take out dest @ [128])"
      using False room by (simp add: rle_finish_def defs codec)
    then show ?thesis using room i(2) i(3) [of "[128]"] s(1) by simp
  qed
qed

lemma rle_inv_start:
  assumes "2 \<le> length src"
  shows "rle_inv src \<lparr>run_start = 0, run_end = 1, rle_x = src ! 0, rle_y = src ! 1, rle_out = 0,
    rle_dest = replicate (rle_estimate src) 0\<rparr>"
  using assms by (simp add: rle_inv_def)

lemma RunLengthEncode_ok:
  assumes "src \<noteq> []"
  shows "\<exists>enc. RunLengthEncode src = Some (Some enc) \<and> rl_data enc = src \<and> length enc \<le> rle_estimate src"
proof (cases "length src = 1")
  case True
  then show ?thesis
    using rl_data_literal [of src "[128]"] by (cases src) (simp_all add: RunLengthEncode_def rle_estimate_def)
next
  case False
  then have "2 \<le> length src" using assms by (cases src; cases "tl src") auto
  from rle_loop_ends [OF rle_inv_start [OF this]] show ?thesis
    using assms False rle_finish_ok [of src]
    by (fastforce simp: RunLengthEncode_def Let_def rle_estimate_def)
qed

section \<open>Properties\<close>


text \<open>
  C23: encoding terminates, never writes past the estimated buffer, and decoding what it wrote gives
  the data back, for all data below 20 mebibytes.
\<close>

theorem run_length_roundtrip:
  assumes "src \<noteq> []" and "length src < kMaxStreamSize"
  shows "\<exists>enc off. RunLengthEncode src = Some (Some enc) \<and> length enc \<le> (length src + 2) div 3 * 4 + 1 \<and>
    RunLengthDecode enc = Decoded off src"
proof -
  obtain enc where "RunLengthEncode src = Some (Some enc)" "rl_data enc = src" "length enc \<le> rle_estimate src"
    using RunLengthEncode_ok [OF assms(1)] by blast
  then show ?thesis using RunLengthDecode_data [of enc] assms(2) by (auto simp: rle_estimate_def)
qed

theorem run_length_roundtrip_witness:
  "\<exists>enc off. RunLengthEncode [1, 2, 2] = Some (Some enc) \<and> length enc \<le> 5 \<and> RunLengthDecode enc = Decoded off [1, 2, 2]"
  using run_length_roundtrip [of "[1, 2, 2]"] by (simp add: kMaxStreamSize_def)

end
