(* ===== verification/Ascii85.thy ===== *)
theory Ascii85
  imports Span
begin

text \<open>
  The ASCII base-85 filter: A85Decode of src/core/fpdfapi/parser/fpdf_parser_decode.cpp and
  BasicModule::A85Encode of src/core/fxcodec/basic/basicmodule.cpp.  Both write through a raw pointer
  into a buffer whose size they compute beforehand; 32-bit values are natural numbers with the
  wrap-around written out.  The span that a loop still has to read is a list, \<open>pos\<close> its position.
\<close>

section \<open>Decoder\<close>

definition PDFCharIsLineEnding :: "byte \<Rightarrow> bool" where
  "PDFCharIsLineEnding c \<longleftrightarrow> c = 13 \<or> c = 10"

definition a85_blank :: "byte \<Rightarrow> bool" where
  "a85_blank ch \<longleftrightarrow> PDFCharIsLineEnding ch \<or> ch = 32 \<or> ch = 9"

definition GetA85Result :: "nat \<Rightarrow> nat \<Rightarrow> byte" where
  "GetA85Result res i = of_nat (res div 2 ^ ((3 - i) * 8))"

text \<open>The loop that counts the legal characters and the zero groups.\<close>

fun a85_count :: "bytes \<Rightarrow> nat \<Rightarrow> nat \<Rightarrow> nat \<times> nat" where
  "a85_count [] pos zcount = (pos, zcount)"
| "a85_count (ch # src) pos zcount =
    (if ch = 122 then a85_count src (pos + 1) (zcount + 1)
     else if (ch < 33 \<or> 117 < ch) \<and> \<not> a85_blank ch then (pos, zcount)
     else a85_count src (pos + 1) zcount)"

record a85_state =
  a85_dest :: bytes
  a85_size :: nat
  a85_digits :: nat
  a85_res :: nat

text \<open>The decoding loop; its result is the position after the last character it read.\<close>

fun a85_loop :: "bytes \<Rightarrow> nat \<Rightarrow> a85_state \<Rightarrow> (nat \<times> a85_state) option" where
  "a85_loop [] pos st = Some (pos, st)"
| "a85_loop (ch # src) pos st =
    (if a85_blank ch then a85_loop src (pos + 1) st
     else if ch = 122 then
       Option.bind (spanset (a85_dest st) (a85_size st) 4 0) (\<lambda>dest.
       a85_loop src (pos + 1) \<lparr>a85_dest = dest, a85_size = a85_size st + 4, a85_digits = 0, a85_res = 0\<rparr>)
     else if ch < 33 \<or> 117 < ch then Some (pos + 1, st)
     else
       let res = (a85_res st * 85 + (unat ch - 33)) mod 2 ^ 32 in
       if a85_digits st < 4 then a85_loop src (pos + 1) (st\<lparr>a85_digits := a85_digits st + 1, a85_res := res\<rparr>)
       else Option.bind (write_all (a85_dest st) (a85_size st) (map (GetA85Result res) [0..<4])) (\<lambda>dest.
         a85_loop src (pos + 1) \<lparr>a85_dest = dest, a85_size = a85_size st + 4, a85_digits = 0, a85_res = 0\<rparr>))"

text \<open>A partial group is completed with the highest digit.\<close>

definition a85_partial :: "a85_state \<Rightarrow> (nat \<times> bytes) option" where
  "a85_partial st =
    (if a85_digits st = 0 then Some (a85_size st, a85_dest st)
     else
       let res = ((\<lambda>r. (r * 85 + 84) mod 2 ^ 32) ^^ (5 - a85_digits st)) (a85_res st);
           tail = map (GetA85Result res) [0..<a85_digits st - 1] in
       map_option (Pair (a85_size st + length tail)) (write_all (a85_dest st) (a85_size st) tail))"

definition A85Decode :: "bytes \<Rightarrow> decode_result" where
  "A85Decode src =
    (if src = [] then Decoded 0 []
     else
       let (pos, zcount) = a85_count src 0 0 in
       if pos = 0 then Decoded 0 []
       else
         let size = zcount * 4 + ((pos - zcount) div 5 * 4 + 4) in
         if 2 ^ 32 \<le> size then InvalidOffset
         else
           (case a85_loop src 0 \<lparr>a85_dest = replicate size 0, a85_size = 0, a85_digits = 0, a85_res = 0\<rparr> of
              None \<Rightarrow> Aborted
            | Some (pos, st) \<Rightarrow> (case a85_partial st of None \<Rightarrow> Aborted
              | Some (dest_size, dest) \<Rightarrow>
                  Decoded (if pos < length src \<and> src ! pos = 62 then pos + 1 else pos) (take dest_size dest))))"

section \<open>Encoder\<close>

text \<open>The digits of a group, the last one first; \<open>limit\<close> is the index of the last one written.\<close>

fun put_digits :: "nat \<Rightarrow> nat \<Rightarrow> nat \<Rightarrow> nat \<Rightarrow> bytes \<Rightarrow> bytes option" where
  "put_digits 0 limit out val dest = Some dest"
| "put_digits (Suc i) limit out val dest =
    Option.bind (if i \<le> limit then write_at dest (out + i) (of_nat (val mod 85) + 33) else Some dest) (\<lambda>dest.
    put_digits i limit out (val div 85) dest)"

definition FXSYS_UINT32_GET_MSBFIRST :: "byte \<Rightarrow> byte \<Rightarrow> byte \<Rightarrow> byte \<Rightarrow> nat" where
  "FXSYS_UINT32_GET_MSBFIRST a b c d = unat a * 2 ^ 24 + unat b * 2 ^ 16 + unat c * 2 ^ 8 + unat d"

text \<open>The loop over whole groups; the result holds the bytes left over and the output position.\<close>

fun a85_groups :: "bytes \<Rightarrow> nat \<Rightarrow> bytes \<Rightarrow> nat \<Rightarrow> (bytes \<times> nat \<times> bytes) option" where
  "a85_groups (a # b # c # d # src) out dest line_length =
    (let val = FXSYS_UINT32_GET_MSBFIRST a b c d in
     Option.bind
       (if val = 0 then map_option (\<lambda>dest. (out + 1, dest, line_length + 1)) (write_at dest out 122)
        else map_option (\<lambda>dest. (out + 5, dest, line_length + 5)) (put_digits 5 4 out val dest))
       (\<lambda>(out, dest, line_length).
     if 75 \<le> line_length
     then Option.bind (write_all dest out [13, 10]) (\<lambda>dest. a85_groups src (out + 2) dest 0)
     else a85_groups src out dest line_length))"
| "a85_groups src out dest line_length = Some (src, out, dest)"

fun leftover_val :: "bytes \<Rightarrow> nat \<Rightarrow> nat \<Rightarrow> nat" where
  "leftover_val [] cnt val = val"
| "leftover_val (b # src) cnt val = leftover_val src (cnt + 1) (val + unat b * 2 ^ (8 * (3 - cnt)))"

definition a85_leftover :: "bytes \<Rightarrow> nat \<Rightarrow> bytes \<Rightarrow> (nat \<times> bytes) option" where
  "a85_leftover src out dest =
    (if src = [] then Some (out, dest)
     else map_option (Pair (out + length src + 1)) (put_digits 5 (length src) out (leftover_val src 0 0) dest))"

text \<open>An empty input is refused; \<open>None\<close> is a write outside the buffer.\<close>

definition A85Encode :: "bytes \<Rightarrow> bytes option option" where
  "A85Encode src =
    (if src = [] then Some None
     else
       let estimated_size = length src div 4 * 5 + 4 + length src div 30 + 2 in
       map_option Some
         (Option.bind (a85_groups src 0 (replicate estimated_size 0) 0) (\<lambda>(rest, out, dest).
          Option.bind (a85_leftover rest out dest) (\<lambda>(out, dest).
          Option.bind (write_all dest out [126, 62]) (\<lambda>dest. Some (take (out + 2) dest))))))"

section \<open>The decoder writes inside its buffer\<close>

text \<open>The bytes the loop emits and the group it leaves unfinished.\<close>

fun a85_emit :: "bytes \<Rightarrow> nat \<Rightarrow> nat \<Rightarrow> bytes \<times> nat \<times> nat" where
  "a85_emit [] k res = ([], k, res)"
| "a85_emit (ch # src) k res =
    (if a85_blank ch then a85_emit src k res
     else if ch = 122 then apfst ((@) [0, 0, 0, 0]) (a85_emit src 0 0)
     else if ch < 33 \<or> 117 < ch then ([], k, res)
     else
       let res = (res * 85 + (unat ch - 33)) mod 2 ^ 32 in
       if k < 4 then a85_emit src (k + 1) res
       else apfst ((@) (map (GetA85Result res) [0..<4])) (a85_emit src 0 0))"

definition a85_tail :: "nat \<Rightarrow> nat \<Rightarrow> bytes" where
  "a85_tail k res = (if k = 0 then [] else
    map (GetA85Result (((\<lambda>r. (r * 85 + 84) mod 2 ^ 32) ^^ (5 - k)) res)) [0..<k - 1])"

definition a85_data :: "bytes \<Rightarrow> bytes" where
  "a85_data src = (let (out, k, res) = a85_emit src 0 0 in out @ a85_tail k res)"

lemma a85_count_mono: "a85_count src pos z = (p, q) \<Longrightarrow> pos \<le> p \<and> z \<le> q \<and> q - z \<le> p - pos"
  by (induction src pos z rule: a85_count.induct) (fastforce split: if_splits)+

lemma a85_count_bound: "a85_count src pos z = (p, q) \<Longrightarrow> z \<le> pos \<Longrightarrow> p \<le> pos + length src \<and> q \<le> p"
  by (induction src pos z rule: a85_count.induct) (fastforce split: if_splits)+

text \<open>
  The room computed from the counts is enough: with \<open>g\<close> groups and \<open>z\<close> zero groups written, the
  characters seen pay for them.
\<close>

lemma a85_room:
  assumes "a85_count src pos z = (p, q)" and "z \<le> pos" and "5 * g \<le> pos - z"
  shows "z + g \<le> q + (p - q) div 5"
proof -
  have "pos \<le> p" "z \<le> q" "q - z \<le> p - pos" using a85_count_mono [OF assms(1)] by simp_all
  then have "5 * g \<le> p - q" using assms(2,3) by linarith
  then have "g \<le> (p - q) div 5" by simp
  then show ?thesis using \<open>z \<le> q\<close> by simp
qed

text \<open>How the loop ends, and what it has added to the output.\<close>

definition a85_post :: "nat \<Rightarrow> a85_state \<Rightarrow> bytes \<times> nat \<times> nat \<Rightarrow> (nat \<times> a85_state) option \<Rightarrow> bool" where
  "a85_post bound st em r \<longleftrightarrow> (\<exists>pos' st'. r = Some (pos', st') \<and>
    take (a85_size st') (a85_dest st') = take (a85_size st) (a85_dest st) @ fst em \<and>
    (a85_digits st', a85_res st') = snd em \<and>
    a85_digits st' \<le> 4 \<and> a85_size st' + 4 \<le> length (a85_dest st') \<and> pos' \<le> bound)"

lemma a85_post_append:
  assumes "a85_post bound \<lparr>a85_dest = memcpy (a85_dest st) (a85_size st) bs, a85_size = a85_size st + length bs,
      a85_digits = k, a85_res = r\<rparr> em res"
    and "a85_size st + length bs \<le> length (a85_dest st)"
  shows "a85_post bound st (apfst ((@) bs) em) res"
  using assms by (cases em) (auto simp: a85_post_def take_memcpy)

lemma a85_post_fields [simp]:
  "a85_post bound (st\<lparr>a85_digits := k, a85_res := r\<rparr>) em res = a85_post bound st em res"
  by (simp add: a85_post_def)

lemma a85_loop_emit:
  assumes "a85_count src pos z = (p, q)" and "a85_size st = 4 * z + 4 * g" and "5 * g + a85_digits st \<le> pos - z"
    and "z \<le> pos" and "a85_digits st \<le> 4" and "length (a85_dest st) = q * 4 + ((p - q) div 5 * 4 + 4)"
  shows "a85_post (pos + length src) st (a85_emit src (a85_digits st) (a85_res st)) (a85_loop src pos st)"
  using assms
proof (induction src pos st arbitrary: z g rule: a85_loop.induct)
  case (1 pos st)
  then show ?case using a85_room [OF 1(1,4), of g] by (simp add: a85_post_def)
next
  case (2 ch src pos st)
  note p = 2(5-)
  have room: "z + g \<le> q + (p - q) div 5" by (rule a85_room [OF p(1,4)]) (use p(3) in simp)
  consider (blank) "a85_blank ch" | (zero) "ch = 122" | (stop) "\<not> a85_blank ch" "ch \<noteq> 122" "ch < 33 \<or> 117 < ch"
    | (digit) "\<not> a85_blank ch" "ch \<noteq> 122" "\<not> (ch < 33 \<or> 117 < ch)" "a85_digits st < 4"
    | (full) "\<not> a85_blank ch" "ch \<noteq> 122" "\<not> (ch < 33 \<or> 117 < ch)" "a85_digits st = 4"
    using p(5) by linarith
  then show ?case
  proof cases
    case blank
    then have "ch \<noteq> 122" by (auto simp: a85_blank_def PDFCharIsLineEnding_def)
    then show ?thesis using blank 2(1) [OF blank, of z g] p by simp
  next
    case zero
    then have nb: "\<not> a85_blank ch" by (simp add: a85_blank_def PDFCharIsLineEnding_def)
    have cnt: "a85_count src (pos + 1) (z + 1) = (p, q)" using p(1) zero by simp
    have r: "a85_size st + 4 \<le> length (a85_dest st)" using room p(2,6) by simp
    have "a85_post (pos + 1 + length src) \<lparr>a85_dest = memcpy (a85_dest st) (a85_size st) (replicate 4 0),
        a85_size = a85_size st + 4, a85_digits = 0, a85_res = 0\<rparr> (a85_emit src 0 0)
        (a85_loop src (pos + 1) \<lparr>a85_dest = memcpy (a85_dest st) (a85_size st) (replicate 4 0),
        a85_size = a85_size st + 4, a85_digits = 0, a85_res = 0\<rparr>)"
      using 2(2) [OF nb zero, of "memcpy (a85_dest st) (a85_size st) (replicate 4 0)" "z + 1" g] cnt p r
        spanset_Some [OF r, of 0] by simp
    then show ?thesis
      using nb zero r a85_post_append [of "pos + 1 + length src" st "replicate 4 0" 0 0 "a85_emit src 0 0"]
      by (simp add: spanset_Some numeral_eq_Suc)
  next
    case stop
    then show ?thesis using p room by (simp add: a85_post_def)
  next
    case digit
    then show ?thesis using 2(3) [OF digit(1-3) refl digit(4), of z g] p by (simp add: Let_def)
  next
    case full
    define bs where "bs = map (GetA85Result ((a85_res st * 85 + (unat ch - 33)) mod 2 ^ 32)) [0..<4]"
    have cnt: "a85_count src (pos + 1) z = (p, q)" using p(1) full by simp
    have "z + (g + 1) \<le> q + (p - q) div 5" by (rule a85_room [OF cnt]) (use p(3,4) full in simp_all)
    then have r: "a85_size st + length bs \<le> length (a85_dest st)" using p(2,6) by (simp add: bs_def)
    have "a85_post (pos + 1 + length src) \<lparr>a85_dest = memcpy (a85_dest st) (a85_size st) bs,
        a85_size = a85_size st + length bs, a85_digits = 0, a85_res = 0\<rparr> (a85_emit src 0 0)
        (a85_loop src (pos + 1) \<lparr>a85_dest = memcpy (a85_dest st) (a85_size st) bs,
        a85_size = a85_size st + 4, a85_digits = 0, a85_res = 0\<rparr>)"
      using 2(4) [OF full(1-3) refl, of "memcpy (a85_dest st) (a85_size st) bs" z "g + 1"] cnt p r full(4)
        write_all_Some [OF r] by (simp add: bs_def)
    then show ?thesis
      using full r a85_post_append [of "pos + 1 + length src" st bs 0 0 "a85_emit src 0 0"]
      by (simp add: write_all_Some Let_def bs_def)
  qed
qed


lemma A85Decode_data:
  assumes "length src < 2 ^ 30 - 1"
  shows "\<exists>off. A85Decode src = Decoded off (a85_data src) \<and> off \<le> length src"
proof (cases "src = [] \<or> fst (a85_count src 0 0) = 0")
  case True
  moreover have "a85_emit src 0 0 = ([], 0, 0)" if "fst (a85_count src 0 0) = 0"
  proof (cases src)
    case (Cons ch s)
    have seen: "(fst (a85_count s (Suc 0) z) = 0) = False" for z
      using a85_count_mono [of s "Suc 0" z] by (cases "a85_count s (Suc 0) z") auto
    then show ?thesis using that Cons by (auto simp del: neq0_conv simp: seen split: if_splits)
  qed simp
  ultimately show ?thesis by (auto simp: A85Decode_def a85_data_def a85_tail_def split: prod.splits)
next
  case False
  obtain p q where pq: "a85_count src 0 0 = (p, q)" by fastforce
  have bound: "p \<le> length src" "q \<le> p" using a85_count_bound [OF pq] by simp_all
  define size where "size = q * 4 + ((p - q) div 5 * 4 + 4)"
  define st where "st = \<lparr>a85_dest = replicate size 0, a85_size = 0, a85_digits = 0, a85_res = 0\<rparr>"
  have "a85_post (0 + length src) st (a85_emit src 0 0) (a85_loop src 0 st)"
    using a85_loop_emit [OF pq, of st 0] by (simp add: st_def size_def)
  then obtain pos' st' where l: "a85_loop src 0 st = Some (pos', st')"
      "take (a85_size st') (a85_dest st') = fst (a85_emit src 0 0)"
      "(a85_digits st', a85_res st') = snd (a85_emit src 0 0)" "a85_digits st' \<le> 4"
      "a85_size st' + 4 \<le> length (a85_dest st')" "pos' \<le> length src"
    by (auto simp: a85_post_def st_def)
  have part: "\<exists>n d. a85_partial st' = Some (n, d) \<and>
      take n d = take (a85_size st') (a85_dest st') @ a85_tail (a85_digits st') (a85_res st')"
  proof (cases "a85_digits st' = 0")
    case False
    define tail where "tail = a85_tail (a85_digits st') (a85_res st')"
    have "length tail \<le> 3" using l(4) by (auto simp: tail_def a85_tail_def)
    then have "a85_size st' + length tail \<le> length (a85_dest st')" using l(5) by simp
    then show ?thesis
      using False write_all_Some [of "a85_size st'" tail "a85_dest st'"] take_memcpy [of "a85_size st'" tail "a85_dest st'"]
      by (simp add: a85_partial_def Let_def) (simp add: tail_def a85_tail_def)
  qed (simp add: a85_partial_def a85_tail_def)
  have "size \<le> 4 * p + 4" using bound div_le_dividend [of "p - q" 5] by (simp add: size_def)
  then have "size < 2 ^ 32" using bound assms by simp
  moreover have "src \<noteq> []" "p \<noteq> 0" using False pq by auto
  ultimately have "A85Decode src = Decoded (if pos' < length src \<and> src ! pos' = 62 then pos' + 1 else pos') (a85_data src)"
    unfolding A85Decode_def pq Let_def prod.case size_def [symmetric] st_def [symmetric] l(1)
    using l(2,3) part by (cases "a85_emit src 0 0") (auto simp: a85_data_def)
  then show ?thesis using l(6) by auto
qed

section \<open>The encoder writes inside its buffer\<close>

definition a85_char :: "nat \<Rightarrow> byte" where
  "a85_char v = of_nat (v mod 85) + 33"

text \<open>The first \<open>n\<close> of the five characters of a group.\<close>

definition a85_chars :: "nat \<Rightarrow> nat \<Rightarrow> bytes" where
  "a85_chars n val = map (\<lambda>i. a85_char (val div 85 ^ (4 - i))) [0..<n]"

lemma length_a85_chars [simp]: "length (a85_chars n val) = n"
  by (simp add: a85_chars_def)

lemma put_digits_chars:
  assumes "k \<le> limit + 1" and "out + (limit + 1) \<le> length dest" and "k \<le> 5"
  shows "put_digits k limit out val dest = Some (memcpy dest out (map (\<lambda>i. a85_char (val div 85 ^ (k - 1 - i))) [0..<k]))"
  using assms
proof (induction k arbitrary: val dest)
  case 0
  then show ?case by (simp add: memcpy_def)
next
  case (Suc k)
  have eq: "map (\<lambda>i. a85_char (val div 85 ^ (k - i))) [0..<k] =
      map (\<lambda>i. a85_char (val div 85 div 85 ^ (k - Suc 0 - i))) [0..<k]"
    by (auto simp: div_mult2_eq [symmetric] Suc_diff_Suc simp flip: power_Suc)
  show ?case
    using Suc.prems Suc.IH [of "dest[out + k := a85_char val]" "val div 85"]
    by (simp add: codec a85_char_def [symmetric] eq) (simp add: memcpy_def drop_head a85_char_def)
qed

lemma put_digits_skip:
  assumes "limit < k"
  shows "put_digits k limit out val dest = put_digits (limit + 1) limit out (val div 85 ^ (k - (limit + 1))) dest"
  using assms
proof (induction k arbitrary: val)
  case (Suc k)
  show ?case
  proof (cases "k = limit")
    case False
    then have "val div 85 div 85 ^ (k - (limit + 1)) = val div 85 ^ (Suc k - (limit + 1))"
      using Suc.prems by (simp add: div_mult2_eq [symmetric] Suc_diff_Suc flip: power_Suc)
    moreover have "put_digits (Suc k) limit out val dest = put_digits k limit out (val div 85) dest"
      using False Suc.prems by simp
    ultimately show ?thesis using Suc.IH [of "val div 85"] False Suc.prems by (simp del: put_digits.simps)
  qed simp
qed simp

lemma put_digits_five:
  assumes "limit \<le> 4" and "out + (limit + 1) \<le> length dest"
  shows "put_digits 5 limit out val dest = Some (memcpy dest out (a85_chars (limit + 1) val))"
proof -
  have "map (\<lambda>i. a85_char (val div 85 ^ (4 - limit) div 85 ^ (limit - i))) [0..<limit + 1] = a85_chars (limit + 1) val"
    using assms(1) by (auto simp: a85_chars_def div_mult2_eq [symmetric] power_add [symmetric])
  then show ?thesis
    using put_digits_skip [of limit 5 out val dest] put_digits_chars [of "limit + 1" limit out dest] assms by simp
qed


text \<open>The text of the whole groups and the bytes left over.\<close>

fun a85_text :: "bytes \<Rightarrow> nat \<Rightarrow> bytes \<times> bytes" where
  "a85_text (a # b # c # d # src) line_length =
    (let val = FXSYS_UINT32_GET_MSBFIRST a b c d;
         t = (if val = 0 then [122] else a85_chars 5 val) in
     if 75 \<le> line_length + length t then apfst ((@) (t @ [13, 10])) (a85_text src 0)
     else apfst ((@) t) (a85_text src (line_length + length t)))"
| "a85_text src line_length = ([], src)"

lemma memcpy_memcpy: "out + length a + length b \<le> length dest \<Longrightarrow>
    memcpy (memcpy dest out a) (out + length a) b = memcpy dest out (a @ b)"
  by (simp add: memcpy_def add.commute add.left_commute)

lemma write_at_memcpy: "out < length dest \<Longrightarrow> write_at dest out v = Some (memcpy dest out [v])"
  by (simp add: write_at_def memcpy_def upd_conv_take_nth_drop)

lemma a85_group_write:
  assumes "out + length t \<le> length dest" and "t = (if val = 0 then [122] else a85_chars 5 val)"
  shows "(if val = 0 then map_option (\<lambda>dest. (out + 1, dest, ll + 1)) (write_at dest out 122)
      else map_option (\<lambda>dest. (out + 5, dest, ll + 5)) (put_digits 5 4 out val dest)) =
    Some (out + length t, memcpy dest out t, ll + length t)"
  using assms put_digits_five [of 4 out dest val] by (auto simp: write_at_memcpy split: if_splits)

lemma a85_groups_text:
  "out + length (fst (a85_text src ll)) \<le> length dest \<Longrightarrow>
   a85_groups src out dest ll = Some (snd (a85_text src ll), out + length (fst (a85_text src ll)), memcpy dest out (fst (a85_text src ll)))"
proof (induction src ll arbitrary: out dest rule: a85_text.induct)
  case (1 a b c d src ll)
  define val where "val = FXSYS_UINT32_GET_MSBFIRST a b c d"
  define t where "t = (if val = 0 then [122] else a85_chars 5 val)"
  have t5: "out + length t \<le> length dest" using 1(3) by (auto simp: Let_def val_def [symmetric] t_def [symmetric] split: if_splits)
  note grp = a85_group_write [OF t5 t_def, of ll]
  show ?case
  proof (cases "75 \<le> ll + length t")
    case True
    have shape: "a85_text (a # b # c # d # src) ll = apfst ((@) (t @ [13, 10])) (a85_text src 0)"
      using True by (simp add: Let_def val_def [symmetric] t_def [symmetric])
    have room: "out + length t + 2 + length (fst (a85_text src 0)) \<le> length dest" using 1(3) shape by simp
    have "a85_groups (a # b # c # d # src) out dest ll = a85_groups src (out + length t + 2) (memcpy dest out (t @ [13, 10])) 0"
      using True room write_all_Some [of "out + length t" "[13, 10]" "memcpy dest out t"] memcpy_memcpy [of out t "[13, 10]" dest]
      by (simp add: Let_def val_def [symmetric] grp)
    then show ?thesis
      using 1(1) [OF val_def t_def True, of "out + length t + 2" "memcpy dest out (t @ [13, 10])"] room shape
        memcpy_memcpy [of out "t @ [13, 10]" "fst (a85_text src 0)" dest]
      by (simp add: add.commute add.left_commute)
  next
    case False
    have shape: "a85_text (a # b # c # d # src) ll = apfst ((@) t) (a85_text src (ll + length t))"
      using False by (simp add: Let_def val_def [symmetric] t_def [symmetric])
    have room: "out + length t + length (fst (a85_text src (ll + length t))) \<le> length dest" using 1(3) shape by simp
    have "a85_groups (a # b # c # d # src) out dest ll = a85_groups src (out + length t) (memcpy dest out t) (ll + length t)"
      using False by (simp add: Let_def val_def [symmetric] grp)
    then show ?thesis
      using 1(2) [OF val_def t_def False, of "out + length t" "memcpy dest out t"] room shape
        memcpy_memcpy [of out t "fst (a85_text src (ll + length t))" dest] t5
      by (simp add: add.commute add.left_commute)
  qed
qed (simp_all add: memcpy_def)

lemma length_a85_text:
  "length (fst (a85_text src ll)) \<le> 5 * (length src div 4) + 2 * ((ll + 5 * (length src div 4)) div 75)"
proof (induction src ll rule: a85_text.induct)
  case (1 a b c d src ll)
  define val where "val = FXSYS_UINT32_GET_MSBFIRST a b c d"
  define t where "t = (if val = 0 then [122] else a85_chars 5 val)"
  have t: "length t = 1 \<or> length t = 5" by (simp add: t_def)
  have len: "length (a # b # c # d # src) div 4 = Suc (length src div 4)" by simp
  show ?case
  proof (cases "75 \<le> ll + length t")
    case True
    then have "length (fst (a85_text (a # b # c # d # src) ll)) = length t + 2 + length (fst (a85_text src 0))"
      by (simp add: Let_def val_def [symmetric] t_def [symmetric])
    moreover have "75 + 5 * (length src div 4) \<le> ll + 5 * Suc (length src div 4)" using True t by auto
    then have "1 + 5 * (length src div 4) div 75 \<le> (ll + 5 * Suc (length src div 4)) div 75"
      using div_le_mono [of "75 + 5 * (length src div 4)" _ 75] by simp
    ultimately show ?thesis using 1(1) [OF val_def t_def] True t unfolding len by fastforce
  next
    case False
    then have "length (fst (a85_text (a # b # c # d # src) ll)) = length t + length (fst (a85_text src (ll + length t)))"
      by (simp add: Let_def val_def [symmetric] t_def [symmetric])
    moreover have "(ll + length t + 5 * (length src div 4)) div 75 \<le> (ll + 5 * Suc (length src div 4)) div 75"
      using t by (intro div_le_mono) auto
    ultimately show ?thesis using 1(2) [OF val_def t_def] False t unfolding len by fastforce
  qed
qed simp_all


definition a85_rest :: "bytes \<Rightarrow> bytes" where
  "a85_rest r = (if r = [] then [] else a85_chars (length r + 1) (leftover_val r 0 0))"

definition a85_encoded :: "bytes \<Rightarrow> bytes" where
  "a85_encoded src = fst (a85_text src 0) @ a85_rest (snd (a85_text src 0)) @ [126, 62]"

lemma length_a85_left: "length (snd (a85_text src ll)) = length src mod 4"
  by (induction src ll rule: a85_text.induct) (auto simp: Let_def)

lemma a85_estimate:
  "length (a85_encoded src) \<le> length src div 4 * 5 + 4 + length src div 30 + 2"
proof -
  have "5 * (length src div 4) div (5 * 15) = length src div 30 div 2"
    unfolding div_mult_mult1_if by (simp flip: div_mult2_eq)
  then have "2 * ((0 + 5 * (length src div 4)) div 75) \<le> length src div 30" by simp
  moreover have "length (a85_rest (snd (a85_text src 0))) \<le> length src mod 4 + 1"
    using length_a85_left [of src 0] by (simp add: a85_rest_def)
  moreover have "length src mod 4 < 4" by simp
  ultimately show ?thesis using length_a85_text [of src 0] by (simp add: a85_encoded_def)
qed

lemma A85Encode_encoded:
  assumes "src \<noteq> []"
  shows "A85Encode src = Some (Some (a85_encoded src))"
proof -
  define est where "est = length src div 4 * 5 + 4 + length src div 30 + 2"
  obtain t r where tr: "a85_text src 0 = (t, r)" by fastforce
  have room: "length t + length (a85_rest r) + 2 \<le> est" using a85_estimate [of src] tr by (simp add: a85_encoded_def est_def)
  have "a85_leftover r n dest = Some (n + length (a85_rest r), memcpy dest n (a85_rest r))"
    if "n + length (a85_rest r) \<le> length dest" for n dest
    using that put_digits_five [of "length r" n dest] length_a85_left [of src 0] tr
    by (auto simp: a85_leftover_def a85_rest_def memcpy_def split: if_splits)
  from this [of "length t" "memcpy (replicate est 0) 0 t"] show ?thesis
    using assms room a85_groups_text [of 0 src 0 "replicate est 0"] tr
      memcpy_memcpy [of 0 t "a85_rest r" "replicate est 0"]
      write_all_Some [of "length t + length (a85_rest r)" "[126, 62]" "memcpy (replicate est 0) 0 (t @ a85_rest r)"]
      take_memcpy [of "length t + length (a85_rest r)" "[126, 62]" "memcpy (replicate est 0) 0 (t @ a85_rest r)"]
      take_memcpy [of 0 "t @ a85_rest r" "replicate est 0"]
    unfolding A85Encode_def Let_def est_def [symmetric]
    by (simp add: a85_encoded_def del: write_all.simps)
qed

section \<open>Decoding what was encoded\<close>

lemma unat_a85_char: "unat (a85_char v) = v mod 85 + 33"
proof -
  have "unat (of_nat (v mod 85) :: byte) = v mod 85" by (simp add: unat_of_nat)
  moreover have "v mod 85 < 85" by simp
  ultimately show ?thesis by (simp add: a85_char_def unat_word_ariths)
qed

lemma a85_emit_char:
  "a85_emit (a85_char v # s) k res =
    (let res = (res * 85 + v mod 85) mod 2 ^ 32 in
     if k < 4 then a85_emit s (k + 1) res else apfst ((@) (map (GetA85Result res) [0..<4])) (a85_emit s 0 0))"
proof -
  have "v mod 85 < 85" by simp
  then have "\<not> a85_blank (a85_char v)" "a85_char v \<noteq> 122" "\<not> a85_char v < 33" "\<not> 117 < a85_char v"
    by (auto simp: a85_blank_def PDFCharIsLineEnding_def word_unat_eq_iff word_less_nat_alt unat_a85_char)
  then show ?thesis by (simp add: unat_a85_char)
qed

declare a85_emit.simps(2) [simp del]

text \<open>Reading the digits rebuilds the value from its leading digits.\<close>

lemma a85_emit_chars:
  assumes "val < 2 ^ 32" and "n \<le> 4"
  shows "a85_emit (a85_chars n val @ s) 0 0 = a85_emit s n (val div 85 ^ (5 - n))"
  using assms(2)
proof (induction n arbitrary: s)
  case 0
  then show ?case using assms(1) by (simp add: a85_chars_def)
next
  case (Suc n)
  have "a85_chars (Suc n) val = a85_chars n val @ [a85_char (val div 85 ^ (4 - n))]" by (simp add: a85_chars_def)
  moreover have "val div 85 ^ (5 - n) * 85 + val div 85 ^ (4 - n) mod 85 = val div 85 ^ (4 - n)"
  proof -
    have "5 - n = Suc (4 - n)" using Suc.prems by simp
    then have "val div 85 ^ (5 - n) = val div 85 ^ (4 - n) div 85" by (simp only: power_Suc2 div_mult2_eq)
    then show ?thesis by (simp only: div_mult_mod_eq)
  qed
  moreover have "val div 85 ^ (4 - n) < 2 ^ 32" using assms(1) by (meson div_le_dividend le_less_trans)
  ultimately show ?case using Suc by (simp add: a85_emit_char Let_def)
qed

lemma a85_emit_group:
  assumes "val < 2 ^ 32"
  shows "a85_emit (a85_chars 5 val @ s) 0 0 = apfst ((@) (map (GetA85Result val) [0..<4])) (a85_emit s 0 0)"
proof -
  have "a85_chars 5 val = a85_chars 4 val @ [a85_char val]" 
    using upt_Suc [of 0 4] by (simp add: a85_chars_def)
  moreover have "val div 85 * 85 + val mod 85 = val" by simp
  ultimately show ?thesis using a85_emit_chars [OF assms, of 4] assms by (simp add: a85_emit_char Let_def)
qed


lemma msb_first_bound: "FXSYS_UINT32_GET_MSBFIRST a b c d < 2 ^ 32"
proof -
  have "unat a < 256" "unat b < 256" "unat c < 256" "unat d < 256"
    using unsigned_less [of a] unsigned_less [of b] unsigned_less [of c] unsigned_less [of d] by simp_all
  then show ?thesis by (simp add: FXSYS_UINT32_GET_MSBFIRST_def)
qed

text \<open>The four bytes of a value, by their digits in base 256.\<close>

lemma bytes_of_msb_first: "map (GetA85Result (FXSYS_UINT32_GET_MSBFIRST a b c d)) [0..<4] = [a, b, c, d]"
proof -
  have last_byte: "of_nat (q * 256 + unat x) = x" "(q * 256 + unat x) div 256 = q" for q and x :: byte
    using unsigned_less [where 'a = nat, of x]
    by (simp_all add: word_unat_eq_iff unat_of_nat del: of_nat_add of_nat_mult)
  define v1 where "v1 = unat a * 256 + unat b"
  define v2 where "v2 = v1 * 256 + unat c"
  define v3 where "v3 = v2 * 256 + unat d"
  have v: "FXSYS_UINT32_GET_MSBFIRST a b c d = v3"
    by (simp add: FXSYS_UINT32_GET_MSBFIRST_def v1_def v2_def v3_def)
  have d1: "v3 div 256 = v2" "v2 div 256 = v1" "v1 div 256 = unat a"
    using last_byte(2) by (simp_all only: v1_def v2_def v3_def)
  have "v3 div 2 ^ 8 = v2" "v3 div 2 ^ 16 = v1" "v3 div 2 ^ 24 = unat a"
    using d1 div_mult2_eq [of v3 256 256] div_mult2_eq [of v3 65536 256] by simp_all
  moreover have "of_nat v3 = d" "of_nat v2 = c" "of_nat v1 = b"
    using last_byte(1) by (simp_all only: v1_def v2_def v3_def)
  moreover have "[0..<4] = [0, 1, 2, 3 :: nat]" by (simp add: upt_rec)
  ultimately show ?thesis unfolding v by (simp add: GetA85Result_def)
qed

text \<open>
  A partial group of \<open>n\<close> bytes is the value \<open>w\<close> of its bytes followed by \<open>m = 4 - n\<close> zero bytes; cutting
  the last \<open>m\<close> digits and completing with the highest digit changes it by less than \<open>85 ^ m\<close>.
\<close>

lemma complete_digits:
  fixes r :: nat
  assumes "r * 85 ^ m + (85 ^ m - 1) < 2 ^ 32"
  shows "((\<lambda>r. (r * 85 + 84) mod 2 ^ 32) ^^ m) r = r * 85 ^ m + (85 ^ m - 1)"
  using assms
proof (induction m arbitrary: r)
  case (Suc m)
  have p: "(1 :: nat) \<le> 85 ^ m" by simp
  have eq: "(r * 85 + 84) * 85 ^ m + (85 ^ m - 1) = r * 85 ^ Suc m + (85 ^ Suc m - 1)"
    using p by (simp add: algebra_simps)
  then have "(r * 85 + 84) * 85 ^ m < 2 ^ 32" using Suc.prems by linarith
  then have "r * 85 + 84 < 2 ^ 32" using p by (metis le_less_trans mult.right_neutral mult_le_mono2)
  then show ?case using Suc eq by (simp add: funpow_Suc_right del: funpow.simps)
qed simp

lemma completed_value:
  fixes w m :: nat
  assumes "w * 256 ^ m < 2 ^ 32" and "m \<le> 4"
  defines "v \<equiv> w * 256 ^ m div 85 ^ m * 85 ^ m + (85 ^ m - 1)"
  shows "v < 2 ^ 32" and "v div 256 ^ m = w"
proof -
  define M :: nat where "M = 256 ^ m"
  define P :: nat where "P = 85 ^ m"
  have P: "0 < P" "P \<le> M" by (simp_all add: P_def M_def power_mono)
  have "w * M div P * P + w * M mod P = w * M" "w * M mod P < P" using P by simp_all
  then have v: "w * M \<le> v" "v < w * M + M" using P unfolding v_def M_def [symmetric] P_def [symmetric] by linarith+
  have "2 ^ 32 = 256 ^ (4 - m) * M" using assms(2) by (simp add: M_def flip: power_add)
  moreover from this have "w * M < 256 ^ (4 - m) * M" using assms(1) unfolding M_def by metis
  then have "w < 256 ^ (4 - m)" by simp
  ultimately have "w * M + M \<le> 2 ^ 32" by (metis Suc_leI mult_Suc mult_le_mono1 add.commute)
  then show "v < 2 ^ 32" using v by linarith
  show "v div 256 ^ m = w" unfolding M_def [symmetric]
    by (rule div_nat_eqI) (use v in \<open>simp_all add: mult.commute\<close>)
qed

lemma a85_tail_completed:
  assumes "w * 256 ^ m < 2 ^ 32" and "n + m = 4" and "0 < n"
  shows "a85_tail (n + 1) (w * 256 ^ m div 85 ^ m) = map (GetA85Result (w * 256 ^ m)) [0..<n]"
proof -
  define v where "v = w * 256 ^ m div 85 ^ m * 85 ^ m + (85 ^ m - 1)"
  have v: "v < 2 ^ 32" "v div 256 ^ m = w" using completed_value [OF assms(1)] assms(2) by (simp_all add: v_def)
  have same: "GetA85Result v i = GetA85Result (w * 256 ^ m) i" if "i < n" for i
  proof -
    have "(3 - i) * 8 = 8 * m + 8 * (3 - i - m)" using that assms(2) by simp
    then have "(2 :: nat) ^ ((3 - i) * 8) = 256 ^ m * 2 ^ (8 * (3 - i - m))"
      by (simp only: power_add power_mult) simp
    then show ?thesis by (simp only: GetA85Result_def div_mult2_eq v(2)) simp
  qed
  have "((\<lambda>r. (r * 85 + 84) mod 2 ^ 32) ^^ m) (w * 256 ^ m div 85 ^ m) = v"
    using complete_digits [of "w * 256 ^ m div 85 ^ m" m] v(1) by (simp only: v_def)
  moreover have "5 - (n + 1) = m" using assms(2) by simp
  ultimately show ?thesis using same by (simp add: a85_tail_def)
qed

lemma leftover_bytes:
  assumes "0 < length r" and "length r < 4"
  shows "\<exists>w. leftover_val r 0 0 = w * 256 ^ (4 - length r)" "leftover_val r 0 0 < 2 ^ 32"
    "map (GetA85Result (leftover_val r 0 0)) [0..<length r] = r"
proof -
  consider a where "r = [a]" | a b where "r = [a, b]" | a b c where "r = [a, b, c]"
    using assms by (cases r; cases "tl r"; cases "tl (tl r)"; cases "tl (tl (tl r))") auto
  then have *: "(\<exists>w. leftover_val r 0 0 = w * 256 ^ (4 - length r)) \<and> leftover_val r 0 0 < 2 ^ 32 \<and>
    map (GetA85Result (leftover_val r 0 0)) [0..<length r] = r"
  proof cases
    case (1 a)
    then show ?thesis
      using bytes_of_msb_first [of a 0 0 0] msb_first_bound [of a 0 0 0]
      by (auto simp: FXSYS_UINT32_GET_MSBFIRST_def upt_rec)
  next
    case (2 a b)
    then show ?thesis
      using bytes_of_msb_first [of a b 0 0] msb_first_bound [of a b 0 0]
      by (auto simp: FXSYS_UINT32_GET_MSBFIRST_def upt_rec intro!: exI [of _ "unat a * 256 + unat b"])
  next
    case (3 a b c)
    then show ?thesis
      using bytes_of_msb_first [of a b c 0] msb_first_bound [of a b c 0]
      by (auto simp: FXSYS_UINT32_GET_MSBFIRST_def upt_rec
          intro!: exI [of _ "(unat a * 256 + unat b) * 256 + unat c"])
  qed
  then show "\<exists>w. leftover_val r 0 0 = w * 256 ^ (4 - length r)" "leftover_val r 0 0 < 2 ^ 32"
    "map (GetA85Result (leftover_val r 0 0)) [0..<length r] = r" by blast+
qed

lemma a85_emit_misc [simp]:
  "a85_emit (13 # s) k res = a85_emit s k res" "a85_emit (10 # s) k res = a85_emit s k res"
  "a85_emit (122 # s) k res = apfst ((@) [0, 0, 0, 0]) (a85_emit s 0 0)"
  "a85_emit (126 # s) k res = ([], k, res)"
  by (simp_all add: a85_emit.simps a85_blank_def PDFCharIsLineEnding_def)

lemma msb_first_zero: "FXSYS_UINT32_GET_MSBFIRST a b c d = 0 \<longleftrightarrow> a = 0 \<and> b = 0 \<and> c = 0 \<and> d = 0"
  by (auto simp: FXSYS_UINT32_GET_MSBFIRST_def word_unat_eq_iff)

lemma a85_emit_text:
  "\<exists>front. src = front @ snd (a85_text src ll) \<and>
    a85_emit (fst (a85_text src ll) @ s) 0 0 = apfst ((@) front) (a85_emit s 0 0)"
proof (induction src ll rule: a85_text.induct)
  case (1 a b c d src ll)
  define val where "val = FXSYS_UINT32_GET_MSBFIRST a b c d"
  define t where "t = (if val = 0 then [122] else a85_chars 5 val)"
  have grp: "a85_emit (t @ u) 0 0 = apfst ((@) [a, b, c, d]) (a85_emit u 0 0)" for u
    using a85_emit_group [OF msb_first_bound, of a b c d u] bytes_of_msb_first [of a b c d] msb_first_zero [of a b c d]
    by (simp add: t_def val_def)
  have apfst2: "apfst ((@) xs) (apfst ((@) ys) p) = apfst ((@) (xs @ ys)) p" for xs ys and p :: "bytes \<times> nat \<times> nat"
    by (cases p) simp
  show ?case
  proof (cases "75 \<le> ll + length t")
    case True
    obtain front where "src = front @ snd (a85_text src 0)"
        "a85_emit (fst (a85_text src 0) @ s) 0 0 = apfst ((@) front) (a85_emit s 0 0)"
      using 1(1) [OF val_def t_def True] by blast
    then show ?thesis using True
      by (auto simp: Let_def val_def [symmetric] t_def [symmetric] grp apfst2 intro!: exI [of _ "a # b # c # d # front"])
  next
    case False
    obtain front where "src = front @ snd (a85_text src (ll + length t))"
        "a85_emit (fst (a85_text src (ll + length t)) @ s) 0 0 = apfst ((@) front) (a85_emit s 0 0)"
      using 1(2) [OF val_def t_def False] by blast
    then show ?thesis using False
      by (auto simp: Let_def val_def [symmetric] t_def [symmetric] grp apfst2 intro!: exI [of _ "a # b # c # d # front"])
  qed
qed (simp_all add: apfst_def map_prod_def split: prod.split)


lemma a85_data_encoded: "a85_data (a85_encoded src) = src"
proof -
  define r where "r = snd (a85_text src 0)"
  obtain front where f: "src = front @ r"
      "a85_emit (a85_encoded src) 0 0 = apfst ((@) front) (a85_emit (a85_rest r @ [126, 62]) 0 0)"
    using a85_emit_text [of src 0 "a85_rest r @ [126, 62]"] by (auto simp: r_def a85_encoded_def)
  show ?thesis
  proof (cases "r = []")
    case True
    then show ?thesis using f by (simp add: a85_data_def a85_rest_def a85_tail_def)
  next
    case False
    have len: "0 < length r" "length r < 4" using False length_a85_left [of src 0]
      by (simp, simp add: r_def)
    note lb = leftover_bytes [OF len]
    obtain w where w: "leftover_val r 0 0 = w * 256 ^ (4 - length r)" using lb(1) by blast
    have "a85_emit (a85_rest r @ [126, 62]) 0 0 = ([], length r + 1, leftover_val r 0 0 div 85 ^ (4 - length r))"
      using False a85_emit_chars [OF lb(2), of "length r + 1" "[126, 62]"] len by (simp add: a85_rest_def)
    moreover have "a85_tail (length r + 1) (leftover_val r 0 0 div 85 ^ (4 - length r)) = r"
      using a85_tail_completed [of w "4 - length r" "length r"] lb(2,3) len by (simp add: w)
    ultimately show ?thesis using f by (simp add: a85_data_def)
  qed
qed

section \<open>Properties\<close>

text \<open>
  decoding base-85 text of fewer than 2 to the 30 (less one) characters never writes outside the
  buffer whose size was computed from the counts of characters and zero groups, whatever the text, and
  returns the bytes the text stands for together with an offset inside the input.
\<close>

theorem a85_decode_safe:
  assumes "length src < 2 ^ 30 - 1"
  shows "\<exists>off. A85Decode src = Decoded off (a85_data src) \<and> off \<le> length src"
  by (rule A85Decode_data [OF assms])

theorem a85_decode_safe_witness: "\<exists>off. A85Decode [122, 33, 33] = Decoded off (a85_data [122, 33, 33]) \<and> off \<le> length [122 :: byte, 33, 33]"
  by (rule a85_decode_safe) simp

text \<open>
  C24: encoding never writes past the estimated buffer, line breaks and zero groups included, and
  decoding the text gives the data back, whatever the number of bytes in the last group.
\<close>

theorem a85_roundtrip:
  assumes "src \<noteq> []" and "2 * length src < 2 ^ 29"
  shows "\<exists>text off. A85Encode src = Some (Some text) \<and>
    length text \<le> length src div 4 * 5 + 4 + length src div 30 + 2 \<and> A85Decode text = Decoded off src"
proof -
  have "length src div 4 * 5 + 4 + length src div 30 + 2 \<le> 2 * length src + 6"
    using div_le_mono2 [of 4 30 "length src"] by simp
  then have "length (a85_encoded src) < 2 ^ 30 - 1" using a85_estimate [of src] assms(2) by simp
  then show ?thesis
    using A85Decode_data [of "a85_encoded src"] A85Encode_encoded [OF assms(1)] a85_estimate [of src]
    by (auto simp: a85_data_encoded)
qed

theorem a85_roundtrip_witness:
  "\<exists>text off. A85Encode [1, 2, 3, 4, 5] = Some (Some text) \<and> length text \<le> 11 \<and> A85Decode text = Decoded off [1, 2, 3, 4, 5]"
  using a85_roundtrip [of "[1, 2, 3, 4, 5]"] by simp

end
