(* ===== verification/Pdf_Syntax.thy ===== *)
theory Pdf_Syntax
  imports Ascii85 Fx_Number
begin

text \<open>
  The lexer of PDF files, src/core/fpdfapi/parser/cpdf_syntax_parser.cpp, with the character classes of
  fpdf_parser_utility.cpp.  The file is a byte list behind a block buffer of 512 bytes, as
  CPDF_ReadValidator presents it when every requested range is available; positions are natural numbers
  relative to the header offset.  A failed read is \<open>None\<close> and leaves the state as it was.
\<close>

section \<open>Character classes\<close>

datatype char_class = Whitespace | Numeric | Delimiter | Other

definition PDF_CharType :: "char_class list" where
  "PDF_CharType =
    [Whitespace, Other, Other, Other, Other, Other, Other, Other, Other, Whitespace, Whitespace, Other, Whitespace,
     Whitespace, Other, Other] @
    replicate 16 Other @
    [Whitespace, Other, Other, Other, Other, Delimiter, Other, Other, Delimiter, Delimiter, Other, Numeric, Other,
     Numeric, Numeric, Delimiter] @
    replicate 10 Numeric @ [Other, Other, Delimiter, Other, Delimiter, Other] @
    replicate 16 Other @
    replicate 11 Other @ [Delimiter, Other, Delimiter, Other, Other] @
    replicate 16 Other @
    replicate 11 Other @ [Delimiter, Other, Delimiter, Other, Other] @
    [Whitespace] @ replicate 126 Other @ [Whitespace]"

definition PDFCharIsWhitespace :: "byte \<Rightarrow> bool" where
  "PDFCharIsWhitespace c \<longleftrightarrow> PDF_CharType ! unat c = Whitespace"

definition PDFCharIsNumeric :: "byte \<Rightarrow> bool" where
  "PDFCharIsNumeric c \<longleftrightarrow> PDF_CharType ! unat c = Numeric"

definition PDFCharIsDelimiter :: "byte \<Rightarrow> bool" where
  "PDFCharIsDelimiter c \<longleftrightarrow> PDF_CharType ! unat c = Delimiter"

definition PDFCharIsOther :: "byte \<Rightarrow> bool" where
  "PDFCharIsOther c \<longleftrightarrow> PDF_CharType ! unat c = Other"

lemma length_PDF_CharType: "length PDF_CharType = 256"
  by (simp add: PDF_CharType_def)

section \<open>Reading characters\<close>

definition kFileBufSize :: nat where
  "kFileBufSize = 512"

record syntax_parser =
  m_pFileAccess :: bytes
  m_HeaderOffset :: nat
  m_Pos :: nat
  m_pFileBuf :: bytes
  m_BufOffset :: nat
  m_ReadBufferSize :: nat
  m_WordBuffer :: bytes
  m_TrailerEnds :: "nat list option"

abbreviation m_FileLen :: "syntax_parser \<Rightarrow> nat" where
  "m_FileLen p \<equiv> length (m_pFileAccess p)"

definition new_syntax_parser :: "bytes \<Rightarrow> nat \<Rightarrow> syntax_parser" where
  "new_syntax_parser data header = \<lparr>m_pFileAccess = data, m_HeaderOffset = header, m_Pos = 0, m_pFileBuf = [],
    m_BufOffset = 0, m_ReadBufferSize = kFileBufSize, m_WordBuffer = [], m_TrailerEnds = None\<rparr>"

definition IsPositionRead :: "nat \<Rightarrow> syntax_parser \<Rightarrow> bool" where
  "IsPositionRead pos p \<longleftrightarrow> m_BufOffset p \<le> pos \<and> pos < m_BufOffset p + length (m_pFileBuf p)"

definition ReadBlockAt :: "nat \<Rightarrow> syntax_parser \<Rightarrow> syntax_parser option" where
  "ReadBlockAt read_pos p =
    (if m_FileLen p \<le> read_pos then None
     else
       let read_size = (if m_FileLen p < read_pos + m_ReadBufferSize p then m_FileLen p - read_pos
                        else m_ReadBufferSize p)
       in Some (p\<lparr>m_pFileBuf := take read_size (drop read_pos (m_pFileAccess p)), m_BufOffset := read_pos\<rparr>))"

definition GetNextChar :: "syntax_parser \<Rightarrow> (byte \<times> syntax_parser) option" where
  "GetNextChar p =
    (let pos = m_Pos p + m_HeaderOffset p in
     if m_FileLen p \<le> pos then None
     else Option.bind (if IsPositionRead pos p then Some p else ReadBlockAt pos p) (\<lambda>p.
       Option.bind (read_at (m_pFileBuf p) (pos - m_BufOffset p)) (\<lambda>ch.
       Some (ch, p\<lparr>m_Pos := m_Pos p + 1\<rparr>))))"

definition GetCharAt :: "nat \<Rightarrow> syntax_parser \<Rightarrow> (byte \<times> syntax_parser) option" where
  "GetCharAt pos p = map_option (\<lambda>(ch, q). (ch, q\<lparr>m_Pos := m_Pos p\<rparr>)) (GetNextChar (p\<lparr>m_Pos := pos\<rparr>))"

definition GetCharAtBackward :: "nat \<Rightarrow> syntax_parser \<Rightarrow> (byte \<times> syntax_parser) option" where
  "GetCharAtBackward pos p =
    (let pos = pos + m_HeaderOffset p in
     if m_FileLen p \<le> pos then None
     else Option.bind
       (if IsPositionRead pos p then Some p
        else Option.bind (ReadBlockAt (if kFileBufSize \<le> pos then pos - kFileBufSize + 1 else 0) p) (\<lambda>p.
          if IsPositionRead pos p then Some p else None)) (\<lambda>p.
       map_option (\<lambda>ch. (ch, p)) (read_at (m_pFileBuf p) (pos - m_BufOffset p))))"

definition ReadBlock :: "nat \<Rightarrow> syntax_parser \<Rightarrow> (bytes \<times> syntax_parser) option" where
  "ReadBlock n p =
    (if m_Pos p + m_HeaderOffset p + n \<le> m_FileLen p
     then Some (take n (drop (m_Pos p + m_HeaderOffset p) (m_pFileAccess p)), p\<lparr>m_Pos := m_Pos p + n\<rparr>)
     else None)"

definition SetPos :: "nat \<Rightarrow> syntax_parser \<Rightarrow> syntax_parser" where
  "SetPos pos p = p\<lparr>m_Pos := min pos (m_FileLen p)\<rparr>"

definition GetDocumentSize :: "syntax_parser \<Rightarrow> nat" where
  "GetDocumentSize p = m_FileLen p - m_HeaderOffset p"

definition unread :: "syntax_parser \<Rightarrow> syntax_parser" where
  "unread p = p\<lparr>m_Pos := m_Pos p - 1\<rparr>"

text \<open>The part of the file that is still to be read.\<close>

definition unread_part :: "syntax_parser \<Rightarrow> bytes" where
  "unread_part p = drop (m_Pos p + m_HeaderOffset p) (m_pFileAccess p)"

abbreviation left :: "syntax_parser \<Rightarrow> nat" where
  "left p \<equiv> length (unread_part p)"

lemma GetNextChar_left: "GetNextChar p = Some (ch, q) \<Longrightarrow> left q < left p"
  by (auto simp: GetNextChar_def ReadBlockAt_def unread_part_def Let_def bind_eq_Some_conv split: if_splits)

section \<open>White space, comments and lines\<close>

function skip_whitespace :: "byte \<Rightarrow> syntax_parser \<Rightarrow> byte option \<times> syntax_parser" where
  "skip_whitespace ch p =
    (if PDFCharIsWhitespace ch
     then (case GetNextChar p of None \<Rightarrow> (None, p) | Some (ch, p) \<Rightarrow> skip_whitespace ch p)
     else (Some ch, p))"
  by pat_completeness auto
termination by (relation "measure (\<lambda>(ch, p). left p)") (auto dest: GetNextChar_left)

function skip_comment :: "syntax_parser \<Rightarrow> byte option \<times> syntax_parser" where
  "skip_comment p = (case GetNextChar p of None \<Rightarrow> (None, p)
    | Some (ch, p) \<Rightarrow> if PDFCharIsLineEnding ch then (Some ch, p) else skip_comment p)"
  by pat_completeness auto
termination by (relation "measure left") (auto dest: GetNextChar_left)

declare skip_whitespace.simps [simp del] skip_comment.simps [simp del]

lemma skip_whitespace_left: "left (snd (skip_whitespace ch p)) \<le> left p"
  by (induction ch p rule: skip_whitespace.induct)
    (subst skip_whitespace.simps, force split: option.split dest: GetNextChar_left)

lemma skip_comment_left: "skip_comment p = (Some ch, q) \<Longrightarrow> left q < left p"
proof (induction p rule: skip_comment.induct)
  case (1 p)
  then show ?case
    by (subst (asm) (2) skip_comment.simps) (force split: option.splits if_splits dest: GetNextChar_left)
qed

function next_word_loop :: "byte \<Rightarrow> syntax_parser \<Rightarrow> syntax_parser" where
  "next_word_loop ch p = (case skip_whitespace ch p of (None, p) \<Rightarrow> p
    | (Some ch, p) \<Rightarrow>
      if ch \<noteq> 37 then unread p
      else (case skip_comment p of (None, p) \<Rightarrow> p | (Some ch, p) \<Rightarrow> next_word_loop ch p))"
  by pat_completeness auto
termination
proof (relation "measure (\<lambda>(ch, p). left p)", simp)
  fix ch p x y x2 xa ya x2a
  assume "(x, y) = skip_whitespace ch p" and "(xa, ya) = skip_comment y" and "xa = Some x2a"
  then have "left y \<le> left p" "left ya < left y"
    using skip_whitespace_left [of ch p] skip_comment_left [of y x2a ya] by (metis snd_conv)+
  then show "((x2a, ya), ch, p) \<in> measure (\<lambda>(ch, p). left p)" by simp
qed

datatype EofState = kInitial | kNonPercent | kPercent | kE | kO | kF | kInvalid

definition record_trailer :: "syntax_parser \<Rightarrow> syntax_parser" where
  "record_trailer p = p\<lparr>m_TrailerEnds := map_option (\<lambda>ends. ends @ [m_Pos p]) (m_TrailerEnds p)\<rparr>"

text \<open>One character of the search for the end mark of a trailer; the character may change, see \<open>kF\<close>.\<close>

definition eof_step :: "EofState \<Rightarrow> byte \<Rightarrow> syntax_parser \<Rightarrow> EofState \<times> byte \<times> syntax_parser" where
  "eof_step eof_state ch p =
    (case eof_state of
       kInitial \<Rightarrow> (if \<not> PDFCharIsWhitespace ch then (if ch = 37 then kPercent else kNonPercent) else kInitial, ch, p)
     | kNonPercent \<Rightarrow> (kNonPercent, ch, p)
     | kPercent \<Rightarrow> (if ch = 69 then kE else if ch \<noteq> 37 then kInvalid else kPercent, ch, p)
     | kE \<Rightarrow> (if ch = 79 then kO else kInvalid, ch, p)
     | kO \<Rightarrow> (if ch = 70 then kF else kInvalid, ch, p)
     | kF \<Rightarrow>
       (let (ch, p) = (if ch = 13 then
                         (case GetNextChar p of None \<Rightarrow> (ch, p)
                          | Some (c, q) \<Rightarrow> if c \<noteq> 10 then (13, unread q) else (c, q))
                       else (ch, p));
            p = (if ch = 13 \<or> ch = 10 then record_trailer p else p)
        in (kInvalid, ch, p))
     | kInvalid \<Rightarrow> (kInvalid, ch, p))"

lemma record_trailer_part [simp]: "unread_part (record_trailer p) = unread_part p"
  by (simp add: record_trailer_def unread_part_def)

lemma GetNextChar_pos: "GetNextChar p = Some (ch, q) \<Longrightarrow> unread_part (unread q) = unread_part p"
  by (auto simp: GetNextChar_def ReadBlockAt_def unread_part_def unread_def Let_def bind_eq_Some_conv split: if_splits)

lemma eof_step_left: "left (snd (snd (eof_step st ch p))) \<le> left p"
  by (cases st) (auto simp: eof_step_def Let_def dest: GetNextChar_left GetNextChar_pos split: option.splits prod.splits)

function RecordingToNextWord :: "EofState \<Rightarrow> syntax_parser \<Rightarrow> syntax_parser" where
  "RecordingToNextWord eof_state p = (case GetNextChar p of None \<Rightarrow> p
    | Some (ch, p) \<Rightarrow>
      let (eof_state, ch, p) = eof_step eof_state ch p;
          eof_state = (if PDFCharIsLineEnding ch then kInitial else eof_state)
      in if eof_state = kNonPercent then unread p else RecordingToNextWord eof_state p)"
  by pat_completeness auto
termination
proof (relation "measure (\<lambda>(st, p). left p)", simp, goal_cases)
  case (1 st p x ch q y st1 z ch1 r st2)
  then show ?case using GetNextChar_left [of p ch q] eof_step_left [of st ch q] by (cases "eof_step st ch q") auto
qed

definition ToNextWord :: "syntax_parser \<Rightarrow> syntax_parser" where
  "ToNextWord p =
    (if m_TrailerEnds p \<noteq> None then RecordingToNextWord kInitial p
     else (case GetNextChar p of None \<Rightarrow> p | Some (ch, p) \<Rightarrow> next_word_loop ch p))"

function ToNextLine :: "syntax_parser \<Rightarrow> syntax_parser" where
  "ToNextLine p = (case GetNextChar p of None \<Rightarrow> p
    | Some (ch, p) \<Rightarrow>
      if ch = 10 then p
      else if ch = 13 then
        (case GetNextChar p of None \<Rightarrow> unread p | Some (ch, q) \<Rightarrow> if ch \<noteq> 10 then unread q else q)
      else ToNextLine p)"
  by pat_completeness auto
termination by (relation "measure left") (auto dest: GetNextChar_left)

declare next_word_loop.simps [simp del] RecordingToNextWord.simps [simp del] ToNextLine.simps [simp del]

section \<open>Words\<close>

datatype WordType = kWord | kNumber

text \<open>The word buffer keeps at most 256 bytes; further characters of a word are read and dropped.\<close>

definition push_word :: "byte \<Rightarrow> syntax_parser \<Rightarrow> syntax_parser" where
  "push_word ch p = (if length (m_WordBuffer p) < 256 then p\<lparr>m_WordBuffer := m_WordBuffer p @ [ch]\<rparr> else p)"

lemma push_word_part [simp]: "unread_part (push_word ch p) = unread_part p"
  by (simp add: push_word_def unread_part_def)

function name_loop :: "syntax_parser \<Rightarrow> syntax_parser" where
  "name_loop p = (case GetNextChar p of None \<Rightarrow> p
    | Some (ch, p) \<Rightarrow>
      if \<not> PDFCharIsOther ch \<and> \<not> PDFCharIsNumeric ch then unread p else name_loop (push_word ch p))"
  by pat_completeness auto
termination by (relation "measure left") (auto dest: GetNextChar_left)

function word_loop :: "byte \<Rightarrow> WordType \<Rightarrow> syntax_parser \<Rightarrow> WordType \<times> syntax_parser" where
  "word_loop ch word_type p =
    (let p = push_word ch p;
         word_type = (if \<not> PDFCharIsNumeric ch then kWord else word_type) in
     case GetNextChar p of None \<Rightarrow> (word_type, p)
     | Some (ch, q) \<Rightarrow>
       if PDFCharIsDelimiter ch \<or> PDFCharIsWhitespace ch then (word_type, unread q) else word_loop ch word_type q)"
  by pat_completeness auto
termination by (relation "measure (\<lambda>(ch, wt, p). left p)") (force dest: GetNextChar_left)+

declare name_loop.simps [simp del] word_loop.simps [simp del]

text \<open>A second angle bracket belongs to the word.\<close>

definition double_bracket :: "byte \<Rightarrow> syntax_parser \<Rightarrow> syntax_parser" where
  "double_bracket ch p = (case GetNextChar p of None \<Rightarrow> p
    | Some (c, q) \<Rightarrow> if c = ch then push_word c q else unread q)"

definition GetNextWordInternal :: "syntax_parser \<Rightarrow> WordType \<times> syntax_parser" where
  "GetNextWordInternal p =
    (let p = ToNextWord (p\<lparr>m_WordBuffer := []\<rparr>) in
     case GetNextChar p of None \<Rightarrow> (kNumber, p)
     | Some (ch, p) \<Rightarrow>
       if PDFCharIsDelimiter ch then
         (let p = push_word ch p in
          (kWord, if ch = 47 then name_loop p else if ch = 60 \<or> ch = 62 then double_bracket ch p else p))
       else word_loop ch kNumber p)"

definition GetNextWord :: "syntax_parser \<Rightarrow> (bytes \<times> bool) \<times> syntax_parser" where
  "GetNextWord p = (let (word_type, p) = GetNextWordInternal p in ((m_WordBuffer p, word_type = kNumber), p))"

definition PeekNextWord :: "syntax_parser \<Rightarrow> bytes \<times> syntax_parser" where
  "PeekNextWord p = (let ((word, _), q) = GetNextWord p in (word, q\<lparr>m_Pos := m_Pos p\<rparr>))"

definition GetKeyword :: "syntax_parser \<Rightarrow> bytes \<times> syntax_parser" where
  "GetKeyword p = (let ((word, _), q) = GetNextWord p in (word, q))"

definition GetDirectNum :: "syntax_parser \<Rightarrow> int \<times> syntax_parser" where
  "GetDirectNum p = (let (word_type, q) = GetNextWordInternal p in
    (if word_type \<noteq> kNumber then 0 else FXSYS_atoui (map unat (m_WordBuffer q)), q))"


section \<open>Strings\<close>

definition FXSYS_IsOctalDigit :: "byte \<Rightarrow> bool" where
  "FXSYS_IsOctalDigit c \<longleftrightarrow> 48 \<le> c \<and> c \<le> 55"

datatype ReadStatus = kNormal | kBackslash | kOctal | kFinishOctal | kCarriageReturn

record string_state =
  status :: ReadStatus
  parlevel :: int
  iEscCode :: nat
  buf :: bytes

text \<open>
  What one pass of the loop does with the character in hand: the string ends, the next character is
  read, or the same character is looked at again in the new status.
\<close>

datatype string_step = EndString bytes | NextChar string_state | SameChar string_state

definition put_char :: "byte \<Rightarrow> string_state \<Rightarrow> string_state" where
  "put_char c s = s\<lparr>buf := buf s @ [c]\<rparr>"

definition octal_value :: "byte \<Rightarrow> nat" where
  "octal_value ch = FXSYS_DecimalCharToInt (unat ch)"

definition string_step :: "byte \<Rightarrow> string_state \<Rightarrow> string_step" where
  "string_step ch s =
    (case status s of
       kNormal \<Rightarrow>
         if ch = 41 \<and> parlevel s = 0 then EndString (buf s)
         else
           let s = (if ch = 41 then s\<lparr>parlevel := parlevel s - 1\<rparr>
                    else if ch = 40 then s\<lparr>parlevel := parlevel s + 1\<rparr> else s)
           in NextChar (if ch = 92 then s\<lparr>status := kBackslash\<rparr> else put_char ch s)
     | kBackslash \<Rightarrow>
         if FXSYS_IsOctalDigit ch then NextChar (s\<lparr>iEscCode := octal_value ch, status := kOctal\<rparr>)
         else if ch = 13 then NextChar (s\<lparr>status := kCarriageReturn\<rparr>)
         else NextChar ((if ch = 110 then put_char 10 s else if ch = 114 then put_char 13 s
           else if ch = 116 then put_char 9 s else if ch = 98 then put_char 8 s
           else if ch = 102 then put_char 12 s else if ch \<noteq> 10 then put_char ch s else s)\<lparr>status := kNormal\<rparr>)
     | kOctal \<Rightarrow>
         if FXSYS_IsOctalDigit ch
         then NextChar (s\<lparr>iEscCode := iEscCode s * 8 + octal_value ch, status := kFinishOctal\<rparr>)
         else SameChar ((put_char (of_nat (iEscCode s)) s)\<lparr>status := kNormal\<rparr>)
     | kFinishOctal \<Rightarrow>
         let s = s\<lparr>status := kNormal\<rparr> in
         if FXSYS_IsOctalDigit ch
         then NextChar (put_char (of_nat (iEscCode s * 8 + octal_value ch)) (s\<lparr>iEscCode := iEscCode s * 8 + octal_value ch\<rparr>))
         else SameChar (put_char (of_nat (iEscCode s)) s)
     | kCarriageReturn \<Rightarrow>
         let s = s\<lparr>status := kNormal\<rparr> in if ch \<noteq> 10 then SameChar s else NextChar s)"

lemma SameChar_normal: "string_step ch s = SameChar s' \<Longrightarrow> status s \<noteq> kNormal \<and> status s' = kNormal"
  by (cases "status s") (auto simp: string_step_def put_char_def Let_def split: if_splits)

function string_loop :: "byte \<Rightarrow> string_state \<Rightarrow> syntax_parser \<Rightarrow> bytes \<times> syntax_parser" where
  "string_loop ch s p = (case string_step ch s of
      EndString b \<Rightarrow> (b, p)
    | SameChar s \<Rightarrow> string_loop ch s p
    | NextChar s \<Rightarrow> (case GetNextChar p of None \<Rightarrow> (buf s, p) | Some (ch, p) \<Rightarrow> string_loop ch s p))"
  by pat_completeness auto
termination
  by (relation "measures [\<lambda>(ch, s, p). left p, \<lambda>(ch, s, p). if status s = kNormal then 0 else 1]")
    (auto dest: GetNextChar_left SameChar_normal)

definition ReadString :: "syntax_parser \<Rightarrow> bytes \<times> syntax_parser" where
  "ReadString p = (case GetNextChar p of None \<Rightarrow> ([], p)
    | Some (ch, p) \<Rightarrow> string_loop ch \<lparr>status = kNormal, parlevel = 0, iEscCode = 0, buf = []\<rparr> p)"

definition isxdigit :: "byte \<Rightarrow> bool" where
  "isxdigit ch \<longleftrightarrow> 48 \<le> ch \<and> ch \<le> 57 \<or> 65 \<le> ch \<and> ch \<le> 70 \<or> 97 \<le> ch \<and> ch \<le> 102"

function hex_loop :: "byte \<Rightarrow> bool \<Rightarrow> byte \<Rightarrow> bytes \<Rightarrow> syntax_parser \<Rightarrow> bytes \<times> syntax_parser" where
  "hex_loop ch bFirst code out p =
    (if ch = 62 then (if bFirst then out else out @ [code], p)
     else
       let val = of_nat (FXSYS_HexCharToInt (unat ch));
           (bFirst, code, out) =
             (if isxdigit ch then
                (if bFirst then (False, val * 16, out) else (True, code + val, out @ [code + val]))
              else (bFirst, code, out))
       in case GetNextChar p of None \<Rightarrow> (if bFirst then out else out @ [code], p)
          | Some (ch, p) \<Rightarrow> hex_loop ch bFirst code out p)"
  by pat_completeness auto
termination by (relation "measure (\<lambda>(ch, f, c, out, p). left p)") (auto dest: GetNextChar_left)

definition ReadHexString :: "syntax_parser \<Rightarrow> bytes \<times> syntax_parser" where
  "ReadHexString p = (case GetNextChar p of None \<Rightarrow> ([], p) | Some (ch, p) \<Rightarrow> hex_loop ch True 0 [] p)"

declare string_loop.simps [simp del] hex_loop.simps [simp del]

section \<open>Searching for a tag\<close>

text \<open>The result is the distance from the starting position, \<open>None\<close> when the end of the file is reached.\<close>

function tag_loop :: "bytes \<Rightarrow> nat \<Rightarrow> nat \<Rightarrow> syntax_parser \<Rightarrow> nat option \<times> syntax_parser" where
  "tag_loop tag startpos match p = (case GetNextChar p of None \<Rightarrow> (None, p)
    | Some (ch, p) \<Rightarrow>
      if ch = tag ! match then
        (if match + 1 = length tag then (Some (m_Pos p - startpos - length tag), p)
         else tag_loop tag startpos (match + 1) p)
      else tag_loop tag startpos (if ch = tag ! 0 then 1 else 0) p)"
  by pat_completeness auto
termination by (relation "measure (\<lambda>(tag, s, m, p). left p)") (auto dest: GetNextChar_left)

declare tag_loop.simps [simp del]

definition FindTag :: "bytes \<Rightarrow> syntax_parser \<Rightarrow> nat option \<times> syntax_parser" where
  "FindTag tag p = tag_loop tag (m_Pos p) 0 p"

definition breaks_word :: "bool \<Rightarrow> byte \<Rightarrow> bool" where
  "breaks_word checkKeyword ch \<longleftrightarrow>
    PDFCharIsNumeric ch \<or> PDFCharIsOther ch \<or> checkKeyword \<and> PDFCharIsDelimiter ch"

definition IsWholeWord :: "nat \<Rightarrow> nat \<Rightarrow> bytes \<Rightarrow> bool \<Rightarrow> syntax_parser \<Rightarrow> bool \<times> syntax_parser" where
  "IsWholeWord startpos limit tag checkKeyword p =
    (let taglen = length tag;
         bCheckLeft = \<not> PDFCharIsDelimiter (tag ! 0) \<and> \<not> PDFCharIsWhitespace (tag ! 0);
         bCheckRight = \<not> PDFCharIsDelimiter (tag ! (taglen - 1)) \<and> \<not> PDFCharIsWhitespace (tag ! (taglen - 1));
         (right, p) = (if bCheckRight \<and> startpos + taglen \<le> limit
           then (case GetCharAt (startpos + taglen) p of None \<Rightarrow> (False, p)
                 | Some (ch, p) \<Rightarrow> (breaks_word checkKeyword ch, p)) else (False, p))
     in if right then (False, p)
        else if bCheckLeft \<and> 0 < startpos
        then (case GetCharAt (startpos - 1) p of None \<Rightarrow> (True, p)
              | Some (ch, p) \<Rightarrow> (\<not> breaks_word checkKeyword ch, p))
        else (True, p))"

lemma GetCharAt_part: "GetCharAt pos p = Some (ch, q) \<Longrightarrow> unread_part q = unread_part p"
  by (auto simp: GetCharAt_def GetNextChar_def ReadBlockAt_def unread_part_def Let_def bind_eq_Some_conv split: if_splits)

lemma IsWholeWord_part: "unread_part (snd (IsWholeWord s l tag k p)) = unread_part p"
  by (auto simp: IsWholeWord_def Let_def dest!: GetCharAt_part split: option.splits prod.splits if_splits)

lemma FindTag_left: "tag_loop tag s m p = (Some n, q) \<Longrightarrow> left q < left p"
proof (induction tag s m p rule: tag_loop.induct)
  case (1 tag s m p)
  then show ?case
    by (subst (asm) (3) tag_loop.simps) (force split: option.splits if_splits dest: GetNextChar_left)
qed

function word_pos_loop :: "bytes \<Rightarrow> syntax_parser \<Rightarrow> nat option \<times> syntax_parser" where
  "word_pos_loop word p = (case FindTag word p of (None, p) \<Rightarrow> (None, p)
    | (Some end_offset, p) \<Rightarrow>
      let (whole, p) = IsWholeWord (m_Pos p - length word) (m_FileLen p) word True p in
      if whole then (Some (m_Pos p - length word), p) else word_pos_loop word p)"
  by pat_completeness auto
termination
proof (relation "measure (\<lambda>(w, p). left p)", simp, goal_cases)
  case (1 word p x q e y whole r)
  then show ?case
    using FindTag_left [of word "m_Pos p" 0 p e q] IsWholeWord_part [of "m_Pos q - length word" "m_FileLen q" word True q]
    by (auto simp: FindTag_def) (metis snd_conv)
qed

definition FindWordPos :: "bytes \<Rightarrow> syntax_parser \<Rightarrow> nat option \<times> syntax_parser" where
  "FindWordPos word p = (let (r, q) = word_pos_loop word p in (r, q\<lparr>m_Pos := m_Pos p\<rparr>))"


section \<open>The block buffer is transparent\<close>

text \<open>The buffer holds a piece of the file.\<close>

definition source_ok :: "syntax_parser \<Rightarrow> bool" where
  "source_ok p \<longleftrightarrow> 0 < m_ReadBufferSize p \<and>
    m_pFileBuf p = take (length (m_pFileBuf p)) (drop (m_BufOffset p) (m_pFileAccess p))"

definition same_file :: "syntax_parser \<Rightarrow> syntax_parser \<Rightarrow> bool" where
  "same_file p q \<longleftrightarrow> m_pFileAccess q = m_pFileAccess p \<and> m_HeaderOffset q = m_HeaderOffset p \<and>
    m_WordBuffer q = m_WordBuffer p \<and> m_TrailerEnds q = m_TrailerEnds p \<and> m_ReadBufferSize q = m_ReadBufferSize p"

lemma buffered:
  assumes "source_ok p" and "m_BufOffset p \<le> pos" and "pos < m_BufOffset p + length (m_pFileBuf p)"
  shows "m_pFileBuf p ! (pos - m_BufOffset p) = m_pFileAccess p ! pos"
proof -
  have b: "m_pFileBuf p = take (length (m_pFileBuf p)) (drop (m_BufOffset p) (m_pFileAccess p))"
    using assms(1) by (simp add: source_ok_def)
  have "length (m_pFileBuf p) \<le> length (drop (m_BufOffset p) (m_pFileAccess p))"
    by (subst b) simp
  then show ?thesis using assms(2,3) by (subst b) (simp add: le_diff_conv2 less_diff_conv2)
qed

lemma GetNextChar_Nil: "unread_part p = [] \<Longrightarrow> GetNextChar p = None"
  by (simp add: GetNextChar_def unread_part_def)

lemma GetNextChar_Cons:
  assumes "source_ok p" and "unread_part p = c # r"
  shows "\<exists>q. GetNextChar p = Some (c, q) \<and> source_ok q \<and> unread_part q = r \<and> m_Pos q = m_Pos p + 1 \<and> same_file p q"
proof -
  define pos where "pos = m_Pos p + m_HeaderOffset p"
  have d: "drop pos (m_pFileAccess p) = c # r" using assms(2) by (simp add: unread_part_def pos_def)
  have lt: "pos < m_FileLen p" using d by (metis drop_eq_Nil2 linorder_not_le list.distinct(1))
  have pos: "pos < m_FileLen p" "m_pFileAccess p ! pos = c" "r = drop (Suc pos) (m_pFileAccess p)"
    using lt d by (simp_all add: drop_head)
  show ?thesis
  proof (cases "IsPositionRead pos p")
    case True
    then show ?thesis
      using pos buffered [OF assms(1), of pos] assms(1)
      by (simp add: GetNextChar_def Let_def pos_def [symmetric] IsPositionRead_def read_at_def less_diff_conv2
          source_ok_def same_file_def unread_part_def add.commute)
        (simp add: pos_def add.commute)
  next
    case False
    then show ?thesis
      using pos assms(1)
      by (simp add: GetNextChar_def Let_def pos_def [symmetric] ReadBlockAt_def read_at_def source_ok_def same_file_def
          unread_part_def min_def)
  qed
qed

end
