(* ===== verification/Pdf_Strings.thy ===== *)
theory Pdf_Strings
  imports Pdf_Syntax
begin

text \<open>
  Strings and names of PDF files: the writers PDF_EncodeString and PDF_HexEncodeString of
  src/core/fpdfapi/parser/fpdf_parser_decode.cpp and PDF_NameEncode of fpdf_parser_utility.cpp, the name
  decoder PDF_NameDecode and the hexadecimal filter HexDecode.  What the writers produce is read back
  by the lexer and the decoders.
\<close>

section \<open>Writers\<close>

definition encode_string_char :: "byte \<Rightarrow> bytes" where
  "encode_string_char ch =
    (if ch = 10 then [92, 110] else if ch = 13 then [92, 114]
     else if ch = 41 \<or> ch = 92 \<or> ch = 40 then [92, ch] else [ch])"

definition PDF_EncodeString :: "bytes \<Rightarrow> bytes" where
  "PDF_EncodeString src = [40] @ concat (map encode_string_char src) @ [41]"

definition kHex :: bytes where
  "kHex = [48, 49, 50, 51, 52, 53, 54, 55, 56, 57, 65, 66, 67, 68, 69, 70]"

definition FXSYS_IntToTwoHexChars :: "byte \<Rightarrow> bytes" where
  "FXSYS_IntToTwoHexChars n = [kHex ! (unat n div 16), kHex ! (unat n mod 16)]"

definition PDF_HexEncodeString :: "bytes \<Rightarrow> bytes" where
  "PDF_HexEncodeString src = [60] @ concat (map FXSYS_IntToTwoHexChars src) @ [62]"

definition name_escaped :: "byte \<Rightarrow> bool" where
  "name_escaped ch \<longleftrightarrow> 0x80 \<le> ch \<or> PDFCharIsWhitespace ch \<or> ch = 35 \<or> PDFCharIsDelimiter ch"

text \<open>The first loop measures the result; when nothing is escaped the name itself is returned.\<close>

definition encoded_length :: "bytes \<Rightarrow> nat" where
  "encoded_length orig = sum_list (map (\<lambda>ch. if name_escaped ch then 3 else 1) orig)"

fun name_encode_loop :: "bytes \<Rightarrow> nat \<Rightarrow> bytes \<Rightarrow> (nat \<times> bytes) option" where
  "name_encode_loop [] dest_len dest_buf = Some (dest_len, dest_buf)"
| "name_encode_loop (ch # src) dest_len dest_buf =
    (if name_escaped ch then
       Option.bind (write_at dest_buf dest_len 35) (\<lambda>dest_buf.
       Option.bind (write_all dest_buf (dest_len + 1) (FXSYS_IntToTwoHexChars ch)) (\<lambda>dest_buf.
       name_encode_loop src (dest_len + 3) dest_buf))
     else Option.bind (write_at dest_buf dest_len ch) (name_encode_loop src (dest_len + 1)))"

definition PDF_NameEncode :: "bytes \<Rightarrow> bytes option" where
  "PDF_NameEncode orig =
    (if encoded_length orig = length orig then Some orig
     else map_option (\<lambda>(dest_len, res). take dest_len res)
       (name_encode_loop orig 0 (replicate (encoded_length orig) 0)))"

section \<open>Decoders\<close>

fun PDF_NameDecode :: "bytes \<Rightarrow> bytes" where
  "PDF_NameDecode [] = []"
| "PDF_NameDecode (c # orig) =
    (if c = 35 \<and> 2 \<le> length orig
     then of_nat (FXSYS_HexCharToInt (unat (orig ! 0)) * 16 + FXSYS_HexCharToInt (unat (orig ! 1))) #
       PDF_NameDecode (drop 2 orig)
     else c # PDF_NameDecode orig)"

text \<open>The decoding loop of HexDecode; \<open>i\<close> is the position, the output position is the number of whole bytes.\<close>

fun hex_decode_loop :: "bytes \<Rightarrow> nat \<Rightarrow> bool \<Rightarrow> nat \<Rightarrow> bytes \<Rightarrow> (nat \<times> bool \<times> nat \<times> bytes) option" where
  "hex_decode_loop [] i bFirst n dest = Some (i, bFirst, n, dest)"
| "hex_decode_loop (ch # src) i bFirst n dest =
    (if a85_blank ch then hex_decode_loop src (i + 1) bFirst n dest
     else if ch = 62 then Some (i + 1, bFirst, n, dest)
     else if \<not> isxdigit ch then hex_decode_loop src (i + 1) bFirst n dest
     else
       let digit = of_nat (FXSYS_HexCharToInt (unat ch)) in
       if bFirst then Option.bind (write_at dest n (digit * 16)) (hex_decode_loop src (i + 1) False n)
       else Option.bind (read_at dest n) (\<lambda>v. Option.bind (write_at dest n (v + digit))
         (hex_decode_loop src (i + 1) True (n + 1))))"

definition HexDecode :: "bytes \<Rightarrow> decode_result" where
  "HexDecode src =
    (if src = [] then Decoded 0 []
     else
       let i = length (takeWhile (\<lambda>c. c \<noteq> 62) src) in
       (case hex_decode_loop src 0 True 0 (replicate (i div 2 + 1) 0) of None \<Rightarrow> Aborted
        | Some (i, bFirst, n, dest) \<Rightarrow> Decoded i (take (if bFirst then n else n + 1) dest)))"

section \<open>Hexadecimal digits\<close>

lemma hex_digit_nibble:
  assumes "n < 16"
  shows "isxdigit (kHex ! n)" "FXSYS_HexCharToInt (unat (kHex ! n)) = n" "kHex ! n \<noteq> 62" "\<not> a85_blank (kHex ! n)"
    "kHex ! n \<noteq> 35" "\<not> name_escaped (kHex ! n)"
proof -
  have "list_all (\<lambda>n. isxdigit (kHex ! n) \<and> FXSYS_HexCharToInt (unat (kHex ! n)) = n \<and> kHex ! n \<noteq> 62 \<and>
      \<not> a85_blank (kHex ! n) \<and> kHex ! n \<noteq> 35 \<and> \<not> name_escaped (kHex ! n)) [0..<16]"
    by code_simp
  then show "isxdigit (kHex ! n)" "FXSYS_HexCharToInt (unat (kHex ! n)) = n" "kHex ! n \<noteq> 62" "\<not> a85_blank (kHex ! n)"
    "kHex ! n \<noteq> 35" "\<not> name_escaped (kHex ! n)"
    using assms by (auto simp: list_all_iff)
qed

lemma nibbles: "(of_nat (unat b div 16) * 16 + of_nat (unat b mod 16) :: byte) = b"
proof -
  have "(of_nat (x * 16 + y) :: byte) = of_nat x * 16 + of_nat y" for x y by simp
  from this [of "unat b div 16" "unat b mod 16"] show ?thesis by (simp only: div_mult_mod_eq) simp
qed

lemma unat_nibbles: "unat (b :: byte) div 16 < 16" "unat b mod 16 < 16"
  using unsigned_less [where 'a = nat, of b] by auto

section \<open>Strings read back\<close>

lemma string_loop_next:
  assumes "source_ok p" and "string_step ch s = NextChar s'" and "unread_part p = c # r"
  shows "\<exists>q. string_loop ch s p = string_loop c s' q \<and> source_ok q \<and> unread_part q = r"
  using GetNextChar_Cons [OF assms(1,3)] assms(2) by (auto simp: string_loop.simps [of ch s p])

lemma string_loop_encoded:
  assumes "source_ok p" and "ch # unread_part p = concat (map encode_string_char src) @ 41 # r"
  shows "\<exists>q. string_loop ch \<lparr>status = kNormal, parlevel = 0, iEscCode = e, buf = b\<rparr> p = (b @ src, q) \<and>
    source_ok q \<and> unread_part q = r"
  using assms
proof (induction src arbitrary: ch p b)
  case Nil
  then show ?case by (auto simp: string_loop.simps [of 41] string_step_def)
next
  case (Cons c src)
  obtain d t where dt: "concat (map encode_string_char src) @ 41 # r = d # t"
    by (cases "concat (map encode_string_char src) @ 41 # r") auto
  let ?s = "\<lambda>st b. \<lparr>status = st, parlevel = 0, iEscCode = e, buf = b\<rparr>"
  have ih: "\<exists>q. string_loop d (?s kNormal (b @ [c])) p = (b @ c # src, q) \<and> source_ok q \<and> unread_part q = r"
    if "source_ok p" "unread_part p = t" for p
    using Cons.IH [OF that(1), of d "b @ [c]"] that dt by simp
  show ?case
  proof (cases "encode_string_char c = [c]")
    case True
    then have c: "c \<noteq> 41" "c \<noteq> 92" "c \<noteq> 40" by (auto simp: encode_string_char_def split: if_splits)
    have "string_step c (?s kNormal b) = NextChar (?s kNormal (b @ [c]))"
      using c by (simp add: string_step_def put_char_def)
    moreover have "ch = c" "unread_part p = d # t" using Cons.prems(2) True dt by simp_all
    ultimately show ?thesis
      using string_loop_next [OF Cons.prems(1), of c "?s kNormal b" "?s kNormal (b @ [c])" d t] ih by metis
  next
    case False
    then obtain x where x: "encode_string_char c = [92, x]"
        "string_step x (?s kBackslash b) = NextChar (?s kNormal (b @ [c]))"
      by (auto simp: encode_string_char_def string_step_def put_char_def FXSYS_IsOctalDigit_def split: if_splits)
    have "string_step 92 (?s kNormal b) = NextChar (?s kBackslash b)" by (simp add: string_step_def)
    moreover have p: "ch = 92" "unread_part p = x # d # t" using Cons.prems(2) x dt by simp_all
    ultimately obtain q where q: "string_loop ch (?s kNormal b) p = string_loop x (?s kBackslash b) q"
        "source_ok q" "unread_part q = d # t"
      using string_loop_next [OF Cons.prems(1), of 92] by metis
    then show ?thesis using string_loop_next [OF q(2) x(2) q(3)] ih by metis
  qed
qed

lemma ReadString_encoded:
  assumes "source_ok p" and "40 # unread_part p = PDF_EncodeString src @ r"
  shows "\<exists>q. ReadString p = (src, q) \<and> source_ok q \<and> unread_part q = r"
proof -
  obtain c t where ct: "concat (map encode_string_char src) @ 41 # r = c # t"
    by (cases "concat (map encode_string_char src) @ 41 # r") auto
  then have "unread_part p = c # t" using assms(2) by (simp add: PDF_EncodeString_def)
  then obtain q where q: "GetNextChar p = Some (c, q)" "source_ok q" "unread_part q = t"
    using GetNextChar_Cons [OF assms(1)] by blast
  then show ?thesis using string_loop_encoded [OF q(2), of c src r 0 "[]"] ct by (simp add: ReadString_def)
qed


lemma hex_loop_next:
  assumes "source_ok p" and "ch \<noteq> 62" and "unread_part p = c # r" and "isxdigit ch"
    and "val = of_nat (FXSYS_HexCharToInt (unat ch))"
  shows "\<exists>q. hex_loop ch bFirst code out p =
      (if bFirst then hex_loop c False (val * 16) out q else hex_loop c True (code + val) (out @ [code + val]) q) \<and>
    source_ok q \<and> unread_part q = r"
  using GetNextChar_Cons [OF assms(1,3)] assms(2,4,5) by (auto simp: hex_loop.simps [of ch] Let_def)

lemma hex_loop_encoded:
  assumes "source_ok p" and "ch # unread_part p = concat (map FXSYS_IntToTwoHexChars src) @ 62 # r"
  shows "\<exists>q. hex_loop ch True code out p = (out @ src, q) \<and> source_ok q \<and> unread_part q = r"
  using assms
proof (induction src arbitrary: ch p code out)
  case Nil
  then show ?case by (auto simp: hex_loop.simps [of 62])
next
  case (Cons b src)
  obtain d t where dt: "concat (map FXSYS_IntToTwoHexChars src) @ 62 # r = d # t"
    by (cases "concat (map FXSYS_IntToTwoHexChars src) @ 62 # r") auto
  note hi = hex_digit_nibble [OF unat_nibbles(1) [of b]] and lo = hex_digit_nibble [OF unat_nibbles(2) [of b]]
  let ?h = "kHex ! (unat b div 16)" and ?l = "kHex ! (unat b mod 16)"
  have p: "ch = ?h" "unread_part p = ?l # d # t"
    using Cons.prems(2) dt by (simp_all add: FXSYS_IntToTwoHexChars_def [of b])
  obtain q where q: "hex_loop ch True code out p = hex_loop ?l False (of_nat (unat b div 16) * 16) out q"
      "source_ok q" "unread_part q = d # t"
    using hex_loop_next [OF Cons.prems(1) hi(3) p(2) hi(1) refl, of True code out] hi(2) p(1) by auto
  obtain q2 where q2: "hex_loop ?l False (of_nat (unat b div 16) * 16) out q = hex_loop d True b (out @ [b]) q2"
      "source_ok q2" "unread_part q2 = t"
    using hex_loop_next [OF q(2) lo(3) q(3) lo(1) refl, of False "of_nat (unat b div 16) * 16" out] lo(2) nibbles [of b]
    by auto
  show ?case using Cons.IH [OF q2(2), of d b "out @ [b]"] q q2 dt by simp
qed

lemma ReadHexString_encoded:
  assumes "source_ok p" and "60 # unread_part p = PDF_HexEncodeString src @ r"
  shows "\<exists>q. ReadHexString p = (src, q) \<and> source_ok q \<and> unread_part q = r"
proof -
  obtain c t where ct: "concat (map FXSYS_IntToTwoHexChars src) @ 62 # r = c # t"
    by (cases "concat (map FXSYS_IntToTwoHexChars src) @ 62 # r") auto
  then have "unread_part p = c # t" using assms(2) by (simp add: PDF_HexEncodeString_def)
  then obtain q where q: "GetNextChar p = Some (c, q)" "source_ok q" "unread_part q = t"
    using GetNextChar_Cons [OF assms(1)] by blast
  then show ?thesis using hex_loop_encoded [OF q(2), of c src r 0 "[]"] ct by (simp add: ReadHexString_def)
qed

section \<open>Names read back\<close>

definition name_encode_char :: "byte \<Rightarrow> bytes" where
  "name_encode_char ch = (if name_escaped ch then 35 # FXSYS_IntToTwoHexChars ch else [ch])"

lemma length_name_encode: "encoded_length orig = length (concat (map name_encode_char orig))"
  by (induction orig) (simp_all add: encoded_length_def name_encode_char_def FXSYS_IntToTwoHexChars_def)

lemma name_encode_loop_chars:
  "n + length (concat (map name_encode_char src)) \<le> length dest \<Longrightarrow>
   name_encode_loop src n dest =
     Some (n + length (concat (map name_encode_char src)), memcpy dest n (concat (map name_encode_char src)))"
proof (induction src arbitrary: n dest)
  case Nil
  then show ?case by (simp add: memcpy_def)
next
  case (Cons ch src)
  have two: "length (FXSYS_IntToTwoHexChars ch) = 2" by (simp add: FXSYS_IntToTwoHexChars_def)
  show ?case
    using Cons.prems Cons.IH [of "n + 3" "memcpy dest n (35 # FXSYS_IntToTwoHexChars ch)"] Cons.IH [of "n + 1" "dest[n := ch]"]
      memcpy_memcpy [of n "35 # FXSYS_IntToTwoHexChars ch" "concat (map name_encode_char src)" dest]
    by (auto simp: name_encode_char_def [of ch] two write_at_Some write_all_Some memcpy_Cons numeral_3_eq_3)
qed

lemma PDF_NameEncode_chars: "PDF_NameEncode orig = Some (concat (map name_encode_char orig))"
proof (cases "encoded_length orig = length orig")
  case True
  have "concat (map name_encode_char xs) = xs" if "encoded_length xs = length xs" for xs
    using that
  proof (induction xs)
    case (Cons x xs)
    have "length xs \<le> encoded_length xs" by (induction xs) (simp_all add: encoded_length_def)
    then show ?case using Cons by (auto simp: encoded_length_def name_encode_char_def split: if_splits)
  qed simp
  then show ?thesis using True by (simp add: PDF_NameEncode_def)
next
  case False
  then show ?thesis
    using name_encode_loop_chars [of 0 orig "replicate (encoded_length orig) 0"]
    by (simp add: PDF_NameEncode_def length_name_encode memcpy_def)
qed

lemma PDF_NameDecode_encoded: "PDF_NameDecode (concat (map name_encode_char orig)) = orig"
proof (induction orig)
  case (Cons c orig)
  note hi = hex_digit_nibble [OF unat_nibbles(1) [of c]] and lo = hex_digit_nibble [OF unat_nibbles(2) [of c]]
  have "c \<noteq> 35" if "\<not> name_escaped c" using that by (auto simp: name_escaped_def)
  then show ?case
    using Cons hi(2) lo(2) nibbles [of c] by (auto simp: name_encode_char_def FXSYS_IntToTwoHexChars_def)
qed simp


section \<open>The hexadecimal filter\<close>

text \<open>The digits before the end mark, and the bytes a sequence of digits stands for.\<close>

definition hex_nibbles :: "bytes \<Rightarrow> bytes" where
  "hex_nibbles src = map (\<lambda>ch. of_nat (FXSYS_HexCharToInt (unat ch))) (filter isxdigit (takeWhile (\<lambda>c. c \<noteq> 62) src))"

fun hex_pairs :: "bytes \<Rightarrow> bytes" where
  "hex_pairs (a # b # ds) = (a * 16 + b) # hex_pairs ds"
| "hex_pairs [a] = [a * 16]"
| "hex_pairs [] = []"

lemma length_hex_pairs [simp]: "length (hex_pairs ds) = (length ds + 1) div 2"
  by (induction ds rule: hex_pairs.induct) simp_all

lemma hex_pairs_even: "even (length ds) \<Longrightarrow> hex_pairs (ds @ es) = hex_pairs ds @ hex_pairs es"
  by (induction ds rule: hex_pairs.induct) auto

lemma hex_pairs_odd: "odd (length ds) \<Longrightarrow> hex_pairs (ds @ [e]) = butlast (hex_pairs ds) @ [last (hex_pairs ds) + e]"
proof (induction ds rule: hex_pairs.induct)
  case (1 a b ds)
  then have "hex_pairs ds \<noteq> []" by (cases ds rule: hex_pairs.cases) auto
  then show ?case using 1 by simp
qed simp_all

definition hex_written :: "bytes \<Rightarrow> bool \<Rightarrow> nat \<Rightarrow> bytes \<Rightarrow> bool" where
  "hex_written ds bFirst n dest \<longleftrightarrow> bFirst = even (length ds) \<and> n = length ds div 2 \<and>
    take (if bFirst then n else n + 1) dest = hex_pairs ds"

lemma blank_not_digit: "a85_blank ch \<Longrightarrow> \<not> isxdigit ch \<and> ch \<noteq> 62"
  by (auto simp: a85_blank_def PDFCharIsLineEnding_def isxdigit_def)

lemma hex_digit_not_end: "isxdigit ch \<Longrightarrow> ch \<noteq> 62"
  by (auto simp: isxdigit_def)

lemma hex_write_first:
  assumes "hex_written ds True n dest" and "length ds div 2 < length dest"
  shows "write_at dest n (v * 16) = Some (dest[n := v * 16]) \<and> hex_written (ds @ [v]) False n (dest[n := v * 16])"
proof -
  have "even (length ds)" "n = length ds div 2" "take n dest = hex_pairs ds"
    using assms(1) unfolding hex_written_def by auto
  then show ?thesis using assms(2) by (simp add: hex_written_def write_at_Some hex_pairs_even take_Suc_conv_app_nth)
qed

lemma hex_write_second:
  assumes "hex_written ds False n dest" and "length ds div 2 < length dest"
  shows "read_at dest n = Some (dest ! n) \<and> write_at dest n (dest ! n + v) = Some (dest[n := dest ! n + v]) \<and>
    hex_written (ds @ [v]) True (n + 1) (dest[n := dest ! n + v])"
proof -
  have o: "odd (length ds)" "n = length ds div 2" "take (n + 1) dest = hex_pairs ds"
    using assms(1) unfolding hex_written_def by auto
  then have t: "hex_pairs ds = take n dest @ [dest ! n]" using assms(2) by (simp add: take_Suc_conv_app_nth)
  have "length (ds @ [v]) div 2 = n + 1" using o(1,2) by auto
  then show ?thesis
    using assms(2) o hex_pairs_odd [OF o(1), of v] by (simp add: hex_written_def codec t)
qed

lemma hex_decode_loop_nibbles:
  assumes "hex_written ds bFirst n dest" and "(length ds + length (hex_nibbles src)) div 2 < length dest"
  shows "\<exists>j f m d. hex_decode_loop src i bFirst n dest = Some (j, f, m, d) \<and> hex_written (ds @ hex_nibbles src) f m d \<and>
    j \<le> i + length src"
  using assms
proof (induction src arbitrary: i bFirst n dest ds)
  case Nil
  then show ?case by (simp add: hex_nibbles_def)
next
  case (Cons ch src)
  consider (skip) "\<not> isxdigit ch" "ch \<noteq> 62" | (stop) "ch = 62" | (digit) "isxdigit ch" "ch \<noteq> 62" "\<not> a85_blank ch"
    using hex_digit_not_end blank_not_digit by blast
  then show ?case
  proof cases
    case skip
    then have "hex_nibbles (ch # src) = hex_nibbles src" by (simp add: hex_nibbles_def)
    then show ?thesis using skip Cons.IH [of ds bFirst n dest "i + 1"] Cons.prems by fastforce
  next
    case stop
    then have "\<not> a85_blank ch" "hex_nibbles (ch # src) = []" using blank_not_digit by (auto simp: hex_nibbles_def)
    then show ?thesis using stop Cons.prems by auto
  next
    case digit
    define v :: byte where "v = of_nat (FXSYS_HexCharToInt (unat ch))"
    have nib: "hex_nibbles (ch # src) = v # hex_nibbles src" using digit by (simp add: hex_nibbles_def v_def)
    have room: "length ds div 2 < length dest" "(length (ds @ [v]) + length (hex_nibbles src)) div 2 < length dest"
      using Cons.prems(2) by (auto simp: nib intro: le_less_trans [OF div_le_mono, rotated])
    show ?thesis
    proof (cases bFirst)
      case True
      then show ?thesis
        using hex_write_first [of ds n dest v] Cons.prems(1) room Cons.IH [of "ds @ [v]" False n "dest[n := v * 16]" "i + 1"] digit
        by (auto simp: nib v_def [symmetric])
    next
      case False
      then show ?thesis
        using hex_write_second [of ds n dest v] Cons.prems(1) room
          Cons.IH [of "ds @ [v]" True "n + 1" "dest[n := dest ! n + v]" "i + 1"] digit
        by (auto simp: nib v_def [symmetric])
    qed
  qed
qed

lemma HexDecode_nibbles:
  "\<exists>off. HexDecode src = Decoded off (hex_pairs (hex_nibbles src)) \<and> off \<le> length src"
proof (cases "src = []")
  case True
  then show ?thesis by (simp add: HexDecode_def hex_nibbles_def)
next
  case False
  define i where "i = length (takeWhile (\<lambda>c. c \<noteq> 62) src)"
  have "length (hex_nibbles src) \<le> i" by (simp add: hex_nibbles_def i_def)
  then have "(length [] + length (hex_nibbles src)) div 2 < length (replicate (i div 2 + 1) 0)"
    using div_le_mono [of "length (hex_nibbles src)" i 2] by simp
  moreover have "hex_written [] True 0 (replicate (i div 2 + 1) 0)" by (simp add: hex_written_def)
  ultimately obtain j f m d where "hex_decode_loop src 0 True 0 (replicate (i div 2 + 1) 0) = Some (j, f, m, d)"
      "hex_written (hex_nibbles src) f m d" "j \<le> length src"
    using hex_decode_loop_nibbles [of "[]" True 0 _ src 0] by fastforce
  then show ?thesis using False by (auto simp: HexDecode_def i_def [symmetric] hex_written_def)
qed

lemma hex_nibbles_encoded: "hex_pairs (hex_nibbles (PDF_HexEncodeString src)) = src"
proof -
  have "hex_pairs (hex_nibbles (concat (map FXSYS_IntToTwoHexChars src) @ [62])) = src"
  proof (induction src)
    case Nil
    then show ?case by (simp add: hex_nibbles_def)
  next
    case (Cons b src)
    then show ?case
      using hex_digit_nibble [OF unat_nibbles(1) [of b]] hex_digit_nibble [OF unat_nibbles(2) [of b]] nibbles [of b]
      by (simp add: hex_nibbles_def FXSYS_IntToTwoHexChars_def [of b])
  qed
  moreover have "hex_nibbles (60 # s) = hex_nibbles s" for s by (simp add: hex_nibbles_def isxdigit_def)
  ultimately show ?thesis by (simp add: PDF_HexEncodeString_def)
qed


section \<open>Names in the lexer\<close>

definition name_char :: "byte \<Rightarrow> bool" where
  "name_char ch \<longleftrightarrow> PDFCharIsOther ch \<or> PDFCharIsNumeric ch"

lemma char_classes: "PDFCharIsOther ch \<or> PDFCharIsNumeric ch \<or> PDFCharIsDelimiter ch \<or> PDFCharIsWhitespace ch"
  by (cases "PDF_CharType ! unat ch")
    (simp_all add: PDFCharIsOther_def PDFCharIsNumeric_def PDFCharIsDelimiter_def PDFCharIsWhitespace_def)

lemma name_char_kHex: "n < 16 \<Longrightarrow> name_char (kHex ! n)"
  using hex_digit_nibble(6) [of n] char_classes [of "kHex ! n"] by (auto simp: name_char_def name_escaped_def)

lemma name_encode_name_chars: "list_all name_char (concat (map name_encode_char orig))"
proof (induction orig)
  case (Cons ch orig)
  have "name_char 35" by code_simp
  moreover have "name_char ch" if "\<not> name_escaped ch"
    using that char_classes [of ch] by (auto simp: name_char_def name_escaped_def)
  ultimately show ?case
    using Cons name_char_kHex [OF unat_nibbles(1) [of ch]] name_char_kHex [OF unat_nibbles(2) [of ch]]
    by (auto simp: name_encode_char_def FXSYS_IntToTwoHexChars_def)
qed simp

lemma unread_ok: "GetNextChar p = Some (c, q) \<Longrightarrow> source_ok q \<Longrightarrow> source_ok (unread q) \<and> unread_part (unread q) = unread_part p"
  using GetNextChar_pos by (auto simp: source_ok_def unread_def)

lemma push_word_ok [simp]: "source_ok (push_word c p) = source_ok p"
  by (simp add: push_word_def source_ok_def)

lemma name_loop_chars:
  assumes "source_ok p" and "unread_part p = enc @ t # r" and "list_all name_char enc" and "\<not> name_char t"
    and "length (m_WordBuffer p) + length enc \<le> 256"
  shows "\<exists>q. name_loop p = q \<and> m_WordBuffer q = m_WordBuffer p @ enc \<and> unread_part q = t # r \<and> source_ok q"
  using assms
proof (induction enc arbitrary: p)
  case Nil
  then obtain q where q: "GetNextChar p = Some (t, q)" "source_ok q" "same_file p q"
    using GetNextChar_Cons [of p t r] by auto
  then show ?case
    using Nil unread_ok [OF q(1,2)]
    by (simp add: name_loop.simps [of p] name_char_def same_file_def) (simp add: unread_def)
next
  case (Cons c enc)
  then obtain q where q: "GetNextChar p = Some (c, q)" "source_ok q" "unread_part q = enc @ t # r" "same_file p q"
    using GetNextChar_Cons [of p c "enc @ t # r"] by auto
  then have "m_WordBuffer (push_word c q) = m_WordBuffer p @ [c]"
    using Cons.prems by (simp add: push_word_def same_file_def)
  then show ?case
    using Cons.IH [of "push_word c q"] q Cons.prems
    by (auto simp: name_loop.simps [of p] name_char_def)
qed

lemma ToNextWord_at_word:
  assumes "source_ok p" and "m_TrailerEnds p = None" and "unread_part p = c # r" and "\<not> PDFCharIsWhitespace c" and "c \<noteq> 37"
  shows "\<exists>q. ToNextWord p = q \<and> source_ok q \<and> unread_part q = c # r \<and> m_WordBuffer q = m_WordBuffer p"
proof -
  obtain q where q: "GetNextChar p = Some (c, q)" "source_ok q" "same_file p q"
    using GetNextChar_Cons [OF assms(1,3)] by blast
  then show ?thesis
    using assms unread_ok [OF q(1,2)]
    by (simp add: ToNextWord_def next_word_loop.simps skip_whitespace.simps [of c] same_file_def) (simp add: unread_def)
qed

lemma GetNextWord_name:
  assumes "source_ok p" and "m_TrailerEnds p = None" and "unread_part p = 47 # enc @ t # r"
    and "list_all name_char enc" and "\<not> name_char t" and "length enc \<le> 255"
  shows "\<exists>q. GetNextWord p = ((47 # enc, False), q) \<and> unread_part q = t # r \<and> source_ok q"
proof -
  have slash: "\<not> PDFCharIsWhitespace 47" "PDFCharIsDelimiter 47"
    by (code_simp, code_simp)
  define p0 where "p0 = p\<lparr>m_WordBuffer := []\<rparr>"
  have p0: "source_ok p0" "m_TrailerEnds p0 = None" "unread_part p0 = 47 # enc @ t # r" "m_WordBuffer p0 = []"
    using assms by (simp_all add: p0_def source_ok_def unread_part_def)
  obtain q where q: "ToNextWord p0 = q" "source_ok q" "unread_part q = 47 # enc @ t # r" "m_WordBuffer q = []"
    using ToNextWord_at_word [OF p0(1-3) slash(1)] p0(4) by auto
  obtain q2 where q2: "GetNextChar q = Some (47, q2)" "source_ok q2" "unread_part q2 = enc @ t # r" "same_file q q2"
    using GetNextChar_Cons [OF q(2,3)] by blast
  have b: "m_WordBuffer (push_word 47 q2) = [47]" using q2(4) q(4) by (simp add: push_word_def same_file_def)
  obtain q3 where "name_loop (push_word 47 q2) = q3" "m_WordBuffer q3 = 47 # enc" "unread_part q3 = t # r" "source_ok q3"
    using name_loop_chars [of "push_word 47 q2" enc t r] q2 assms(4-6) b by auto
  then show ?thesis
    using q q2 slash by (simp add: GetNextWord_def GetNextWordInternal_def p0_def [symmetric] Let_def)
qed

section \<open>The search for a tag\<close>

definition occurs_at :: "bytes \<Rightarrow> bytes \<Rightarrow> nat \<Rightarrow> bool" where
  "occurs_at tag xs j \<longleftrightarrow> take (length tag) (drop j xs) = tag"

lemma occurs_at_nth:
  assumes "tag \<noteq> []"
  shows "occurs_at tag xs j \<longleftrightarrow> j + length tag \<le> length xs \<and> (\<forall>i<length tag. xs ! (j + i) = tag ! i)"
proof (cases "j + length tag \<le> length xs")
  case True
  then show ?thesis by (auto simp: occurs_at_def list_eq_iff_nth_eq)
next
  case False
  have "length (take (length tag) (drop j xs)) < length tag" using False assms by (cases tag) auto
  then show ?thesis using False unfolding occurs_at_def by (metis less_irrefl)
qed

text \<open>The first occurrence, given that there is none before \<open>j\<close>.\<close>

definition first_tag :: "bytes \<Rightarrow> bytes \<Rightarrow> nat option \<Rightarrow> bool" where
  "first_tag tag xs r = (case r of Some k \<Rightarrow> occurs_at tag xs k \<and> (\<forall>j<k. \<not> occurs_at tag xs j)
    | None \<Rightarrow> \<forall>j. \<not> occurs_at tag xs j)"

text \<open>
  With \<open>m\<close> characters matched after the part \<open>pre\<close>; the first character of the tag stands at no
  other place in it.
\<close>

lemma tag_loop_first:
  assumes "source_ok p" and "xs = pre @ take m tag @ unread_part p" and "m < length tag"
    and "\<forall>i. 0 < i \<and> i < length tag \<longrightarrow> tag ! i \<noteq> tag ! 0" and "\<forall>j<length pre. \<not> occurs_at tag xs j"
    and "m_Pos p = startpos + length pre + m"
  shows "\<exists>r q. tag_loop tag startpos m p = (r, q) \<and> first_tag tag xs r \<and> source_ok q \<and>
    (case r of Some k \<Rightarrow> unread_part q = drop (k + length tag) xs | None \<Rightarrow> unread_part q = [])"
  using assms
proof (induction "unread_part p" arbitrary: p pre m)
  case Nil
  have occurs: "tag \<noteq> []" using Nil.prems(3) by auto
  note occurs_at = occurs_at_nth [OF occurs]
  have "\<not> occurs_at tag xs j" for j
  proof
    assume o: "occurs_at tag xs j"
    then have "j + length tag \<le> length pre + m" using Nil.prems(2,3) Nil.hyps by (simp add: occurs_at)
    then have "j < length pre" using Nil.prems(3) by simp
    then show False using o Nil.prems(5) by blast
  qed
  then show ?case
    using GetNextChar_Nil [of p] Nil by (simp add: tag_loop.simps [of tag startpos m p] first_tag_def)
next
  case (Cons c rest)
  obtain q where q: "GetNextChar p = Some (c, q)" "source_ok q" "unread_part q = rest" "m_Pos q = m_Pos p + 1"
    using GetNextChar_Cons [OF Cons.prems(1) Cons.hyps(2) [symmetric]] by blast
  have xs: "xs = pre @ take m tag @ c # rest" using Cons.prems(2) Cons.hyps(2) by simp
  have at: "xs ! (length pre + m) = c" using xs Cons.prems(3) by (simp add: nth_append)
  have inside: "xs ! (length pre + i) = tag ! i" if "i < m" for i
    using that xs Cons.prems(3) by (simp add: nth_append)
  show ?case
  proof (cases "c = tag ! m")
    case True
    have grow: "take m tag @ [c] = take (m + 1) tag" using True Cons.prems(3) by (simp add: take_Suc_conv_app_nth)
    show ?thesis
    proof (cases "m + 1 = length tag")
      case whole: True
      have "take m tag @ [c] = tag" using grow whole by simp
      then have "xs = pre @ tag @ rest" using xs by (metis append.assoc append_Cons append_Nil)
      then have "occurs_at tag xs (length pre)" "rest = drop (length pre + length tag) xs"
        by (simp_all add: occurs_at_def)
      moreover have "m_Pos q - startpos - length tag = length pre" using q(4) Cons.prems(6) whole by simp
      then have "tag_loop tag startpos m p = (Some (length pre), q)"
        using whole q True by (simp add: tag_loop.simps [of tag startpos m p])
      ultimately show ?thesis using q Cons.prems(5) by (simp add: first_tag_def)
    next
      case False
      have "xs = pre @ take (m + 1) tag @ rest" using xs grow by simp
      then show ?thesis
        using Cons.hyps(1) [of q pre "m + 1"] q Cons.prems True False
        by (simp add: tag_loop.simps [of tag startpos m p])
    qed
  next
    case False
    have tag0: "tag \<noteq> []" using Cons.prems(3) by auto
    note occurs_at = occurs_at_nth [OF tag0]
    have no: "\<not> occurs_at tag xs j" if "j < length pre + m \<or> j = length pre + m \<and> c \<noteq> tag ! 0" for j
    proof
      assume o: "occurs_at tag xs j"
      then have ge: "length pre \<le> j" using Cons.prems(5) by (meson not_le)
      then obtain i where i: "j = length pre + i" using le_Suc_ex by blast
      have "i < m \<or> i = m \<and> c \<noteq> tag ! 0" using that i by auto
      then consider "i = 0" "m > 0" | "0 < i" "i < m" | "i = m" "c \<noteq> tag ! 0" by fastforce
      then show False
      proof cases
        case 1
        then show False using o i at False Cons.prems(3) by (simp add: occurs_at)
      next
        case 2
        then have "tag ! i = tag ! 0" using o i inside [of i] tag0 by (auto simp: occurs_at dest: spec [of _ 0])
        then show False using Cons.prems(3,4) 2 by auto
      next
        case 3
        then show False using o i at tag0 by (auto simp: occurs_at dest: spec [of _ 0])
      qed
    qed
    show ?thesis
    proof (cases "c = tag ! 0")
      case True
      then have "m \<noteq> 0" using False by (metis)
      then have "1 < length tag" using Cons.prems(3) by simp
      moreover have "take 1 tag = [c]" using True tag0 by (cases tag) auto
      ultimately show ?thesis
        using Cons.hyps(1) [of q "pre @ take m tag" 1] q Cons.prems False True xs no
        by (simp add: tag_loop.simps [of tag startpos m p])
    next
      case other: False
      have "\<forall>j<length (pre @ take m tag @ [c]). \<not> occurs_at tag xs j"
        using no other Cons.prems(3) by (auto simp: less_Suc_eq)
      then show ?thesis
        using Cons.hyps(1) [of q "pre @ take m tag @ [c]" 0] q Cons.prems False other xs tag0
        by (simp add: tag_loop.simps [of tag startpos m p])
    qed
  qed
qed


text \<open>The search on the text alone, for evaluation.\<close>

fun tag_scan :: "bytes \<Rightarrow> nat \<Rightarrow> nat \<Rightarrow> bytes \<Rightarrow> nat option" where
  "tag_scan tag m n [] = None"
| "tag_scan tag m n (c # r) =
    (if c = tag ! m then if m + 1 = length tag then Some (n + 1 - length tag) else tag_scan tag (m + 1) (n + 1) r
     else tag_scan tag (if c = tag ! 0 then 1 else 0) (n + 1) r)"

lemma tag_loop_scan:
  "source_ok p \<Longrightarrow> m_Pos p = s + n \<Longrightarrow> fst (tag_loop tag s m p) = tag_scan tag m n (unread_part p)"
proof (induction "unread_part p" arbitrary: p m n)
  case Nil
  then show ?case using GetNextChar_Nil [of p] by (simp add: tag_loop.simps [of tag s m p])
next
  case (Cons c r)
  obtain q where q: "GetNextChar p = Some (c, q)" "source_ok q" "unread_part q = r" "m_Pos q = m_Pos p + 1"
    using GetNextChar_Cons [OF Cons.prems(1) Cons.hyps(2) [symmetric]] by blast
  then show ?case
    using Cons.hyps(1) [of q "n + 1"] Cons.prems(2)
    by (subst tag_loop.simps) (simp flip: Cons.hyps(2))
qed

section \<open>Properties\<close>

lemma source_ok_new: "source_ok (new_syntax_parser data h)"
  by (simp add: source_ok_def new_syntax_parser_def kFileBufSize_def)

lemma FindTag_new: "fst (FindTag tag (new_syntax_parser data h)) = tag_scan tag 0 0 (drop h data)"
  using tag_loop_scan [OF source_ok_new, of data h 0 0 tag 0]
  by (simp add: FindTag_def new_syntax_parser_def unread_part_def)

text \<open>
  reading a character through the 512-byte block buffer gives the byte of the file at the position,
  whether or not the block was buffered, moves one byte forward, keeps the buffer a piece of the file
  and changes nothing else; at the end of the file it fails.
\<close>

theorem lexer_buffer_transparent:
  assumes "source_ok p"
  shows "case unread_part p of [] \<Rightarrow> GetNextChar p = None
    | c # r \<Rightarrow> \<exists>q. GetNextChar p = Some (c, q) \<and> source_ok q \<and> unread_part q = r \<and> m_Pos q = m_Pos p + 1 \<and> same_file p q"
  using GetNextChar_Nil [of p] GetNextChar_Cons [OF assms] by (simp split: list.split)

theorem lexer_buffer_transparent_witness:
  "\<exists>q. GetNextChar (new_syntax_parser [37, 80] 1) = Some (80, q) \<and> unread_part q = []"
  using lexer_buffer_transparent [OF source_ok_new, of "[37, 80]" 1] by (auto simp: unread_part_def new_syntax_parser_def)

text \<open>
  C26: a literal string written by \<open>PDF_EncodeString\<close> is read back by \<open>ReadString\<close> byte for byte, whatever
  bytes it holds (unbalanced parentheses, backslashes and line ends included), and the lexer stands
  after its closing parenthesis.
\<close>

theorem literal_string_roundtrip:
  assumes "source_ok p" and "40 # unread_part p = PDF_EncodeString src @ r"
  shows "\<exists>q. ReadString p = (src, q) \<and> source_ok q \<and> unread_part q = r"
  by (rule ReadString_encoded [OF assms])

theorem literal_string_roundtrip_witness:
  "\<exists>q. ReadString (new_syntax_parser (PDF_EncodeString [41, 92, 10, 7] @ [32]) 1) = ([41, 92, 10, 7], q) \<and>
    source_ok q \<and> unread_part q = [32]"
  by (rule literal_string_roundtrip [OF source_ok_new])
    (simp add: unread_part_def new_syntax_parser_def PDF_EncodeString_def)

text \<open>
  a hexadecimal string written by \<open>PDF_HexEncodeString\<close> is read back byte for byte by the lexer's
  \<open>ReadHexString\<close> and by the filter \<open>HexDecode\<close>.
\<close>

theorem hex_string_roundtrip:
  assumes "source_ok p" and "60 # unread_part p = PDF_HexEncodeString src @ r"
  shows "(\<exists>q. ReadHexString p = (src, q) \<and> source_ok q \<and> unread_part q = r) \<and>
    (\<exists>off. HexDecode (PDF_HexEncodeString src) = Decoded off src)"
  using ReadHexString_encoded [OF assms] HexDecode_nibbles [of "PDF_HexEncodeString src"]
  by (auto simp: hex_nibbles_encoded)

theorem hex_string_roundtrip_witness:
  "\<exists>off. HexDecode (PDF_HexEncodeString [0xAB, 0x0C]) = Decoded off [0xAB, 0x0C]"
  using hex_string_roundtrip [OF source_ok_new, of "PDF_HexEncodeString [0xAB, 0x0C]" 1 "[0xAB, 0x0C]" "[]"]
  by (simp add: unread_part_def new_syntax_parser_def PDF_HexEncodeString_def)

text \<open>
  the hexadecimal filter never writes outside its buffer of half the characters before the end
  mark, whatever the input, and returns the bytes its digits stand for, an odd last digit counting as
  the high one.
\<close>

theorem hex_decode_safe:
  "\<exists>off. HexDecode src = Decoded off (hex_pairs (hex_nibbles src)) \<and> off \<le> length src"
  by (rule HexDecode_nibbles)

text \<open>
  C29: \<open>PDF_NameEncode\<close> fills its result exactly, the lexer takes what it wrote, with a solidus before it
  and any delimiter or white space after it, as one word, and \<open>PDF_NameDecode\<close> gives the name back; the
  encoded name may have up to 255 characters, the size of the word buffer.
\<close>

theorem name_roundtrip:
  assumes "source_ok p" and "m_TrailerEnds p = None" and "PDF_NameEncode name = Some enc" and "length enc \<le> 255"
    and "unread_part p = 47 # enc @ t # r" and "PDFCharIsDelimiter t \<or> PDFCharIsWhitespace t"
  shows "\<exists>q. GetNextWord p = ((47 # enc, False), q) \<and> unread_part q = t # r \<and> PDF_NameDecode enc = name"
proof -
  have "enc = concat (map name_encode_char name)" using assms(3) by (simp add: PDF_NameEncode_chars)
  moreover have "\<not> name_char t"
    using assms(6) by (auto simp: name_char_def PDFCharIsDelimiter_def PDFCharIsWhitespace_def PDFCharIsOther_def PDFCharIsNumeric_def)
  ultimately show ?thesis
    using GetNextWord_name [OF assms(1,2,5)] name_encode_name_chars [of name] assms(4) PDF_NameDecode_encoded [of name] by auto
qed

theorem name_roundtrip_witness:
  "\<exists>q. GetNextWord (new_syntax_parser [47, 65, 35, 50, 48, 62] 0) = ((47 # [65, 35, 50, 48], False), q) \<and>
    unread_part q = 62 # [] \<and> PDF_NameDecode [65, 35, 50, 48] = [65, 32]"
  by (rule name_roundtrip [OF source_ok_new])
    (simp add: new_syntax_parser_def, code_simp, simp, simp add: unread_part_def new_syntax_parser_def, code_simp)

text \<open>
  \<open>FindTag\<close> finds the first occurrence of a tag whose first character does not recur in it, or
  reports that there is none, and leaves the lexer just after it.
\<close>

theorem find_tag_first:
  assumes "source_ok p" and "tag \<noteq> []" and "hd tag \<notin> set (tl tag)"
  shows "\<exists>r q. FindTag tag p = (r, q) \<and> first_tag tag (unread_part p) r \<and> source_ok q \<and>
    (case r of Some k \<Rightarrow> unread_part q = drop (k + length tag) (unread_part p) | None \<Rightarrow> unread_part q = [])"
proof -
  have "\<forall>i. 0 < i \<and> i < length tag \<longrightarrow> tag ! i \<noteq> tag ! 0"
    using assms(2,3) by (cases tag) (auto simp: nth_Cons' split: if_splits intro: nth_mem dest: Suc_pred)
  then show ?thesis
    using tag_loop_first [OF assms(1), of "unread_part p" "[]" 0 tag "m_Pos p"] assms(2) by (simp add: FindTag_def)
qed

theorem find_tag_first_witness:
  "\<exists>r q. FindTag [101, 110, 100] (new_syntax_parser [101, 101, 110, 100] 0) = (r, q) \<and>
    first_tag [101, 110, 100] [101, 101, 110, 100] r"
  using find_tag_first [OF source_ok_new, of "[101, 110, 100]" "[101, 101, 110, 100]" 0]
  by (auto simp: unread_part_def new_syntax_parser_def)

text \<open>
  the condition on the tag is needed: in \<open>endstrendstream\<close> the word \<open>endstream\<close>, which the parser
  searches for to find the end of a stream, stands at offset 6, and \<open>FindTag\<close> misses it, because after
  the failed match it does not go back to the second \<open>e\<close>.
\<close>

theorem find_tag_misses_overlap:
  "let tag = [101, 110, 100, 115, 116, 114, 101, 97, 109];
       data = [101, 110, 100, 115, 116, 114] @ tag in
   occurs_at tag data 6 \<and> fst (FindTag tag (new_syntax_parser data 0)) = None"
  by (simp add: Let_def FindTag_new occurs_at_def)

end
