(* ===== verification/Pdf_Words.thy ===== *)
theory Pdf_Words
  imports Pdf_Strings
begin

text \<open>
  The words of the PDF lexer as a function of the bytes that are still to be read.  The lexer of
  \<open>Pdf_Syntax\<close>, with its block buffer and its position, is shown to implement it.
\<close>

section \<open>Words of a byte sequence\<close>

fun skip_space :: "bytes \<Rightarrow> bytes" and skip_line :: "bytes \<Rightarrow> bytes" where
  "skip_space [] = []"
| "skip_space (c # s) = (if PDFCharIsWhitespace c then skip_space s else if c = 37 then skip_line s else c # s)"
| "skip_line [] = []"
| "skip_line (c # s) = (if PDFCharIsLineEnding c then skip_space s else skip_line s)"

definition regular :: "byte \<Rightarrow> bool" where
  "regular c \<longleftrightarrow> \<not> PDFCharIsDelimiter c \<and> \<not> PDFCharIsWhitespace c"

fun word_at :: "bytes \<Rightarrow> (bytes \<times> bool) \<times> bytes" where
  "word_at [] = (([], True), [])"
| "word_at (c # s) =
    (if PDFCharIsDelimiter c then
       (if c = 47 then ((47 # take 255 (takeWhile regular s), False), dropWhile regular s)
        else if (c = 60 \<or> c = 62) \<and> s \<noteq> [] \<and> hd s = c then (([c, c], False), tl s)
        else (([c], False), s))
     else ((take 256 (c # takeWhile regular s), PDFCharIsNumeric c \<and> list_all PDFCharIsNumeric (takeWhile regular s)),
       dropWhile regular s))"

definition next_word :: "bytes \<Rightarrow> (bytes \<times> bool) \<times> bytes" where
  "next_word s = word_at (skip_space s)"

section \<open>Positions\<close>

text \<open>The same file is being read, with its buffer in order.\<close>

definition same_source :: "syntax_parser \<Rightarrow> syntax_parser \<Rightarrow> bool" where
  "same_source p q \<longleftrightarrow> source_ok q \<and> m_pFileAccess q = m_pFileAccess p \<and> m_HeaderOffset q = m_HeaderOffset p \<and>
    m_TrailerEnds q = m_TrailerEnds p"

text \<open>From \<open>p\<close> the lexer has come to a state in which \<open>s\<close> is to be read.\<close>

definition at :: "syntax_parser \<Rightarrow> bytes \<Rightarrow> syntax_parser \<Rightarrow> bool" where
  "at p s q \<longleftrightarrow> same_source p q \<and> unread_part q = s"

lemma same_source_trans: "same_source p q \<Longrightarrow> same_source q r \<Longrightarrow> same_source p r"
  by (simp add: same_source_def)

lemma at_trans: "at p s q \<Longrightarrow> at q t r \<Longrightarrow> at p t r"
  by (simp add: at_def same_source_def)

lemma atI: "source_ok p \<Longrightarrow> at p (unread_part p) p"
  by (simp add: at_def same_source_def)

lemma at_ok: "at p s q \<Longrightarrow> source_ok q" "at p s q \<Longrightarrow> unread_part q = s"
  by (simp_all add: at_def same_source_def)

lemma at_restore:
  assumes "at p s q"
  shows "at p (unread_part p) (q\<lparr>m_Pos := m_Pos p\<rparr>)"
  using assms by (auto simp: at_def same_source_def unread_part_def source_ok_def)

lemma at_word_buffer [simp]: "at p s (q\<lparr>m_WordBuffer := w\<rparr>) = at p s q"
  by (simp add: at_def same_source_def unread_part_def source_ok_def)

lemma at_push_word [simp]: "at p s (push_word c q) = at p s q"
  by (simp add: push_word_def)

lemma at_next:
  assumes "at p (c # s) q"
  shows "\<exists>r. GetNextChar q = Some (c, r) \<and> at p s r \<and> at p (c # s) (unread r) \<and> m_WordBuffer r = m_WordBuffer q"
proof -
  obtain r where r: "GetNextChar q = Some (c, r)" "source_ok r" "unread_part r = s" "same_file q r"
    using GetNextChar_Cons [of q c s] assms by (auto simp: at_def same_source_def)
  moreover have "unread_part (unread r) = c # s" using GetNextChar_pos [OF r(1)] assms by (simp add: at_def)
  ultimately show ?thesis using assms
    by (auto simp: at_def same_source_def same_file_def unread_def source_ok_def)
qed

lemma at_end: "at p [] q \<Longrightarrow> GetNextChar q = None"
  by (rule GetNextChar_Nil) (simp add: at_def)

lemma unread_buffer [simp]: "m_WordBuffer (unread q) = m_WordBuffer q"
  by (simp add: unread_def)

section \<open>The lexer implements it\<close>

lemma skip_whitespace_drop:
  assumes "at p s q" and "at p (c # s) (unread q)"
  shows "case dropWhile PDFCharIsWhitespace (c # s) of
      [] \<Rightarrow> \<exists>r. skip_whitespace c q = (None, r) \<and> at p [] r \<and> m_WordBuffer r = m_WordBuffer q
    | d # t \<Rightarrow> \<exists>r. skip_whitespace c q = (Some d, r) \<and> at p t r \<and> at p (d # t) (unread r) \<and>
        m_WordBuffer r = m_WordBuffer q"
  using assms
proof (induction s arbitrary: c q)
  case Nil
  then show ?case using at_end [OF Nil.prems(1)] by (auto simp: skip_whitespace.simps [of c q])
next
  case (Cons d s)
  then obtain r where r: "GetNextChar q = Some (d, r)" "at p s r" "at p (d # s) (unread r)" "m_WordBuffer r = m_WordBuffer q"
    using at_next by blast
  show ?case
  proof (cases "PDFCharIsWhitespace c")
    case True
    then have "skip_whitespace c q = skip_whitespace d r" by (simp add: skip_whitespace.simps [of c q] r(1))
    then show ?thesis using Cons.IH [OF r(2,3)] True r(4) by (simp only: dropWhile.simps if_True)
  next
    case False
    then show ?thesis using Cons.prems by (auto simp: skip_whitespace.simps [of c q])
  qed
qed

lemma skip_comment_drop:
  assumes "at p s q"
  shows "case dropWhile (\<lambda>c. \<not> PDFCharIsLineEnding c) s of
      [] \<Rightarrow> \<exists>r. skip_comment q = (None, r) \<and> at p [] r \<and> m_WordBuffer r = m_WordBuffer q
    | d # t \<Rightarrow> \<exists>r. skip_comment q = (Some d, r) \<and> at p t r \<and> at p (d # t) (unread r) \<and> m_WordBuffer r = m_WordBuffer q"
  using assms
proof (induction s arbitrary: q)
  case Nil
  then show ?case using at_end [OF Nil.prems] by (auto simp: skip_comment.simps [of q])
next
  case (Cons d s)
  then obtain r where r: "GetNextChar q = Some (d, r)" "at p s r" "at p (d # s) (unread r)" "m_WordBuffer r = m_WordBuffer q"
    using at_next by blast
  show ?case
  proof (cases "PDFCharIsLineEnding d")
    case True
    then show ?thesis using r by (auto simp: skip_comment.simps [of q])
  next
    case False
    then have "skip_comment q = skip_comment r" by (simp add: skip_comment.simps [of q] r(1))
    then show ?thesis using Cons.IH [OF r(2)] False r(4) by (simp only: dropWhile.simps not_False_eq_True if_True)
  qed
qed

lemma line_ending_white: "PDFCharIsLineEnding c \<Longrightarrow> PDFCharIsWhitespace c"
proof -
  have "PDFCharIsWhitespace 13" "PDFCharIsWhitespace 10" by code_simp+
  then show "PDFCharIsLineEnding c \<Longrightarrow> PDFCharIsWhitespace c" by (auto simp: PDFCharIsLineEnding_def)
qed

lemma skip_space_dropWhile: "skip_space s = skip_space (dropWhile PDFCharIsWhitespace s)"
  by (induction s) auto

lemma skip_line_dropWhile: "skip_line s = skip_space (dropWhile (\<lambda>c. \<not> PDFCharIsLineEnding c) s)"
  by (induction s) (auto dest: line_ending_white)

lemma next_word_loop_skip:
  assumes "at p s q" and "at p (c # s) (unread q)"
  shows "at p (skip_space (c # s)) (next_word_loop c q) \<and> m_WordBuffer (next_word_loop c q) = m_WordBuffer q"
  using assms
proof (induction "length s" arbitrary: c s q rule: less_induct)
  case less
  note white = skip_whitespace_drop [OF less.prems]
  have step: "next_word_loop c q = (case skip_whitespace c q of (None, p) \<Rightarrow> p
      | (Some ch, p) \<Rightarrow> if ch \<noteq> 37 then unread p
        else (case skip_comment p of (None, p) \<Rightarrow> p | (Some ch, p) \<Rightarrow> next_word_loop ch p))"
    by (rule next_word_loop.simps)
  have space: "skip_space (c # s) = skip_space (dropWhile PDFCharIsWhitespace (c # s))" by (rule skip_space_dropWhile)
  show ?case
  proof (cases "dropWhile PDFCharIsWhitespace (c # s)")
    case Nil
    then show ?thesis using white unfolding space by (auto simp: step)
  next
    case (Cons d t)
    then obtain r where r: "skip_whitespace c q = (Some d, r)" "at p t r" "at p (d # t) (unread r)" "m_WordBuffer r = m_WordBuffer q"
      using white by auto
    have d: "\<not> PDFCharIsWhitespace d" using Cons by (metis hd_dropWhile list.distinct(1) list.sel(1))
    have lt: "length t \<le> length s" using length_dropWhile_le [of PDFCharIsWhitespace "c # s"] Cons by simp
    show ?thesis
    proof (cases "d = 37")
      case False
      then show ?thesis using r d unfolding space Cons by (simp add: step)
    next
      case True
      then have sp: "skip_space (d # t) = skip_space (dropWhile (\<lambda>c. \<not> PDFCharIsLineEnding c) t)"
        using d by (simp add: skip_line_dropWhile)
      note comment = skip_comment_drop [OF r(2)]
      show ?thesis
      proof (cases "dropWhile (\<lambda>c. \<not> PDFCharIsLineEnding c) t")
        case Nil
        obtain r2 where "skip_comment r = (None, r2)" "at p [] r2" "m_WordBuffer r2 = m_WordBuffer r"
          using comment unfolding Nil by auto
        moreover have "skip_space (d # t) = []" unfolding sp Nil by simp
        ultimately show ?thesis using r True unfolding space Cons by (simp add: step)
      next
        case (Cons e u)
        then obtain r2 where r2: "skip_comment r = (Some e, r2)" "at p u r2" "at p (e # u) (unread r2)" "m_WordBuffer r2 = m_WordBuffer r"
          using comment by auto
        have "length u < length s" using length_dropWhile_le [of "\<lambda>c. \<not> PDFCharIsLineEnding c" t] Cons lt by simp
        from less.hyps [OF this r2(2,3)] show ?thesis
          using r r2 True sp Cons unfolding space \<open>dropWhile PDFCharIsWhitespace (c # s) = d # t\<close> by (simp add: step)
      qed
    qed
  qed
qed

lemma ToNextWord_skip:
  assumes "at p s q" and "m_TrailerEnds p = None"
  shows "at p (skip_space s) (ToNextWord q) \<and> m_WordBuffer (ToNextWord q) = m_WordBuffer q"
proof -
  have t: "m_TrailerEnds q = None" using assms by (simp add: at_def same_source_def)
  show ?thesis
  proof (cases s)
    case Nil
    then show ?thesis using assms(1) at_end [of p q] t by (simp add: ToNextWord_def)
  next
    case (Cons c s')
    then obtain r where "GetNextChar q = Some (c, r)" "at p s' r" "at p (c # s') (unread r)" "m_WordBuffer r = m_WordBuffer q"
      using at_next [of p c s' q] assms(1) by auto
    then show ?thesis using next_word_loop_skip [of p s' r c] t Cons by (simp add: ToNextWord_def)
  qed
qed

section \<open>Reading a word\<close>

lemma regular_name_char: "regular c \<longleftrightarrow> name_char c"
  by (cases "PDF_CharType ! unat c")
    (simp_all add: regular_def name_char_def PDFCharIsOther_def PDFCharIsNumeric_def PDFCharIsDelimiter_def PDFCharIsWhitespace_def)

lemma push_word_buffer: "m_WordBuffer (push_word c q) = take 256 (m_WordBuffer q @ [c])" if "length (m_WordBuffer q) \<le> 256"
  using that by (simp add: push_word_def)

lemma take_take_append: "take n (take n xs @ ys) = take n (xs @ ys)"
  by (cases "n \<le> length xs") simp_all

lemma name_loop_word:
  assumes "at p s q" and "length (m_WordBuffer q) \<le> 256"
  shows "at p (dropWhile regular s) (name_loop q) \<and>
    m_WordBuffer (name_loop q) = take 256 (m_WordBuffer q @ takeWhile regular s)"
  using assms
proof (induction s arbitrary: q)
  case Nil
  then show ?case using at_end [OF Nil.prems(1)] by (simp add: name_loop.simps [of q])
next
  case (Cons c s)
  then obtain r where r: "GetNextChar q = Some (c, r)" "at p s r" "at p (c # s) (unread r)" "m_WordBuffer r = m_WordBuffer q"
    using at_next by blast
  show ?case
  proof (cases "regular c")
    case True
    then have "name_loop q = name_loop (push_word c r)"
      by (auto simp: name_loop.simps [of q] r(1) regular_name_char name_char_def)
    moreover have "m_WordBuffer (push_word c r) = take 256 (m_WordBuffer q @ [c])"
      using Cons.prems(2) r(4) push_word_buffer [of r c] by simp
    ultimately show ?thesis using Cons.IH [of "push_word c r"] True r(2)
      by (simp add: take_take_append del: take_append)
  next
    case False
    then show ?thesis using r Cons.prems(2)
      by (simp add: name_loop.simps [of q] regular_name_char name_char_def)
  qed
qed

lemma word_loop_word:
  assumes "at p s q" and "length (m_WordBuffer q) \<le> 256"
  shows "\<exists>r. word_loop c wt q =
      (if PDFCharIsNumeric c \<and> list_all PDFCharIsNumeric (takeWhile regular s) then wt else kWord, r) \<and>
    at p (dropWhile regular s) r \<and> m_WordBuffer r = take 256 (m_WordBuffer q @ c # takeWhile regular s)"
  using assms
proof (induction s arbitrary: c wt q)
  case Nil
  then show ?case using at_end [of p "push_word c q"] push_word_buffer [of q c]
    by (simp add: word_loop.simps [of c wt q] Let_def)
next
  case (Cons d s)
  then obtain r where r: "GetNextChar (push_word c q) = Some (d, r)" "at p s r" "at p (d # s) (unread r)"
      "m_WordBuffer r = take 256 (m_WordBuffer q @ [c])"
    using at_next [of p d s "push_word c q"] push_word_buffer [of q c] by auto
  show ?case
  proof (cases "regular d")
    case True
    then have "word_loop c wt q = word_loop d (if \<not> PDFCharIsNumeric c then kWord else wt) r"
      by (simp add: word_loop.simps [of c wt q] r(1) regular_def Let_def)
    then show ?thesis
      using Cons.IH [of r d "if \<not> PDFCharIsNumeric c then kWord else wt"] True r(2,4)
      by (auto simp: take_take_append simp del: take_append)
  next
    case False
    then show ?thesis using r by (auto simp: word_loop.simps [of c wt q] regular_def Let_def)
  qed
qed

lemma GetNextWord_next_word:
  assumes "at p s q" and "m_TrailerEnds p = None"
  shows "\<exists>r. GetNextWord q = (fst (next_word s), r) \<and> at p (snd (next_word s)) r \<and> m_WordBuffer r = fst (fst (next_word s))"
proof -
  define q0 where "q0 = ToNextWord (q\<lparr>m_WordBuffer := []\<rparr>)"
  have q0: "at p (skip_space s) q0" "m_WordBuffer q0 = []"
    using ToNextWord_skip [of p s "q\<lparr>m_WordBuffer := []\<rparr>"] assms by (simp_all add: q0_def)
  have word: "GetNextWordInternal q = (case GetNextChar q0 of None \<Rightarrow> (kNumber, q0)
     | Some (ch, p) \<Rightarrow>
       if PDFCharIsDelimiter ch then
         (let p = push_word ch p in
          (kWord, if ch = 47 then name_loop p else if ch = 60 \<or> ch = 62 then double_bracket ch p else p))
       else word_loop ch kNumber p)"
    unfolding GetNextWordInternal_def q0_def Let_def ..
  show ?thesis
  proof (cases "skip_space s")
    case Nil
    then show ?thesis using q0 at_end [of p q0] word by (simp add: GetNextWord_def next_word_def)
  next
    case (Cons c t)
    then obtain r where r: "GetNextChar q0 = Some (c, r)" "at p t r" "m_WordBuffer r = []"
      using at_next [of p c t q0] q0 by auto
    have b: "m_WordBuffer (push_word c r) = [c]" by (simp add: push_word_def r(3))
    show ?thesis
    proof (cases "PDFCharIsDelimiter c")
      case False
      then show ?thesis using word_loop_word [of p t r c kNumber] r word Cons
        by (auto simp: GetNextWord_def next_word_def Let_def)
    next
      case delim: True
      consider "c = 47" | "c = 60 \<or> c = 62" | "c \<noteq> 47" "c \<noteq> 60" "c \<noteq> 62" by blast
      then show ?thesis
      proof cases
        case 1
        then show ?thesis using name_loop_word [of p t "push_word c r"] r b delim word Cons
          by (simp add: GetNextWord_def next_word_def Let_def)
      next
        case 2
        have "\<exists>x. double_bracket c (push_word c r) = x \<and>
            at p (if t \<noteq> [] \<and> hd t = c then tl t else t) x \<and>
            m_WordBuffer x = (if t \<noteq> [] \<and> hd t = c then [c, c] else [c])"
        proof (cases t)
          case Nil
          then show ?thesis using at_end [of p "push_word c r"] r(2) b by (simp add: double_bracket_def)
        next
          case (Cons d u)
          then obtain x where "GetNextChar (push_word c r) = Some (d, x)" "at p u x" "at p (d # u) (unread x)" "m_WordBuffer x = [c]"
            using at_next [of p d u "push_word c r"] r(2) b by auto
          then show ?thesis using Cons by (simp add: double_bracket_def push_word_def [of _ x])
        qed
        then show ?thesis using 2 r delim word Cons by (auto simp: GetNextWord_def next_word_def Let_def)
      next
        case 3
        then show ?thesis using r b delim word Cons by (simp add: GetNextWord_def next_word_def Let_def)
      qed
    qed
  qed
qed

section \<open>Properties\<close>

text \<open>
  C25: the lexer reads words through its block buffer as if it read the file: the next word, whether it is
  a number, and the bytes that remain are functions of the bytes from the current position on; comments
  and white space before the word are skipped, and a word longer than the word buffer is cut.  Peeking at a
  word leaves the position where it was.
\<close>

theorem lexer_reads_words:
  assumes "source_ok p" and "m_TrailerEnds p = None"
  shows "\<exists>q. GetNextWord p = (fst (next_word (unread_part p)), q) \<and> unread_part q = snd (next_word (unread_part p)) \<and>
    source_ok q \<and> fst (PeekNextWord p) = fst (fst (next_word (unread_part p))) \<and>
    unread_part (snd (PeekNextWord p)) = unread_part p"
proof -
  obtain q where q: "GetNextWord p = (fst (next_word (unread_part p)), q)" "at p (snd (next_word (unread_part p))) q"
    using GetNextWord_next_word [OF atI [OF assms(1)] assms(2)] by blast
  then show ?thesis using at_restore [OF q(2)] by (auto simp: at_def same_source_def PeekNextWord_def split_def)
qed

theorem lexer_reads_words_witness:
  "\<exists>q. GetNextWord (new_syntax_parser [37, 120, 10, 32, 49, 50, 62, 62] 0) = (([49, 50], True), q) \<and> unread_part q = [62, 62]"
proof -
  have "next_word [37, 120, 10, 32, 49, 50, 62, 62] = (([49, 50], True), [62, 62])" by code_simp
  then show ?thesis
    using lexer_reads_words [OF source_ok_new, of "[37, 120, 10, 32, 49, 50, 62, 62]" 0]
    by (auto simp: new_syntax_parser_def unread_part_def)
qed

end
