(* ===== verification/Pdf_Object.thy ===== *)
theory Pdf_Object
  imports Pdf_Words
begin

text \<open>
  The objects of a PDF file (src/core/fpdfapi/parser: cpdf_object.h, cpdf_array.cpp, cpdf_dictionary.cpp,
  cpdf_number.cpp, cpdf_string.cpp, cpdf_name.cpp, cpdf_reference.cpp, cpdf_stream.cpp) with their writers and
  the writer of indirect objects of src/core/fpdfapi/edit/cpdf_creator.cpp.  Floating point numbers are a type
  parameter with their conversions as parameters; so are the compressor, the decoder of filtered data and the
  lookup of indirect objects.
\<close>

section \<open>Objects\<close>

datatype 'f fx_number = Unsigned nat | Signed int | Real 'f

datatype 'f pdf_object =
    PNull
  | PBoolean bool
  | PNumber "'f fx_number"
  | PString bytes bool
  | PName bytes
  | PArray "'f pdf_object list"
  | PDictionary "(bytes \<times> 'f pdf_object) list"
  | PStream "(bytes \<times> 'f pdf_object) list" bytes
  | PReference nat

type_synonym 'f dict = "(bytes \<times> 'f pdf_object) list"

record 'f pdf_env =
  string_to_float :: "bytes \<Rightarrow> 'f"
  format_float :: "'f \<Rightarrow> bytes"
  float_to_int :: "'f \<Rightarrow> int"
  indirect_object :: "nat \<Rightarrow> 'f pdf_object option"
  flate :: "bytes \<Rightarrow> bytes"
  filtered_data :: "'f dict \<Rightarrow> bytes \<Rightarrow> bytes"

definition B :: "string \<Rightarrow> bytes" where
  "B s = map of_char s"

section \<open>Numbers\<close>

text \<open>The digits are accumulated in a checked 32-bit number: an overflow stays an overflow.\<close>

fun checked_digits :: "nat option \<Rightarrow> bytes \<Rightarrow> nat option" where
  "checked_digits v [] = v"
| "checked_digits v (c # s) =
    (if FXSYS_IsDecimalDigit (unat c) then
       checked_digits (Option.bind v (\<lambda>n. let m = n * 10 + (unat c - 48) in if m < 2 ^ 32 then Some m else None)) s
     else v)"

definition FX_Number :: "'f pdf_env \<Rightarrow> bytes \<Rightarrow> 'f fx_number" where
  "FX_Number env strc =
    (if strc = [] then Unsigned 0
     else if 46 \<in> set strc then Real (string_to_float env strc)
     else
       let bNegative = hd strc = 45;
           bSigned = (hd strc = 43 \<or> hd strc = 45);
           uValue = (case checked_digits (Some 0) (if bSigned then tl strc else strc) of None \<Rightarrow> 0 | Some v \<Rightarrow> v)
       in if \<not> bSigned then Unsigned uValue
          else
            let uValue = (if (if bNegative then 2 ^ 31 else 2 ^ 31 - 1) < uValue then 0 else uValue)
            in Signed (if bNegative then - int uValue else int uValue))"

text \<open>The conversion of an unsigned number to a signed one of 32 bits.\<close>

definition to_int32 :: "nat \<Rightarrow> int" where
  "to_int32 u = (let v = u mod 2 ^ 32 in if v < 2 ^ 31 then int v else int v - 2 ^ 32)"

definition GetSigned :: "'f pdf_env \<Rightarrow> 'f fx_number \<Rightarrow> int" where
  "GetSigned env n = (case n of
      Unsigned u \<Rightarrow> to_int32 u
    | Signed i \<Rightarrow> i
    | Real x \<Rightarrow> float_to_int env x)"

definition FormatInteger :: "int \<Rightarrow> bytes" where
  "FormatInteger i = map of_nat (FXSYS_IntToStr i 10)"

text \<open>Numbers of objects are passed to \<open>FXSYS_itoa\<close>, whose argument is a signed integer of 32 bits.\<close>

definition WriteDWord :: "nat \<Rightarrow> bytes" where
  "WriteDWord i = FormatInteger (to_int32 i)"

definition number_string :: "'f pdf_env \<Rightarrow> 'f fx_number \<Rightarrow> bytes" where
  "number_string env n = (case n of Real x \<Rightarrow> format_float env x | _ \<Rightarrow> FormatInteger (GetSigned env n))"

section \<open>Dictionaries\<close>

text \<open>The order of \<open>std::map\<close> over byte strings.\<close>

fun bytes_less :: "bytes \<Rightarrow> bytes \<Rightarrow> bool" where
  "bytes_less [] ys \<longleftrightarrow> ys \<noteq> []"
| "bytes_less (x # xs) [] \<longleftrightarrow> False"
| "bytes_less (x # xs) (y # ys) \<longleftrightarrow> x < y \<or> x = y \<and> bytes_less xs ys"

fun SetFor :: "bytes \<Rightarrow> 'f pdf_object \<Rightarrow> 'f dict \<Rightarrow> 'f dict" where
  "SetFor key obj [] = [(key, obj)]"
| "SetFor key obj ((k, v) # m) =
    (if bytes_less key k then (key, obj) # (k, v) # m
     else if k = key then (k, obj) # m
     else (k, v) # SetFor key obj m)"

definition RemoveFor :: "bytes \<Rightarrow> 'f dict \<Rightarrow> 'f dict" where
  "RemoveFor key m = filter (\<lambda>(k, v). k \<noteq> key) m"

definition GetObjectFor :: "'f dict \<Rightarrow> bytes \<Rightarrow> 'f pdf_object option" where
  "GetObjectFor m key = map_of m key"

definition GetDirect :: "'f pdf_env \<Rightarrow> 'f pdf_object \<Rightarrow> 'f pdf_object option" where
  "GetDirect env obj = (case obj of PReference n \<Rightarrow> indirect_object env n | _ \<Rightarrow> Some obj)"

definition GetDirectObjectFor :: "'f pdf_env \<Rightarrow> 'f dict \<Rightarrow> bytes \<Rightarrow> 'f pdf_object option" where
  "GetDirectObjectFor env m key = Option.bind (GetObjectFor m key) (GetDirect env)"

definition GetNameFor :: "'f dict \<Rightarrow> bytes \<Rightarrow> bytes" where
  "GetNameFor m key = (case GetObjectFor m key of Some (PName n) \<Rightarrow> n | _ \<Rightarrow> [])"

section \<open>Writing\<close>

definition is_sig_name :: "'f pdf_object \<Rightarrow> bool" where
  "is_sig_name obj \<longleftrightarrow> (case obj of PName n \<Rightarrow> n = B ''Sig'' | PString s hex \<Rightarrow> s = B ''Sig'' | _ \<Rightarrow> False)"

definition IsSignatureDictionary :: "'f pdf_env \<Rightarrow> 'f dict \<Rightarrow> bool" where
  "IsSignatureDictionary env m =
    (let type_obj = (case GetDirectObjectFor env m (B ''Type'') of None \<Rightarrow> GetDirectObjectFor env m (B ''FT'') | t \<Rightarrow> t)
     in case type_obj of None \<Rightarrow> False | Some obj \<Rightarrow> is_sig_name obj)"

definition IsMetaDataStreamDictionary :: "'f dict \<Rightarrow> bool" where
  "IsMetaDataStreamDictionary m \<longleftrightarrow> GetNameFor m (B ''Type'') = B ''Metadata'' \<and> GetNameFor m (B ''Subtype'') = B ''XML''"

text \<open>Copying turns every integer into a signed one.\<close>

fun Clone_object :: "'f pdf_env \<Rightarrow> 'f pdf_object \<Rightarrow> 'f pdf_object" where
  "Clone_object env (PNumber (Unsigned u)) = PNumber (Signed (GetSigned env (Unsigned u)))"
| "Clone_object env (PArray os) = PArray (map (Clone_object env) os)"
| "Clone_object env (PDictionary m) = PDictionary (map (\<lambda>(k, v). (k, Clone_object env v)) m)"
| "Clone_object env (PStream m data) = PStream (map (\<lambda>(k, v). (k, Clone_object env v)) m) data"
| "Clone_object env obj = obj"

definition Clone_dict :: "'f pdf_env \<Rightarrow> 'f dict \<Rightarrow> 'f dict" where
  "Clone_dict env m = map (\<lambda>(k, v). (k, Clone_object env v)) m"

definition CPDF_FlateEncoder :: "'f pdf_env \<Rightarrow> 'f dict \<Rightarrow> bytes \<Rightarrow> bool \<Rightarrow> 'f dict \<times> bytes" where
  "CPDF_FlateEncoder env m data bFlateEncode =
    (let bHasFilter = GetObjectFor m (B ''Filter'') \<noteq> None in
     if bHasFilter \<and> \<not> bFlateEncode then (RemoveFor (B ''Filter'') (Clone_dict env m), filtered_data env m data)
     else if bHasFilter \<or> \<not> bFlateEncode then (m, data)
     else
       (RemoveFor (B ''DecodeParms'')
         (SetFor (B ''Filter'') (PName (B ''FlateDecode''))
           (SetFor (B ''Length'') (PNumber (Signed (to_int32 (length (flate env data))))) (Clone_dict env m))),
        flate env data))"

text \<open>The length in the dictionary of a stream is corrected before it is written.\<close>

definition GetIntegerFor :: "'f pdf_env \<Rightarrow> 'f dict \<Rightarrow> bytes \<Rightarrow> int" where
  "GetIntegerFor env m key = (case GetDirectObjectFor env m key of
      Some (PNumber n) \<Rightarrow> GetSigned env n | Some (PBoolean b) \<Rightarrow> (if b then 1 else 0) | _ \<Rightarrow> 0)"

definition stream_dict :: "'f pdf_env \<Rightarrow> 'f dict \<Rightarrow> nat \<Rightarrow> 'f dict" where
  "stream_dict env m len =
    (if GetIntegerFor env m (B ''Length'') \<noteq> int len
     then SetFor (B ''Length'') (PNumber (Signed (to_int32 len))) (Clone_dict env m) else m)"

type_synonym encryptor = "(bytes \<Rightarrow> bytes) option"

fun WriteTo :: "'f pdf_env \<Rightarrow> encryptor \<Rightarrow> 'f pdf_object \<Rightarrow> bytes option"
  and write_objects :: "'f pdf_env \<Rightarrow> encryptor \<Rightarrow> 'f pdf_object list \<Rightarrow> bytes option"
  and write_entries :: "'f pdf_env \<Rightarrow> encryptor \<Rightarrow> bool \<Rightarrow> 'f dict \<Rightarrow> bytes option" where
  "WriteTo env enc PNull = Some (B '' null'')"
| "WriteTo env enc (PBoolean b) = Some (B '' '' @ (if b then B ''true'' else B ''false''))"
| "WriteTo env enc (PNumber n) = Some (B '' '' @ number_string env n)"
| "WriteTo env enc (PString s hex) =
    (let raw = (case enc of None \<Rightarrow> s | Some e \<Rightarrow> e s) in
     Some (if hex then PDF_HexEncodeString raw else PDF_EncodeString raw))"
| "WriteTo env enc (PName n) = map_option ((@) (B ''/'')) (PDF_NameEncode n)"
| "WriteTo env enc (PArray os) = map_option (\<lambda>body. B ''['' @ body @ B '']'') (write_objects env enc os)"
| "WriteTo env enc (PDictionary m) =
    map_option (\<lambda>body. B ''<<'' @ body @ B ''>>'') (write_entries env enc (IsSignatureDictionary env m) m)"
| "WriteTo env enc (PStream m data) = None"
| "WriteTo env enc (PReference n) = Some (B '' '' @ WriteDWord n @ B '' 0 R '')"
| "write_objects env enc [] = Some []"
| "write_objects env enc (obj # os) =
    Option.bind (WriteTo env enc obj) (\<lambda>s. map_option ((@) s) (write_objects env enc os))"
| "write_entries env enc is_signature [] = Some []"
| "write_entries env enc is_signature ((key, obj) # m) =
    Option.bind (PDF_NameEncode key) (\<lambda>name.
    Option.bind (WriteTo env (if \<not> is_signature \<or> key \<noteq> B ''Contents'' then enc else None) obj) (\<lambda>s.
    map_option ((@) (B ''/'' @ name @ s)) (write_entries env enc is_signature m)))"

text \<open>A stream is written at the top level of an indirect object only; its dictionary holds no streams.\<close>

definition WriteStream :: "'f pdf_env \<Rightarrow> encryptor \<Rightarrow> 'f dict \<Rightarrow> bytes \<Rightarrow> bytes option" where
  "WriteStream env enc m data =
    (let is_metadata = IsMetaDataStreamDictionary m;
         (m, data) = CPDF_FlateEncoder env m data (\<not> is_metadata);
         data = (case enc of None \<Rightarrow> data | Some e \<Rightarrow> if \<not> is_metadata then e data else data)
     in map_option (\<lambda>s. s @ B ''stream'' @ [13, 10] @ data @ [13, 10] @ B ''endstream'')
          (WriteTo env enc (PDictionary (stream_dict env m (length data)))))"

definition WriteObject :: "'f pdf_env \<Rightarrow> encryptor \<Rightarrow> 'f pdf_object \<Rightarrow> bytes option" where
  "WriteObject env enc obj = (case obj of PStream m data \<Rightarrow> WriteStream env enc m data | _ \<Rightarrow> WriteTo env enc obj)"

definition WriteIndirectObj :: "'f pdf_env \<Rightarrow> encryptor \<Rightarrow> nat \<Rightarrow> 'f pdf_object \<Rightarrow> bytes option" where
  "WriteIndirectObj env enc objnum obj =
    map_option (\<lambda>s. WriteDWord objnum @ B '' 0 obj'' @ [13, 10] @ s @ [13, 10] @ B ''endobj'' @ [13, 10])
      (WriteObject env enc obj)"

end
