(* ===== verification/Pdf_Reader.thy ===== *)
theory Pdf_Reader
  imports Pdf_Object
begin

text \<open>
  The object and stream readers of src/core/fpdfapi/parser/cpdf_syntax_parser.cpp, in the loose mode that
  CPDF_SyntaxParser::GetObjectBody uses.  The recursive readers have a bound on the number of their calls;
  twice the number of unread bytes is shown to be enough for every file.
\<close>

section \<open>Reading streams\<close>

definition char_or_zero :: "nat \<Rightarrow> syntax_parser \<Rightarrow> byte \<times> syntax_parser" where
  "char_or_zero pos p = (case GetCharAt pos p of None \<Rightarrow> (0, p) | Some (c, q) \<Rightarrow> (c, q))"

definition ReadEOLMarkers :: "nat \<Rightarrow> syntax_parser \<Rightarrow> nat \<times> syntax_parser" where
  "ReadEOLMarkers pos p =
    (let (byte1, p) = char_or_zero pos p; (byte2, p) = char_or_zero (pos + 1) p in
     (if byte1 = 13 \<and> byte2 = 10 then 2 else if byte1 = 13 \<or> byte1 = 10 then 1 else 0, p))"

text \<open>
  The end of a stream whose length is not known: the first of the words \<open>endstream\<close> and \<open>endobj\<close>, before
  the line end that precedes it.  The word is found after the current position, which is that of stream
  data, so the positions before it exist.
\<close>

definition FindStreamEndPos :: "syntax_parser \<Rightarrow> nat option \<times> syntax_parser" where
  "FindStreamEndPos p =
    (let (endStream, p) = FindWordPos (B ''endstream'') p; (endObj, p) = FindWordPos (B ''endobj'') p in
     case (case endStream of None \<Rightarrow> endObj
           | Some s \<Rightarrow> (case endObj of None \<Rightarrow> Some s | Some ob \<Rightarrow> Some (if ob < s then ob else s))) of
       None \<Rightarrow> (None, p)
     | Some off \<Rightarrow>
         let (numMarkers, p) = ReadEOLMarkers (off - 2) p;
             (off, p) = (if numMarkers = 2 then (off - 2, p)
                         else let (numMarkers, p) = ReadEOLMarkers (off - 1) p
                              in (if numMarkers = 1 then off - 1 else off, p))
         in (if off < m_Pos p then None else Some off, p))"

text \<open>The bytes a substream of the file holds.\<close>

definition sub_stream :: "nat \<Rightarrow> nat \<Rightarrow> syntax_parser \<Rightarrow> bytes" where
  "sub_stream pos len p = take len (drop (m_HeaderOffset p + pos) (m_pFileAccess p))"

text \<open>White space up to the end of the line.\<close>

function skip_blanks :: "syntax_parser \<Rightarrow> syntax_parser" where
  "skip_blanks p = (case GetNextChar p of None \<Rightarrow> p
    | Some (ch, p) \<Rightarrow> if \<not> PDFCharIsWhitespace ch \<or> PDFCharIsLineEnding ch then p else skip_blanks p)"
  by pat_completeness auto
termination by (relation "measure left") (auto dest: GetNextChar_left)

declare skip_blanks.simps [simp del]

text \<open>The data of the length the dictionary gives, when the keyword follows it.\<close>

definition stream_by_length :: "int \<Rightarrow> syntax_parser \<Rightarrow> bytes option \<times> syntax_parser" where
  "stream_by_length len p =
    (if len < 0 then (None, p)
     else
       let start = m_Pos p;
           p = (if 0 < len then SetPos (start + nat len) p else p);
           (eol, p) = ReadEOLMarkers (m_Pos p) p;
           (wt, p) = GetNextWordInternal (p\<lparr>m_Pos := m_Pos p + eol\<rparr>) in
       if take 9 (m_WordBuffer p) \<noteq> B ''endstream'' then (None, SetPos start p)
       else (Some (sub_stream start (nat len) p), p))"

definition stream_by_search :: "syntax_parser \<Rightarrow> bytes option \<times> syntax_parser" where
  "stream_by_search p =
    (let start = m_Pos p; (streamEnd, p) = FindStreamEndPos p in
     case streamEnd of None \<Rightarrow> (None, p)
     | Some e \<Rightarrow>
         let len = e - start in
         (Some (sub_stream start len p), if 0 < len then SetPos (start + len) p else p))"

text \<open>After the stream: the position stays at its end when the end of the object follows.\<close>

definition after_stream :: "syntax_parser \<Rightarrow> syntax_parser" where
  "after_stream p =
    (let end_stream_offset = m_Pos p;
         (wt, p) = GetNextWordInternal p;
         p = skip_blanks p;
         p = SetPos (m_Pos p - 1) p;
         (numMarkers, p) = ReadEOLMarkers (m_Pos p) p
     in if numMarkers \<noteq> 0 \<and> m_WordBuffer p = B ''endobj'' then SetPos end_stream_offset p else p)"

definition ReadStream :: "'f pdf_env \<Rightarrow> 'f dict \<Rightarrow> syntax_parser \<Rightarrow> 'f pdf_object option \<times> syntax_parser" where
  "ReadStream env m p =
    (let len = (case GetDirectObjectFor env m (B ''Length'') of Some (PNumber n) \<Rightarrow> GetSigned env n | _ \<Rightarrow> - 1);
         p = ToNextLine p;
         len = (if 0 < len \<and> int (m_FileLen p) \<le> int (m_Pos p) + len then - 1 else len);
         (data, p) = stream_by_length len p;
         (data, p) = (case data of Some d \<Rightarrow> (Some d, p) | None \<Rightarrow> stream_by_search p)
     in case data of None \<Rightarrow> (None, p) | Some d \<Rightarrow> (Some (PStream (SetFor (B ''Length'') (PNumber (Signed (to_int32 (length d)))) m) d), after_stream p))"

section \<open>Reading objects\<close>

definition kParserMaxRecursionDepth :: nat where
  "kParserMaxRecursionDepth = 64"

definition kInvalidObjNum :: nat where
  "kInvalidObjNum = 2 ^ 32 - 1"

text \<open>A number, or a reference when it is followed by another number and the letter R.\<close>

definition read_number ::
  "'f pdf_env \<Rightarrow> bytes \<Rightarrow> syntax_parser \<Rightarrow> 'f pdf_object option \<times> syntax_parser" where
  "read_number env word p =
    (let ((next, next_is_number), q) = GetNextWord p in
     if \<not> next_is_number then (Some (PNumber (FX_Number env word)), q\<lparr>m_Pos := m_Pos p\<rparr>)
     else
       let ((next2, _), q) = GetNextWord q in
       if next2 \<noteq> B ''R'' then (Some (PNumber (FX_Number env word)), q\<lparr>m_Pos := m_Pos p\<rparr>)
       else
         let refnum = nat (FXSYS_atoui (map unat word)) in
         (if refnum = kInvalidObjNum then None else Some (PReference refnum), q))"

text \<open>The end of a dictionary: a stream follows when the next word says so.\<close>

definition end_dictionary :: "'f pdf_env \<Rightarrow> 'f dict \<Rightarrow> syntax_parser \<Rightarrow> 'f pdf_object option \<times> syntax_parser" where
  "end_dictionary env m p =
    (let ((word, _), q) = GetNextWord p in
     if word \<noteq> B ''stream'' then (Some (PDictionary m), q\<lparr>m_Pos := m_Pos p\<rparr>) else ReadStream env m q)"

text \<open>
  One call of the reader and one turn of each of its loops, over the calls they make: \<open>items\<close> and \<open>entries\<close> are
  the loops that read the elements of an array and the entries of a dictionary, \<open>object\<close> the recursive call.
\<close>

definition object_body ::
  "(syntax_parser \<Rightarrow> ('f pdf_object option \<times> syntax_parser) option) \<Rightarrow>
   (syntax_parser \<Rightarrow> ('f pdf_object option \<times> syntax_parser) option) \<Rightarrow>
   'f pdf_env \<Rightarrow> nat \<Rightarrow> syntax_parser \<Rightarrow> ('f pdf_object option \<times> syntax_parser) option" where
  "object_body items entries env depth p =
    (if kParserMaxRecursionDepth < depth + 1 then Some (None, p)
     else
       let ((word, is_number), q) = GetNextWord p in
       if word = [] then Some (None, q)
       else if is_number then Some (read_number env word q)
       else if word = B ''true'' \<or> word = B ''false'' then Some (Some (PBoolean (word = B ''true'')), q)
       else if word = B ''null'' then Some (Some PNull, q)
       else if word = B ''('' then (let (str, r) = ReadString q in Some (Some (PString str False), r))
       else if word = B ''<'' then (let (str, r) = ReadHexString q in Some (Some (PString str True), r))
       else if word = B ''['' then items q
       else if hd word = 47 then Some (Some (PName (PDF_NameDecode (tl word))), q)
       else if word = B ''<<'' then entries q
       else if word = B ''>>'' then Some (None, q\<lparr>m_Pos := m_Pos p\<rparr>)
       else Some (None, q))"

definition array_item ::
  "(syntax_parser \<Rightarrow> ('f pdf_object option \<times> syntax_parser) option) \<Rightarrow>
   ('f pdf_object list \<Rightarrow> syntax_parser \<Rightarrow> ('f pdf_object option \<times> syntax_parser) option) \<Rightarrow>
   'f pdf_object list \<Rightarrow> syntax_parser \<Rightarrow> ('f pdf_object option \<times> syntax_parser) option" where
  "array_item object items acc p = (case object p of
      None \<Rightarrow> None
    | Some (None, q) \<Rightarrow> Some (Some (PArray acc), q)
    | Some (Some obj, q) \<Rightarrow> items (acc @ [obj]) q)"

definition dictionary_entry ::
  "(syntax_parser \<Rightarrow> ('f pdf_object option \<times> syntax_parser) option) \<Rightarrow>
   ('f dict \<Rightarrow> syntax_parser \<Rightarrow> ('f pdf_object option \<times> syntax_parser) option) \<Rightarrow>
   'f pdf_env \<Rightarrow> 'f dict \<Rightarrow> syntax_parser \<Rightarrow> ('f pdf_object option \<times> syntax_parser) option" where
  "dictionary_entry object entries env m p =
    (let ((inner_word, _), q) = GetNextWord p in
     if inner_word = [] then Some (None, q)
     else if inner_word = B ''>>'' then Some (end_dictionary env m q)
     else if inner_word = B ''endobj'' then Some (end_dictionary env m (q\<lparr>m_Pos := m_Pos q - length inner_word\<rparr>))
     else if hd inner_word \<noteq> 47 then entries m q
     else
       let key = PDF_NameDecode inner_word in
       if key = [] then entries m q
       else (case object q of
         None \<Rightarrow> None
       | Some (None, q) \<Rightarrow> entries m q
       | Some (Some obj, q) \<Rightarrow> entries (if 1 < length key then SetFor (tl key) obj m else m) q))"

text \<open>The recursive calls with a bound on their number: \<open>None\<close> means that the bound was reached.\<close>

fun GetObjectBodyInternal ::
    "nat \<Rightarrow> 'f pdf_env \<Rightarrow> nat \<Rightarrow> syntax_parser \<Rightarrow> ('f pdf_object option \<times> syntax_parser) option"
  and array_items ::
    "nat \<Rightarrow> 'f pdf_env \<Rightarrow> nat \<Rightarrow> 'f pdf_object list \<Rightarrow> syntax_parser \<Rightarrow> ('f pdf_object option \<times> syntax_parser) option"
  and dictionary_items ::
    "nat \<Rightarrow> 'f pdf_env \<Rightarrow> nat \<Rightarrow> 'f dict \<Rightarrow> syntax_parser \<Rightarrow> ('f pdf_object option \<times> syntax_parser) option" where
  "GetObjectBodyInternal 0 env depth p = None"
| "GetObjectBodyInternal (Suc fuel) env depth p =
    object_body (array_items fuel env (depth + 1) []) (dictionary_items fuel env (depth + 1) []) env depth p"
| "array_items 0 env depth acc p = None"
| "array_items (Suc fuel) env depth acc p =
    array_item (GetObjectBodyInternal fuel env depth) (array_items fuel env depth) acc p"
| "dictionary_items 0 env depth m p = None"
| "dictionary_items (Suc fuel) env depth m p =
    dictionary_entry (GetObjectBodyInternal fuel env depth) (dictionary_items fuel env depth) env m p"

definition GetObjectBody :: "'f pdf_env \<Rightarrow> syntax_parser \<Rightarrow> ('f pdf_object option \<times> syntax_parser) option" where
  "GetObjectBody env p = GetObjectBodyInternal (2 * left p + 1) env 0 p"

definition GetIndirectObject ::
  "'f pdf_env \<Rightarrow> syntax_parser \<Rightarrow> ((nat \<times> nat \<times> 'f pdf_object) option \<times> syntax_parser) option" where
  "GetIndirectObject env p =
    (let saved_pos = m_Pos p; ((objnum_word, objnum_is_number), p) = GetNextWord p in
     if \<not> objnum_is_number \<or> objnum_word = [] then Some (None, SetPos saved_pos p)
     else
       let ((gennum_word, gennum_is_number), p) = GetNextWord p in
       if \<not> gennum_is_number \<or> gennum_word = [] then Some (None, SetPos saved_pos p)
       else
         let (keyword, p) = GetKeyword p in
         if keyword \<noteq> B ''obj'' then Some (None, SetPos saved_pos p)
         else (case GetObjectBody env p of
             None \<Rightarrow> None
           | Some (None, p) \<Rightarrow> Some (None, p)
           | Some (Some obj, p) \<Rightarrow> Some (Some (nat (FXSYS_atoui (map unat objnum_word)),
               nat (FXSYS_atoui (map unat gennum_word)), obj), p)))"

end
