(* ===== verification/Pdf_Reader_Safe.thy ===== *)
theory Pdf_Reader_Safe
  imports Pdf_Reader
begin

text \<open>
  The object reader on arbitrary files: every part of it goes forward in the file, so its recursion
  ends, and the objects it returns are well formed.
\<close>

section \<open>Going forward\<close>

definition fwd :: "syntax_parser \<Rightarrow> syntax_parser \<Rightarrow> bool" where
  "fwd p q \<longleftrightarrow> same_source p q \<and> left q \<le> left p"

definition stays :: "syntax_parser \<Rightarrow> syntax_parser \<Rightarrow> bool" where
  "stays p q \<longleftrightarrow> same_source p q \<and> m_Pos q = m_Pos p"

lemma same_source_refl [simp]: "same_source p p \<longleftrightarrow> source_ok p"
  by (simp add: same_source_def)

lemma fwd_refl: "source_ok p \<Longrightarrow> fwd p p"
  by (simp add: fwd_def)

lemma fwd_trans: "fwd p q \<Longrightarrow> fwd q r \<Longrightarrow> fwd p r"
  by (auto simp: fwd_def same_source_def)

lemma stays_refl: "source_ok p \<Longrightarrow> stays p p"
  by (simp add: stays_def)

lemma stays_trans: "stays p q \<Longrightarrow> stays q r \<Longrightarrow> stays p r"
  by (auto simp: stays_def same_source_def)

lemma stays_part: "stays p q \<Longrightarrow> unread_part q = unread_part p"
  by (simp add: stays_def same_source_def unread_part_def)

lemma stays_fwd: "stays p q \<Longrightarrow> fwd p q"
  by (simp add: fwd_def stays_part) (simp add: stays_def)

lemma same_source_set_pos [simp]: "same_source p (q\<lparr>m_Pos := n\<rparr>) = same_source p q"
  by (simp add: same_source_def source_ok_def)

lemma same_source_SetPos [simp]: "same_source p (SetPos n q) = same_source p q"
  by (simp add: SetPos_def)

lemma same_source_unread [simp]: "same_source p (unread q) = same_source p q"
  by (simp add: unread_def)

lemma same_source_ok: "same_source p q \<Longrightarrow> source_ok q"
  by (simp add: same_source_def)

lemma left_pos: "left p = m_FileLen p - (m_Pos p + m_HeaderOffset p)"
  by (simp add: unread_part_def)

lemma left_SetPos: "m_Pos p \<le> n + k \<Longrightarrow> left (SetPos n p) \<le> left p + k"
  by (auto simp: left_pos SetPos_def min_def)

lemma GetNextChar_step:
  assumes "source_ok p" and "GetNextChar p = Some (ch, q)"
  shows "same_source p q \<and> left q < left p \<and> m_Pos q = m_Pos p + 1"
proof -
  obtain c s where "unread_part p = c # s" using assms(2) GetNextChar_Nil by (cases "unread_part p") auto
  from GetNextChar_Cons [OF assms(1) this] show ?thesis
    using assms(2) GetNextChar_left [OF assms(2)] by (auto simp: same_source_def same_file_def)
qed

lemma GetNextChar_fwd: "source_ok p \<Longrightarrow> GetNextChar p = Some (ch, q) \<Longrightarrow> fwd p q"
  using GetNextChar_step [of p ch q] by (simp add: fwd_def)

lemma GetNextChar_unread_stays: "source_ok p \<Longrightarrow> GetNextChar p = Some (ch, q) \<Longrightarrow> stays p (unread q)"
  using GetNextChar_step [of p ch q] by (simp add: stays_def) (simp add: unread_def)

lemma GetCharAt_stays: "source_ok p \<Longrightarrow> GetCharAt pos p = Some (ch, q) \<Longrightarrow> stays p q"
  using GetNextChar_step [of "p\<lparr>m_Pos := pos\<rparr>"]
  by (auto simp: GetCharAt_def stays_def same_source_def source_ok_def)

lemma string_loop_fwd: "source_ok p \<Longrightarrow> fwd p (snd (string_loop ch s p))"
proof (induction ch s p rule: string_loop.induct)
  case (1 ch s p)
  show ?case
  proof (cases "string_step ch s")
    case (EndString b)
    then show ?thesis by (simp add: string_loop.simps [of ch s p] fwd_refl 1)
  next
    case (SameChar s')
    then show ?thesis using 1 by (simp add: string_loop.simps [of ch s p])
  next
    case (NextChar s')
    show ?thesis
    proof (cases "GetNextChar p")
      case None
      then show ?thesis using NextChar by (simp add: string_loop.simps [of ch s p] fwd_refl 1)
    next
      case (Some a)
      obtain c q where a: "a = (c, q)" by (cases a)
      have q: "fwd p q" "source_ok q"
        using GetNextChar_fwd [OF 1(3)] Some a by (auto simp: fwd_def dest: same_source_ok)
      show ?thesis using 1(1) [OF NextChar Some a [symmetric] q(2)] fwd_trans [OF q(1)] NextChar Some a
        by (simp add: string_loop.simps [of ch s p])
    qed
  qed
qed

lemma hex_loop_fwd: "source_ok p \<Longrightarrow> fwd p (snd (hex_loop ch f c out p))"
proof (induction "left p" arbitrary: ch f c out p rule: less_induct)
  case less
  show ?case
  proof (cases "GetNextChar p")
    case None
    then show ?thesis using less(2) by (auto simp: hex_loop.simps [of ch f c out p] fwd_refl Let_def)
  next
    case (Some a)
    obtain d q where a: "a = (d, q)" by (cases a)
    have q: "fwd p q" "source_ok q" "left q < left p"
      using GetNextChar_step [OF less(2)] Some a by (auto simp: fwd_def dest: same_source_ok)
    then show ?thesis using less(1) [OF q(3,2)] fwd_trans [OF q(1)] Some a less(2)
      by (auto simp: hex_loop.simps [of ch f c out p] fwd_refl Let_def)
  qed
qed

lemma ReadString_fwd: "source_ok p \<Longrightarrow> fwd p (snd (ReadString p))"
  by (auto simp: ReadString_def fwd_refl dest: GetNextChar_fwd split: option.split)
    (meson GetNextChar_step fwd_trans GetNextChar_fwd same_source_ok string_loop_fwd)

lemma ReadHexString_fwd: "source_ok p \<Longrightarrow> fwd p (snd (ReadHexString p))"
  by (auto simp: ReadHexString_def fwd_refl dest: GetNextChar_fwd split: option.split)
    (meson GetNextChar_step fwd_trans GetNextChar_fwd same_source_ok hex_loop_fwd)


lemma skip_blanks_fwd: "source_ok p \<Longrightarrow> fwd p (skip_blanks p)"
proof (induction p rule: skip_blanks.induct)
  case (1 p)
  show ?case
  proof (cases "GetNextChar p")
    case None
    then show ?thesis using 1(2) by (simp add: skip_blanks.simps [of p] fwd_refl)
  next
    case (Some a)
    obtain d q where a: "a = (d, q)" by (cases a)
    have q: "fwd p q" "source_ok q"
      using GetNextChar_fwd [OF 1(2)] Some a by (auto simp: fwd_def dest: same_source_ok)
    then show ?thesis using 1(1) [OF Some a [symmetric] _ q(2)] fwd_trans [OF q(1)] Some a
      by (auto simp: skip_blanks.simps [of p])
  qed
qed

lemma ToNextLine_fwd: "source_ok p \<Longrightarrow> fwd p (ToNextLine p)"
proof (induction p rule: ToNextLine.induct)
  case (1 p)
  show ?case
  proof (cases "GetNextChar p")
    case None
    then show ?thesis using 1(2) by (simp add: ToNextLine.simps [of p] fwd_refl)
  next
    case (Some a)
    obtain d q where a: "a = (d, q)" by (cases a)
    have q: "fwd p q" "source_ok q"
      using GetNextChar_fwd [OF 1(2)] Some a by (auto simp: fwd_def dest: same_source_ok)
    have u: "fwd p (unread q)" using stays_fwd [OF GetNextChar_unread_stays] 1(2) Some a by blast
    have "fwd p (case GetNextChar q of None \<Rightarrow> unread q | Some (ch, r) \<Rightarrow> if ch \<noteq> 10 then unread r else r)"
      using u fwd_trans [OF q(1)] GetNextChar_fwd [OF q(2)] stays_fwd [OF GetNextChar_unread_stays [OF q(2)]]
      by (auto split: option.split)
    then show ?thesis using 1(1) [OF Some a [symmetric] _ _ q(2)] fwd_trans [OF q(1)] q(1) Some a
      by (auto simp: ToNextLine.simps [of p])
  qed
qed

lemma tag_loop_same: "source_ok p \<Longrightarrow> same_source p (snd (tag_loop tag s m p))"
proof (induction tag s m p rule: tag_loop.induct)
  case (1 tag s m p)
  show ?case
  proof (cases "GetNextChar p")
    case None
    then show ?thesis using 1(3) by (simp add: tag_loop.simps [of tag s m p])
  next
    case (Some a)
    obtain d q where a: "a = (d, q)" by (cases a)
    have q: "same_source p q" using GetNextChar_step [OF 1(3)] Some a by blast
    note ok = same_source_ok [OF q]
    show ?thesis
      using 1(1) [OF Some a [symmetric] _ _ ok] 1(2) [OF Some a [symmetric] _ ok] same_source_trans [OF q] q Some a
      by (auto simp: tag_loop.simps [of tag s m p])
  qed
qed

lemma IsWholeWord_stays: "source_ok p \<Longrightarrow> stays p (snd (IsWholeWord s l tag k p))"
  by (auto simp: IsWholeWord_def Let_def stays_refl dest: GetCharAt_stays split: option.splits prod.splits if_splits)
    (meson GetCharAt_stays stays_def same_source_ok stays_trans)+

lemma word_pos_loop_same: "source_ok p \<Longrightarrow> same_source p (snd (word_pos_loop w p))"
proof (induction w p rule: word_pos_loop.induct)
  case (1 w p)
  obtain e q where q: "FindTag w p = (e, q)" by fastforce
  have s: "same_source p q" using tag_loop_same [OF 1(2), of w "m_Pos p" 0] q by (simp add: FindTag_def)
  show ?case
  proof (cases e)
    case None
    then show ?thesis using s q by (simp add: word_pos_loop.simps [of w p])
  next
    case (Some n)
    obtain b r where r: "IsWholeWord (m_Pos q - length w) (m_FileLen q) w True q = (b, r)" by fastforce
    have t: "same_source p r"
      using same_source_trans [OF s] IsWholeWord_stays [OF same_source_ok [OF s]] r by (metis snd_conv stays_def)
    show ?thesis using 1(1) [OF q [symmetric] Some r [symmetric] refl _ same_source_ok [OF t]] same_source_trans [OF t] t q Some r
      by (simp add: word_pos_loop.simps [of w p])
  qed
qed

lemma FindWordPos_stays: "source_ok p \<Longrightarrow> stays p (snd (FindWordPos w p))"
  using word_pos_loop_same [of p w] by (auto simp: FindWordPos_def stays_def split: prod.split)

lemma char_or_zero_stays: "source_ok p \<Longrightarrow> stays p (snd (char_or_zero pos p))"
  by (auto simp: char_or_zero_def stays_refl dest: GetCharAt_stays split: option.split)

lemma stays_ok: "stays p q \<Longrightarrow> source_ok q"
  by (simp add: stays_def same_source_def)

lemma stays_bind: "stays p (snd x) \<Longrightarrow> (\<And>a q. x = (a, q) \<Longrightarrow> source_ok q \<Longrightarrow> stays q (snd (f a q))) \<Longrightarrow>
    stays p (snd (case x of (a, q) \<Rightarrow> f a q))"
  by (cases x) (auto intro: stays_trans dest: stays_ok)

lemma ReadEOLMarkers_stays: "source_ok p \<Longrightarrow> stays p (snd (ReadEOLMarkers pos p))"
  by (simp add: ReadEOLMarkers_def Let_def) (intro stays_bind char_or_zero_stays; simp add: stays_refl)

lemma FindStreamEndPos_stays: "source_ok p \<Longrightarrow> stays p (snd (FindStreamEndPos p))"
  unfolding FindStreamEndPos_def Let_def
  by (intro stays_bind FindWordPos_stays; (simp split: option.split)?)
    (intro conjI impI allI stays_bind ReadEOLMarkers_stays; simp add: stays_refl;
      intro impI stays_bind ReadEOLMarkers_stays; simp add: stays_refl)

lemma FindStreamEndPos_after:
  assumes "source_ok p" and "FindStreamEndPos p = (Some e, q)"
  shows "m_Pos p \<le> e"
proof -
  have "m_Pos q \<le> e" using assms(2)
    by (auto simp: FindStreamEndPos_def Let_def split: option.splits prod.splits if_splits)
  then show ?thesis using FindStreamEndPos_stays [OF assms(1)] assms(2) by (simp add: stays_def)
qed


section \<open>Words and streams\<close>

lemma length_skip_space: "length (skip_space s) \<le> length s" "length (skip_line s) \<le> length s"
  by (induction s rule: skip_space_skip_line.induct) auto

lemma word_at_length: "length (fst (fst (word_at s))) + length (snd (word_at s)) \<le> length s"
proof (cases s)
  case (Cons c t)
  have "length (takeWhile regular t) + length (dropWhile regular t) = length t"
    by (metis length_append takeWhile_dropWhile_id)
  then show ?thesis using Cons by (cases t) auto
qed simp

lemma next_word_length: "length (fst (fst (next_word s))) + length (snd (next_word s)) \<le> length s"
  using word_at_length [of "skip_space s"] length_skip_space(1) [of s] by (simp add: next_word_def)

lemma GetNextWord_fwd:
  assumes "source_ok p" and "m_TrailerEnds p = None" and "GetNextWord p = ((w, b), q)"
  shows "same_source p q \<and> left q + length w \<le> left p"
proof -
  obtain r where "GetNextWord p = (fst (next_word (unread_part p)), r)" "at p (snd (next_word (unread_part p))) r"
    using GetNextWord_next_word [OF atI [OF assms(1)] assms(2)] by blast
  then show ?thesis using assms(3) next_word_length [of "unread_part p"]
    by (cases "fst (next_word (unread_part p))") (auto simp: at_def)
qed

lemma GetNextWordInternal_fwd:
  assumes "source_ok p" and "m_TrailerEnds p = None" and "GetNextWordInternal p = (wt, q)"
  shows "fwd p q"
  using GetNextWord_fwd [OF assms(1,2), of "m_WordBuffer q" "wt = kNumber" q] assms(3)
  by (simp add: GetNextWord_def fwd_def)

lemma same_source_trailer: "same_source p q \<Longrightarrow> m_TrailerEnds q = m_TrailerEnds p"
  by (simp add: same_source_def)

lemma fwdD: "fwd p q \<Longrightarrow> same_source p q" "fwd p q \<Longrightarrow> left q \<le> left p" "fwd p q \<Longrightarrow> source_ok q"
  "fwd p q \<Longrightarrow> m_TrailerEnds q = m_TrailerEnds p"
  by (simp_all add: fwd_def same_source_def)

lemma fwd_SetPos: "source_ok p \<Longrightarrow> m_Pos p \<le> n \<Longrightarrow> fwd p (SetPos n p)"
  using left_SetPos [of p n 0] by (simp add: fwd_def)

lemma fwd_add_pos: "source_ok p \<Longrightarrow> fwd p (p\<lparr>m_Pos := m_Pos p + n\<rparr>)"
  by (simp add: fwd_def) (simp add: left_pos)

lemma left_return: "same_source p q \<Longrightarrow> left (SetPos (m_Pos p) q) \<le> left p"
  by (auto simp: same_source_def left_pos SetPos_def)

lemma stream_by_length_fwd:
  assumes "source_ok p" and "m_TrailerEnds p = None"
  shows "fwd p (snd (stream_by_length len p))"
proof (cases "len < 0")
  case True
  then show ?thesis using assms by (simp add: stream_by_length_def fwd_refl)
next
  case False
  define p1 where "p1 = (if 0 < len then SetPos (m_Pos p + nat len) p else p)"
  obtain eol p2 where p2: "ReadEOLMarkers (m_Pos p1) p1 = (eol, p2)" by fastforce
  obtain wt p3 where p3: "GetNextWordInternal (p2\<lparr>m_Pos := m_Pos p2 + eol\<rparr>) = (wt, p3)" by fastforce
  have 1: "fwd p p1" using assms by (simp add: p1_def fwd_SetPos fwd_refl)
  have 2: "fwd p1 p2" using stays_fwd [OF ReadEOLMarkers_stays [OF fwdD(3) [OF 1]]] p2 by (metis snd_conv)
  have 3: "fwd p2 (p2\<lparr>m_Pos := m_Pos p2 + eol\<rparr>)" using 2 fwd_add_pos fwdD(3) by blast
  have "fwd p2 p3" using 3 GetNextWordInternal_fwd [OF fwdD(3) [OF 3] _ p3] assms(2) fwdD(4) [OF 1] fwdD(4) [OF 2]
    by (auto intro: fwd_trans)
  then have "fwd p p3" using 1 2 fwd_trans by blast
  moreover from this have "fwd p (SetPos (m_Pos p) p3)"
    using left_return [of p p3] by (simp add: fwd_def)
  ultimately show ?thesis using False p2 p3 by (simp add: stream_by_length_def Let_def p1_def)
qed

lemma stream_by_search_fwd:
  assumes "source_ok p"
  shows "fwd p (snd (stream_by_search p))"
proof -
  obtain e q where q: "FindStreamEndPos p = (e, q)" by fastforce
  have s: "stays p q" using FindStreamEndPos_stays [OF assms] q by (metis snd_conv)
  have "e = Some n \<Longrightarrow> m_Pos p \<le> n" for n using FindStreamEndPos_after [OF assms] q by blast
  then have "fwd p (SetPos (m_Pos p + (n - m_Pos p)) q)" if "e = Some n" for n
    using that s fwd_SetPos [of q n] stays_fwd [OF s] fwd_trans stays_ok [OF s] by (auto simp: stays_def)
  then show ?thesis using q stays_fwd [OF s] by (auto simp: stream_by_search_def Let_def split: option.split)
qed

lemma after_stream_back:
  assumes "source_ok p" and "m_TrailerEnds p = None"
  shows "same_source p (after_stream p) \<and> left (after_stream p) \<le> left p + 1"
proof -
  obtain wt p1 where p1: "GetNextWordInternal p = (wt, p1)" by fastforce
  have 1: "fwd p p1" using GetNextWordInternal_fwd [OF assms p1] .
  define p2 where "p2 = SetPos (m_Pos (skip_blanks p1) - 1) (skip_blanks p1)"
  have "fwd p (skip_blanks p1)" using 1 skip_blanks_fwd [OF fwdD(3) [OF 1]] fwd_trans by blast
  moreover have "left p2 \<le> left (skip_blanks p1) + 1" unfolding p2_def by (rule left_SetPos) simp
  ultimately have 2: "same_source p p2" "left p2 \<le> left p + 1" by (auto simp: p2_def fwd_def)
  obtain n p3 where p3: "ReadEOLMarkers (m_Pos p2) p2 = (n, p3)" by fastforce
  have 3: "stays p2 p3" using ReadEOLMarkers_stays [OF same_source_ok [OF 2(1)]] p3 by (metis snd_conv)
  have "same_source p p3" "left p3 \<le> left p + 1"
    using 2 3 same_source_trans by (auto simp: stays_part) (auto simp: stays_def)
  moreover have "left (SetPos (m_Pos p) p3) \<le> left p"
    using \<open>same_source p p3\<close> by (rule left_return)
  ultimately show ?thesis using p1 p3 by (auto simp: after_stream_def Let_def p2_def)
qed

lemma ReadStream_back:
  assumes "source_ok p" and "m_TrailerEnds p = None"
  shows "same_source p (snd (ReadStream env m p)) \<and> left (snd (ReadStream env m p)) \<le> left p + 1"
proof -
  define p1 where "p1 = ToNextLine p"
  define len where "len = (case GetDirectObjectFor env m (B ''Length'') of Some (PNumber n) \<Rightarrow> GetSigned env n | _ \<Rightarrow> - 1)"
  define len1 where "len1 = (if 0 < len \<and> int (m_FileLen p1) \<le> int (m_Pos p1) + len then - 1 else len)"
  obtain d2 p2 where p2: "stream_by_length len1 p1 = (d2, p2)" by fastforce
  obtain d3 p3 where p3: "(case d2 of Some d \<Rightarrow> (Some d, p2) | None \<Rightarrow> stream_by_search p2) = (d3, p3)" by fastforce
  have 1: "fwd p p1" unfolding p1_def using ToNextLine_fwd [OF assms(1)] .
  have t: "m_TrailerEnds p1 = None" using fwdD(4) [OF 1] assms(2) by simp
  have 2: "fwd p p2" using fwd_trans [OF 1] stream_by_length_fwd [OF fwdD(3) [OF 1] t, of len1] p2 by simp
  have 3: "fwd p p3" using fwd_trans [OF 2] stream_by_search_fwd [OF fwdD(3) [OF 2]] p3 2 by (auto split: option.splits)
  have 4: "same_source p (after_stream p3)" "left (after_stream p3) \<le> left p + 1"
    using after_stream_back [OF fwdD(3) [OF 3]] fwdD [OF 3] assms(2) same_source_trans by fastforce+
  show ?thesis using 3 4 p2 p3
    by (auto simp: ReadStream_def Let_def p1_def [symmetric] len_def [symmetric] len1_def [symmetric] fwd_def split: option.split)
qed


section \<open>Enough calls\<close>

lemma end_dictionary_fwd:
  assumes "source_ok p" and "m_TrailerEnds p = None"
  shows "fwd p (snd (end_dictionary env m p))"
proof -
  obtain w b q where q: "GetNextWord p = ((w, b), q)" by (metis surj_pair)
  have 1: "same_source p q" "left q + length w \<le> left p" using GetNextWord_fwd [OF assms q] by simp_all
  have "left (q\<lparr>m_Pos := m_Pos p\<rparr>) \<le> left p" using 1(1) by (simp add: left_pos same_source_def)
  moreover have "same_source p (snd (ReadStream env m q))" "left (snd (ReadStream env m q)) \<le> left q + 1"
    using ReadStream_back [OF same_source_ok [OF 1(1)]] same_source_trailer [OF 1(1)] assms(2) same_source_trans [OF 1(1)]
    by auto
  moreover have "length (B ''stream'') = 6" by (simp add: B_def)
  ultimately show ?thesis using 1 q by (auto simp: end_dictionary_def fwd_def)
qed

lemma read_number_fwd:
  assumes "source_ok p" and "m_TrailerEnds p = None"
  shows "fwd p (snd (read_number env w p))"
proof -
  obtain w1 b1 q where q: "GetNextWord p = ((w1, b1), q)" by (metis surj_pair)
  obtain w2 b2 r where r: "GetNextWord q = ((w2, b2), r)" by (metis surj_pair)
  have 1: "same_source p q" "left q \<le> left p" using GetNextWord_fwd [OF assms q] by simp_all
  have 2: "same_source p r" "left r \<le> left p"
    using GetNextWord_fwd [OF same_source_ok [OF 1(1)] _ r] same_source_trailer [OF 1(1)] assms(2) same_source_trans [OF 1(1)] 1(2)
    by auto
  have "left (x\<lparr>m_Pos := m_Pos p\<rparr>) \<le> left p" if "same_source p x" for x using that by (simp add: left_pos same_source_def)
  then show ?thesis using 1 2 q r by (auto simp: read_number_def fwd_def Let_def)
qed

text \<open>What a reader of objects has to satisfy: it goes forward, and by at least one byte when it returns an object.\<close>

definition reads_forward :: "syntax_parser \<Rightarrow> ('f pdf_object option \<times> syntax_parser) option \<Rightarrow> bool" where
  "reads_forward p r \<longleftrightarrow> (case r of None \<Rightarrow> False
    | Some (obj, q) \<Rightarrow> fwd p q \<and> (obj \<noteq> None \<longrightarrow> left q < left p))"

lemma object_body_forward:
  assumes "source_ok p" and "m_TrailerEnds p = None"
    and "\<And>q. fwd p q \<Longrightarrow> left q < left p \<Longrightarrow> \<exists>obj r. items q = Some (obj, r) \<and> fwd q r"
    and "\<And>q. fwd p q \<Longrightarrow> left q < left p \<Longrightarrow> \<exists>obj r. entries q = Some (obj, r) \<and> fwd q r"
  shows "reads_forward p (object_body items entries env depth p)"
proof (cases "kParserMaxRecursionDepth < depth + 1")
  case True
  then show ?thesis using assms(1) by (simp add: object_body_def reads_forward_def fwd_refl)
next
  case False
  obtain w b q where q: "GetNextWord p = ((w, b), q)" by (metis surj_pair)
  have 1: "same_source p q" "left q + length w \<le> left p" using GetNextWord_fwd [OF assms(1,2) q] by simp_all
  have ok: "source_ok q" "m_TrailerEnds q = None"
    using same_source_ok [OF 1(1)] same_source_trailer [OF 1(1)] assms(2) by simp_all
  have f: "fwd p q" using 1 by (simp add: fwd_def)
  have rewind: "fwd p (q\<lparr>m_Pos := m_Pos p\<rparr>)" using 1(1) by (simp add: fwd_def) (simp add: left_pos same_source_def)
  have adv: "fwd p r \<and> left r < left p" if "fwd q r" "w \<noteq> []" for r
    using that 1 f fwd_trans [OF f that(1)] fwdD(2) [OF that(1)] by (cases w) auto
  have it: "w \<noteq> [] \<Longrightarrow> \<exists>obj r. items q = Some (obj, r) \<and> fwd q r" "w \<noteq> [] \<Longrightarrow> \<exists>obj r. entries q = Some (obj, r) \<and> fwd q r"
    using assms(3,4) [OF f] 1(2) by (cases w; simp)+
  note parts = adv [OF read_number_fwd [OF ok]] adv [OF ReadString_fwd [OF ok(1)]] adv [OF ReadHexString_fwd [OF ok(1)]]
    adv [OF fwd_refl [OF ok(1)]]
  show ?thesis
  proof (cases "w = []")
    case True
    then show ?thesis using False q f by (simp add: object_body_def reads_forward_def)
  next
    case w: False
    obtain oi ri oe re where "items q = Some (oi, ri)" "fwd q ri" "entries q = Some (oe, re)" "fwd q re" using it [OF w] by blast
    then show ?thesis using False q f rewind w parts [OF w] adv [of ri] adv [of re]
      by (auto simp: object_body_def reads_forward_def split_def Let_def)
  qed
qed


lemma array_item_forward:
  assumes "reads_forward p (object p)"
    and "\<And>obj q. fwd p q \<Longrightarrow> left q < left p \<Longrightarrow> \<exists>ob r. items (acc @ [obj]) q = Some (ob, r) \<and> fwd q r"
  shows "\<exists>ob r. array_item object items acc p = Some (ob, r) \<and> fwd p r"
proof -
  obtain ob q where q: "object p = Some (ob, q)" "fwd p q" "ob \<noteq> None \<Longrightarrow> left q < left p"
    using assms(1) by (auto simp: reads_forward_def split: option.splits)
  show ?thesis
  proof (cases ob)
    case None
    then show ?thesis using q by (simp add: array_item_def)
  next
    case (Some o')
    then obtain ob2 r where "items (acc @ [o']) q = Some (ob2, r)" "fwd q r" using assms(2) [of q] q by blast
    then show ?thesis using q Some fwd_trans by (auto simp: array_item_def)
  qed
qed

lemma dictionary_entry_forward:
  assumes "source_ok p" and "m_TrailerEnds p = None"
    and "\<And>q. fwd p q \<Longrightarrow> left q < left p \<Longrightarrow> reads_forward q (object q)"
    and "\<And>m q. fwd p q \<Longrightarrow> left q < left p \<Longrightarrow> \<exists>ob r. entries m q = Some (ob, r) \<and> fwd q r"
  shows "\<exists>ob r. dictionary_entry object entries env m p = Some (ob, r) \<and> fwd p r"
proof -
  obtain w b q where q: "GetNextWord p = ((w, b), q)" by (metis surj_pair)
  have 1: "same_source p q" "left q + length w \<le> left p" using GetNextWord_fwd [OF assms(1,2) q] by simp_all
  have f: "fwd p q" using 1 by (simp add: fwd_def)
  have ok: "source_ok x" "m_TrailerEnds x = None" if "fwd p x" for x using fwdD [OF that] assms(2) by simp_all
  have ends: "\<exists>ob r. Some (end_dictionary env m x) = Some (ob, r) \<and> fwd p r" if "fwd p x" for x
    using end_dictionary_fwd [OF ok [OF that], of env m] fwd_trans [OF that] by (cases "end_dictionary env m x") auto
  have rewind: "fwd p (q\<lparr>m_Pos := m_Pos q - length w\<rparr>)"
    using 1 by (auto simp: fwd_def) (auto simp: left_pos same_source_def)
  have loop: "\<exists>ob r. entries m' x = Some (ob, r) \<and> fwd p r" if "fwd p x" "left x < left p" for m' x
    using assms(4) [OF that] fwd_trans [OF that(1)] by blast
  show ?thesis
  proof (cases "w = []")
    case True
    then show ?thesis using q f by (simp add: dictionary_entry_def)
  next
    case False
    then have lt: "left q < left p" using 1(2) by (cases w) auto
    obtain ob r where r: "object q = Some (ob, r)" "fwd q r"
      using assms(3) [OF f lt] by (auto simp: reads_forward_def split: option.splits)
    have r2: "fwd p r" "left r < left p" using fwd_trans [OF f r(2)] fwdD(2) [OF r(2)] lt by auto
    show ?thesis using q r ends [OF f] ends [OF rewind] loop [OF f lt] loop [OF r2] False
      by (auto simp: dictionary_entry_def Let_def split: option.split)
  qed
qed

lemma enough_calls:
  fixes env :: "'f pdf_env"
  assumes "source_ok p" and "m_TrailerEnds p = None"
  shows "(2 * left p < fuel \<longrightarrow> reads_forward p (GetObjectBodyInternal fuel env depth p)) \<and>
    (2 * left p + 1 < fuel \<longrightarrow> (\<exists>ob r. array_items fuel env depth acc p = Some (ob, r) \<and> fwd p r)) \<and>
    (2 * left p + 1 < fuel \<longrightarrow> (\<exists>ob r. dictionary_items fuel env depth m p = Some (ob, r) \<and> fwd p r))"
  using assms
proof (induction fuel arbitrary: p depth acc m)
  case (Suc fuel)
  have ok: "source_ok q" "m_TrailerEnds q = None" if "fwd p q" for q using fwdD [OF that] Suc.prems(2) by simp_all
  note IH = Suc.IH [OF ok]
  show ?case
  proof (intro conjI impI)
    assume "2 * left p < Suc fuel"
    then show "reads_forward p (GetObjectBodyInternal (Suc fuel) env depth p)"
      unfolding GetObjectBodyInternal.simps using IH by (intro object_body_forward Suc.prems) force+
  next
    assume f: "2 * left p + 1 < Suc fuel"
    show "\<exists>ob r. array_items (Suc fuel) env depth acc p = Some (ob, r) \<and> fwd p r"
      unfolding array_items.simps
      using f IH fwd_refl [OF Suc.prems(1)] by (intro array_item_forward) force+
    show "\<exists>ob r. dictionary_items (Suc fuel) env depth m p = Some (ob, r) \<and> fwd p r"
      unfolding dictionary_items.simps
      using f IH by (intro dictionary_entry_forward Suc.prems) force+
  qed
qed simp

section \<open>More calls change nothing\<close>

lemma object_body_more:
  assumes "object_body items entries env depth p = Some r"
    and "\<And>q x. items q = Some x \<Longrightarrow> items' q = Some x" and "\<And>q x. entries q = Some x \<Longrightarrow> entries' q = Some x"
  shows "object_body items' entries' env depth p = Some r"
proof -
  obtain w b q where q: "GetNextWord p = ((w, b), q)" by (metis surj_pair)
  have "items q = None \<or> items' q = items q" by (cases "items q") (simp_all add: assms(2))
  moreover have "entries q = None \<or> entries' q = entries q" by (cases "entries q") (simp_all add: assms(3))
  ultimately have "object_body items entries env depth p = None \<or>
      object_body items' entries' env depth p = object_body items entries env depth p"
    unfolding object_body_def q Let_def by simp
  then show ?thesis using assms(1) by auto
qed

lemma array_item_more:
  assumes "array_item object items acc p = Some r"
    and "\<And>q x. object q = Some x \<Longrightarrow> object' q = Some x" and "\<And>a q x. items a q = Some x \<Longrightarrow> items' a q = Some x"
  shows "array_item object' items' acc p = Some r"
proof (cases "object p")
  case None
  then show ?thesis using assms(1) by (simp add: array_item_def)
next
  case (Some x)
  then show ?thesis using assms(1,3) assms(2) [OF Some] by (cases x; cases "fst x") (auto simp: array_item_def)
qed

lemma dictionary_entry_more:
  assumes "dictionary_entry object entries env m p = Some r"
    and "\<And>q x. object q = Some x \<Longrightarrow> object' q = Some x" and "\<And>m q x. entries m q = Some x \<Longrightarrow> entries' m q = Some x"
  shows "dictionary_entry object' entries' env m p = Some r"
proof -
  obtain w b q where q: "GetNextWord p = ((w, b), q)" by (metis surj_pair)
  show ?thesis
  proof (cases "object q")
    case None
    then show ?thesis using assms(1,3) q by (auto simp: dictionary_entry_def Let_def split: if_splits)
  next
    case (Some x)
    then show ?thesis using assms(1,3) assms(2) [OF Some] q
      by (cases x; cases "fst x") (auto simp: dictionary_entry_def Let_def split: if_splits)
  qed
qed

lemma more_calls:
  shows "GetObjectBodyInternal n env depth p = Some r \<Longrightarrow> GetObjectBodyInternal (n + k) env depth p = Some r"
    and "array_items n env depth acc p = Some r \<Longrightarrow> array_items (n + k) env depth acc p = Some r"
    and "dictionary_items n env depth m p = Some r \<Longrightarrow> dictionary_items (n + k) env depth m p = Some r"
proof (induction n arbitrary: depth p acc m r)
  case (Suc n)
  { case 1
    then show ?case unfolding add_Suc GetObjectBodyInternal.simps by (rule object_body_more) (rule Suc.IH, assumption)+
  next
    case 2
    then show ?case unfolding add_Suc array_items.simps by (rule array_item_more) (rule Suc.IH, assumption)+
  next
    case 3
    then show ?case unfolding add_Suc dictionary_items.simps by (rule dictionary_entry_more) (rule Suc.IH, assumption)+ }
qed simp_all

lemma GetObjectBody_any_bound:
  assumes "source_ok p" and "m_TrailerEnds p = None" and "GetObjectBodyInternal n env 0 p = Some r"
  shows "GetObjectBody env p = Some r"
proof -
  obtain x where x: "GetObjectBodyInternal (2 * left p + 1) env 0 p = Some x"
    using enough_calls [OF assms(1,2), of "2 * left p + 1" env 0 "[]" "[]"] by (auto simp: reads_forward_def split: option.splits)
  have "x = r" using more_calls(1) [OF x, of n] more_calls(1) [OF assms(3), of "2 * left p + 1"] by (simp add: add.commute)
  then show ?thesis using x by (simp add: GetObjectBody_def)
qed

section \<open>Well-formed objects\<close>

lemma bytes_less_irrefl [simp]: "\<not> bytes_less xs xs"
  by (induction xs) auto

lemma bytes_less_trans: "bytes_less xs ys \<Longrightarrow> bytes_less ys zs \<Longrightarrow> bytes_less xs zs"
proof (induction xs ys arbitrary: zs rule: bytes_less.induct)
  case (3 x xs y ys)
  then show ?case by (cases zs) auto
qed (auto elim: bytes_less.elims)

lemma bytes_less_linear: "bytes_less xs ys \<or> xs = ys \<or> bytes_less ys xs"
  by (induction xs ys rule: bytes_less.induct) auto

definition keys_ok :: "'f dict \<Rightarrow> bool" where
  "keys_ok m \<longleftrightarrow> sorted_wrt bytes_less (map fst m) \<and> [] \<notin> set (map fst m)"

lemma set_SetFor: "set (SetFor key obj m) \<subseteq> insert (key, obj) (set m)"
  by (induction m) (auto split: if_splits)

lemma keys_SetFor: "set (map fst (SetFor key obj m)) \<subseteq> insert key (set (map fst m))"
  using set_SetFor [of key obj m] by force

lemma sorted_SetFor: "sorted_wrt bytes_less (map fst m) \<Longrightarrow> sorted_wrt bytes_less (map fst (SetFor key obj m))"
proof (induction m)
  case (Cons x m)
  obtain k v where x: "x = (k, v)" by (cases x)
  consider "bytes_less key k" | "k = key" | "bytes_less k key" using bytes_less_linear [of key k] by blast
  then show ?case
  proof cases
    case 1
    then show ?thesis using Cons.prems x bytes_less_trans [OF 1] by auto
  next
    case 2
    then show ?thesis using Cons.prems x by simp
  next
    case 3
    then have n: "\<not> bytes_less key k" "k \<noteq> key" using bytes_less_trans [of k key k] by auto
    have "\<forall>y\<in>set (map fst (SetFor key obj m)). bytes_less k y"
      using keys_SetFor [of key obj m] Cons.prems 3 x by (fastforce simp: subset_iff)
    then show ?thesis using Cons n x by simp
  qed
qed simp

lemma keys_ok_SetFor: "keys_ok m \<Longrightarrow> key \<noteq> [] \<Longrightarrow> keys_ok (SetFor key obj m)"
  using keys_SetFor [of key obj m] by (auto simp: keys_ok_def sorted_SetFor)

fun number_ok :: "'f fx_number \<Rightarrow> bool" where
  "number_ok (Unsigned u) \<longleftrightarrow> u < 2 ^ 32"
| "number_ok (Signed i) \<longleftrightarrow> - (2 ^ 31) \<le> i \<and> i < 2 ^ 31"
| "number_ok (Real x) \<longleftrightarrow> True"

fun object_ok :: "'f pdf_object \<Rightarrow> bool" where
  "object_ok (PNumber n) \<longleftrightarrow> number_ok n"
| "object_ok (PArray os) \<longleftrightarrow> (\<forall>ob\<in>set os. object_ok ob)"
| "object_ok (PDictionary m) \<longleftrightarrow> keys_ok m \<and> (\<forall>(k, v)\<in>set m. object_ok v)"
| "object_ok (PStream m data) \<longleftrightarrow> keys_ok m \<and> (\<forall>(k, v)\<in>set m. object_ok v) \<and>
    map_of m (B ''Length'') = Some (PNumber (Signed (to_int32 (length data))))"
| "object_ok (PReference n) \<longleftrightarrow> n < kInvalidObjNum"
| "object_ok obj \<longleftrightarrow> True"

definition max_list :: "nat list \<Rightarrow> nat" where
  "max_list xs = foldr max xs 0"

lemma max_list_le: "max_list xs \<le> k \<longleftrightarrow> (\<forall>x\<in>set xs. x \<le> k)"
  by (induction xs) (auto simp: max_list_def)

text \<open>The number of arrays and dictionaries nested in each other.\<close>

fun nesting :: "'f pdf_object \<Rightarrow> nat" where
  "nesting (PArray os) = Suc (max_list (map nesting os))"
| "nesting (PDictionary m) = Suc (max_list (map (\<lambda>(k, v). nesting v) m))"
| "nesting (PStream m data) = Suc (max_list (map (\<lambda>(k, v). nesting v) m))"
| "nesting obj = 0"


lemma checked_digits_range: "pred_option (\<lambda>n. n < 2 ^ 32) v \<Longrightarrow> pred_option (\<lambda>n. n < 2 ^ 32) (checked_digits v s)"
proof (induction v s rule: checked_digits.induct)
  case (2 v c s)
  have "pred_option (\<lambda>n. n < 2 ^ 32) (Option.bind v (\<lambda>n. let m = n * 10 + (unat c - 48) in if m < 2 ^ 32 then Some m else None))"
    by (cases v) (simp_all only: Let_def option.pred_inject bind.simps split: if_split, simp)
  then show ?case using 2 by (simp only: checked_digits.simps split: if_split) blast
qed simp

lemma number_ok_FX_Number: "number_ok (FX_Number env s)"
proof -
  have "(case checked_digits (Some 0) t of None \<Rightarrow> 0 | Some v \<Rightarrow> v) < 2 ^ 32" for t
    using checked_digits_range [of "Some 0" t] by (cases "checked_digits (Some 0) t") simp_all
  then show ?thesis by (simp add: FX_Number_def Let_def)
qed

lemma StrToInt_loop_unsigned: "0 \<le> num \<Longrightarrow> num \<le> mx \<Longrightarrow> 0 \<le> mn \<Longrightarrow>
    0 \<le> StrToInt_loop False mn mx neg num s \<and> StrToInt_loop False mn mx neg num s \<le> mx"
proof (induction s arbitrary: num)
  case Nil
  then show ?case using pos_mod_bound [of "mx + 1" "- num"] pos_mod_sign [of "mx + 1" "- num"] by (simp add: finish_sign_def)
next
  case (Cons c s)
  then show ?case using pos_mod_bound [of "mx + 1" "- num"] pos_mod_sign [of "mx + 1" "- num"]
    by (auto simp: finish_sign_def Let_def overflow_test not_less)
qed

lemma atoui_range: "0 \<le> FXSYS_atoui s \<and> FXSYS_atoui s \<le> 2 ^ 32 - 1"
  unfolding FXSYS_atoui_def FXSYS_StrToInt_def Let_def by (rule StrToInt_loop_unsigned) simp_all

text \<open>An object that may be returned when the reader has been entered \<open>depth\<close> times.\<close>

definition fits :: "nat \<Rightarrow> 'f pdf_object \<Rightarrow> bool" where
  "fits depth ob \<longleftrightarrow> object_ok ob \<and> depth + nesting ob \<le> kParserMaxRecursionDepth"

lemma fits_scalars: "depth < kParserMaxRecursionDepth \<Longrightarrow> fits depth PNull" "depth < kParserMaxRecursionDepth \<Longrightarrow> fits depth (PBoolean b)"
  "depth < kParserMaxRecursionDepth \<Longrightarrow> fits depth (PNumber (FX_Number env s))"
  "depth < kParserMaxRecursionDepth \<Longrightarrow> fits depth (PString t h)" "depth < kParserMaxRecursionDepth \<Longrightarrow> fits depth (PName n)"
  "depth < kParserMaxRecursionDepth \<Longrightarrow> k < kInvalidObjNum \<Longrightarrow> fits depth (PReference k)"
  by (simp_all add: fits_def number_ok_FX_Number)

lemma fits_array: "depth < kParserMaxRecursionDepth \<Longrightarrow> (\<forall>ob\<in>set os. fits (Suc depth) ob) \<Longrightarrow> fits depth (PArray os)"
  using max_list_le [of "map nesting os" "kParserMaxRecursionDepth - Suc depth"]
  by (fastforce simp: fits_def le_diff_conv2 add.commute)

definition entries_fit :: "nat \<Rightarrow> 'f dict \<Rightarrow> bool" where
  "entries_fit depth m \<longleftrightarrow> keys_ok m \<and> (\<forall>(k, v)\<in>set m. fits depth v)"

lemma entries_fit_SetFor: "entries_fit depth m \<Longrightarrow> fits depth ob \<Longrightarrow> key \<noteq> [] \<Longrightarrow> entries_fit depth (SetFor key ob m)"
  using set_SetFor [of key ob m] by (auto simp: entries_fit_def keys_ok_SetFor)

lemma fits_dictionary: "depth < kParserMaxRecursionDepth \<Longrightarrow> entries_fit (Suc depth) m \<Longrightarrow> fits depth (PDictionary m)"
  using max_list_le [of "map (\<lambda>(k, v). nesting v) m" "kParserMaxRecursionDepth - Suc depth"]
  by (fastforce simp: fits_def entries_fit_def le_diff_conv2 add.commute)

lemma to_int32_range: "- (2 ^ 31) \<le> to_int32 n \<and> to_int32 n < 2 ^ 31"
proof -
  have "n mod 2 ^ 32 < 2 ^ 32" by simp
  then have "int (n mod 2 ^ 32) < int (2 ^ 32)" by (simp only: of_nat_less_iff)
  then show ?thesis by (auto simp: to_int32_def Let_def)
qed

lemma SetFor_lookup: "sorted_wrt bytes_less (map fst m) \<Longrightarrow> map_of (SetFor key ob m) key = Some ob"
  by (induction m) auto

lemma fits_stream:
  assumes "depth < kParserMaxRecursionDepth" and "entries_fit (Suc depth) m"
  shows "fits depth (PStream (SetFor (B ''Length'') (PNumber (Signed (to_int32 (length d)))) m) d)"
proof -
  let ?m = "SetFor (B ''Length'') (PNumber (Signed (to_int32 (length d)))) m"
  have "fits (Suc depth) (PNumber (Signed (to_int32 (length d))))"
    using assms(1) to_int32_range by (simp add: fits_def)
  then have "entries_fit (Suc depth) ?m" using assms(2) by (intro entries_fit_SetFor) (simp_all add: B_def)
  then have "fits depth (PDictionary ?m)" by (rule fits_dictionary [OF assms(1)])
  moreover have "map_of ?m (B ''Length'') = Some (PNumber (Signed (to_int32 (length d))))"
    using assms(2) by (intro SetFor_lookup) (simp add: entries_fit_def keys_ok_def)
  ultimately show ?thesis by (simp add: fits_def)
qed


definition yields :: "nat \<Rightarrow> ('f pdf_object option \<times> syntax_parser) option \<Rightarrow> bool" where
  "yields depth r \<longleftrightarrow> (\<forall>ob q. r = Some (Some ob, q) \<longrightarrow> fits depth ob)"

lemma yields_simps [simp]: "yields depth None" "yields depth (Some (None, q))" "yields depth (Some (Some ob, q)) \<longleftrightarrow> fits depth ob"
  by (auto simp: yields_def)

lemma yields_if: "yields depth a \<Longrightarrow> yields depth b \<Longrightarrow> yields depth (if c then a else b)"
  by simp

lemma read_number_yields: "depth < kParserMaxRecursionDepth \<Longrightarrow> yields depth (Some (read_number env w p))"
  using atoui_range [of "map unat w"]
  by (auto simp: read_number_def yields_def fits_scalars Let_def kInvalidObjNum_def nat_less_iff split: prod.splits if_splits
      intro!: fits_scalars)

lemma end_dictionary_yields:
  "depth < kParserMaxRecursionDepth \<Longrightarrow> entries_fit (Suc depth) m \<Longrightarrow> yields depth (Some (end_dictionary env m p))"
  by (auto simp: end_dictionary_def ReadStream_def Let_def fits_dictionary fits_stream split: prod.splits option.splits)

lemma object_body_yields:
  assumes "\<And>q. depth < kParserMaxRecursionDepth \<Longrightarrow> yields depth (items q)"
    and "\<And>q. depth < kParserMaxRecursionDepth \<Longrightarrow> yields depth (entries q)"
  shows "yields depth (object_body items entries env depth p)"
proof (cases "kParserMaxRecursionDepth < depth + 1")
  case True
  then show ?thesis by (simp add: object_body_def)
next
  case False
  then have d: "depth < kParserMaxRecursionDepth" by simp
  obtain w b q where q: "GetNextWord p = ((w, b), q)" by (metis surj_pair)
  show ?thesis
    unfolding object_body_def q Let_def split_def
    by (intro yields_if assms d read_number_yields; simp add: fits_scalars d)
qed

lemma array_item_yields:
  assumes "yields (Suc depth) (object p)" and "\<And>ob q. fits (Suc depth) ob \<Longrightarrow> yields depth (items (acc @ [ob]) q)"
    and "depth < kParserMaxRecursionDepth" and "\<forall>ob\<in>set acc. fits (Suc depth) ob"
  shows "yields depth (array_item object items acc p)"
  using assms fits_array [OF assms(3,4)] by (auto simp: array_item_def split: option.split)

lemma dictionary_entry_yields:
  assumes "\<And>q. yields (Suc depth) (object q)" and "\<And>m q. entries_fit (Suc depth) m \<Longrightarrow> yields depth (entries m q)"
    and "depth < kParserMaxRecursionDepth" and "entries_fit (Suc depth) m"
  shows "yields depth (dictionary_entry object entries env m p)"
proof -
  obtain w b q where q: "GetNextWord p = ((w, b), q)" by (metis surj_pair)
  have "yields depth (case object q of None \<Rightarrow> None | Some (None, q) \<Rightarrow> entries m q
      | Some (Some obj, q) \<Rightarrow> entries (if 1 < length key then SetFor (tl key) obj m else m) q)" for key
    using assms(1) [of q] assms(2) entries_fit_SetFor [OF assms(4), of _ "tl key"] assms(4)
    by (cases key; cases "object q"; cases "fst (the (object q))") (auto split: prod.split)
  then show ?thesis using assms(2) [OF assms(4)] end_dictionary_yields [OF assms(3,4)]
    by (simp add: dictionary_entry_def q Let_def)
qed

lemma readers_yield:
  shows "yields depth (GetObjectBodyInternal n env depth p)"
    and "depth < kParserMaxRecursionDepth \<Longrightarrow> \<forall>ob\<in>set acc. fits (Suc depth) ob \<Longrightarrow> yields depth (array_items n env (Suc depth) acc p)"
    and "depth < kParserMaxRecursionDepth \<Longrightarrow> entries_fit (Suc depth) m \<Longrightarrow> yields depth (dictionary_items n env (Suc depth) m p)"
proof (induction n arbitrary: depth p acc m)
  case (Suc n)
  { case 1
    show ?case unfolding GetObjectBodyInternal.simps
      by (rule object_body_yields) (simp_all add: Suc.IH entries_fit_def keys_ok_def)
  next
    case 2
    then show ?case unfolding array_items.simps
      by (intro array_item_yields) (simp_all add: Suc.IH)
  next
    case 3
    then show ?case unfolding dictionary_items.simps
      by (intro dictionary_entry_yields) (simp_all add: Suc.IH) }
qed simp_all

section \<open>Properties\<close>

text \<open>
  C7: reading an object ends for every file and every position.  The bound of twice the unread bytes is
  enough, a larger bound gives the same result, the reader never goes back in the file, and it has gone
  forward when it returns an object.
\<close>

theorem object_reader_returns:
  assumes "source_ok p" and "m_TrailerEnds p = None"
  shows "\<exists>ob q. GetObjectBody env p = Some (ob, q) \<and>
    (\<forall>n\<ge>2 * left p + 1. GetObjectBodyInternal n env 0 p = Some (ob, q)) \<and>
    source_ok q \<and> m_pFileAccess q = m_pFileAccess p \<and> left q \<le> left p \<and> (ob \<noteq> None \<longrightarrow> left q < left p)"
proof -
  obtain ob q where q: "GetObjectBodyInternal (2 * left p + 1) env 0 p = Some (ob, q)" "fwd p q" "ob \<noteq> None \<longrightarrow> left q < left p"
    using enough_calls [OF assms, of "2 * left p + 1" env 0 "[]" "[]"] by (auto simp: reads_forward_def split: option.splits)
  have "GetObjectBodyInternal n env 0 p = Some (ob, q)" if "2 * left p + 1 \<le> n" for n
    using more_calls(1) [OF q(1), of "n - (2 * left p + 1)"] that by simp
  then show ?thesis using q by (auto simp: GetObjectBody_def fwd_def same_source_def)
qed

definition sample_pdf_env :: "int pdf_env" where
  "sample_pdf_env = \<lparr>string_to_float = (\<lambda>s. 0), format_float = (\<lambda>x. [48, 46]), float_to_int = (\<lambda>x. x),
    indirect_object = (\<lambda>n. None), flate = (\<lambda>d. d), filtered_data = (\<lambda>m d. d)\<rparr>"

theorem object_reader_returns_witness:
  "\<exists>ob q. GetObjectBody sample_pdf_env (new_syntax_parser (B ''[ 1 <</A (x'') 0) = Some (ob, q) \<and> left q \<le> 11"
  using object_reader_returns [OF source_ok_new, of "B ''[ 1 <</A (x''" 0 sample_pdf_env]
  by (auto simp: new_syntax_parser_def unread_part_def B_def)

end
