(* ===== verification/Pdf_Roundtrip.thy ===== *)
theory Pdf_Roundtrip
  imports Pdf_Reader_Safe
begin

text \<open>
  What the object writers write is read back by the object reader: numbers, words, strings, names,
  references, and by induction arrays and dictionaries.
\<close>

section \<open>Numbers\<close>

lemma digit_count_limit: "order < 10 ^ k \<Longrightarrow> digit_count 10 order d \<le> d + k"
proof (induction k arbitrary: order d)
  case 0
  then show ?case by (simp add: digit_count.simps)
next
  case (Suc k)
  then have "order div 10 < 10 ^ k" by (simp add: div_less_iff_less_mult mult.commute)
  from Suc.IH [OF this, of "d + 1"] show ?case by (subst digit_count.simps) simp
qed

lemma length_fill_digits [simp]: "length (fill_digits radix d u) = d"
  by (induction d arbitrary: u) simp_all

lemma IntToStr_digits:
  "\<exists>ds. FXSYS_IntToStr v 10 = (if v < 0 then 45 # ds else ds) \<and> list_all FXSYS_IsDecimalDigit ds \<and> digits_value 0 ds = \<bar>v\<bar> \<and>
    ds \<noteq> [] \<and> (\<bar>v\<bar> < 10 ^ 10 \<longrightarrow> length ds \<le> 10)"
proof (cases "v = 0")
  case True
  then show ?thesis by (auto simp: FXSYS_IntToStr_def FXSYS_IsDecimalDigit_def intro!: exI [of _ "[48]"])
next
  case False
  define u where "u = (if v < 0 then nat (- (v + 1)) + 1 else nat v)"
  define ds where "ds = fill_digits 10 (digit_count 10 (u div 10) 1) u"
  have u: "int u = \<bar>v\<bar>" by (auto simp: u_def)
  have "0 < digit_count 10 (u div 10) 1" using digit_count_bound [of 10 1 "u div 10"] by simp
  then have ds: "list_all FXSYS_IsDecimalDigit ds" "digits_value 0 ds = \<bar>v\<bar>" "ds \<noteq> []"
    using fill_digits_value [OF digit_count_covers, of u] fill_digits_hd [OF _ digit_count_covers, of u] u
    by (simp_all add: ds_def)
  have "length ds \<le> 10" if "\<bar>v\<bar> < 10 ^ 10"
  proof -
    have "u < 10000000000" using that u by simp
    then have "u div 10 < 10 ^ 9" by (simp add: div_less_iff_less_mult)
    from digit_count_limit [OF this, of 1] show ?thesis by (simp add: ds_def)
  qed
  moreover have "FXSYS_IntToStr v 10 = (if v < 0 then 45 # ds else ds)"
    using False by (simp add: FXSYS_IntToStr_def ds_def u_def Let_def)
  ultimately show ?thesis using ds by blast
qed

lemma digit_byte: "FXSYS_IsDecimalDigit c \<Longrightarrow> unat (of_nat c :: byte) = c"
  by (simp add: FXSYS_IsDecimalDigit_def unat_of_nat)

lemma map_digit_byte: "list_all FXSYS_IsDecimalDigit ds \<Longrightarrow> map unat (map of_nat ds :: bytes) = ds"
  by (induction ds) (simp_all add: digit_byte)

lemma checked_digits_value:
  "list_all FXSYS_IsDecimalDigit ds \<Longrightarrow> digits_value (int n) ds < 2 ^ 32 \<Longrightarrow>
   checked_digits (Some n) (map of_nat ds) = Some (nat (digits_value (int n) ds))"
proof (induction ds arbitrary: n)
  case (Cons c ds)
  have c: "FXSYS_IsDecimalDigit c" "48 \<le> c" using Cons.prems(1) by (auto simp: FXSYS_IsDecimalDigit_def)
  have i: "int n * 10 + (int c - 48) = int (n * 10 + (c - 48))" using c(2) by simp
  have "int (n * 10 + (c - 48)) \<le> digits_value (int (n * 10 + (c - 48))) ds"
    using Cons.prems(1) by (intro digits_value_mono) auto
  then have "int (n * 10 + (c - 48)) < int (2 ^ 32)" using Cons.prems(2) i by simp
  then have lt: "n * 10 + (c - 48) < 2 ^ 32" by (simp only: of_nat_less_iff)
  show ?case using Cons.IH [of "n * 10 + (c - 48)"] Cons.prems lt c digit_byte [OF c(1)]
    by (simp only: list.map checked_digits.simps if_True Let_def bind.simps i digits_value_Cons list.pred_inject)
qed simp

lemma FX_Number_integer:
  assumes "- (2 ^ 31) \<le> v" and "v < 2 ^ 32"
  shows "FX_Number env (FormatInteger v) = (if v < 0 then Signed v else Unsigned (nat v))"
proof -
  obtain ds where ds: "FXSYS_IntToStr v 10 = (if v < 0 then 45 # ds else ds)" "list_all FXSYS_IsDecimalDigit ds"
      "digits_value 0 ds = \<bar>v\<bar>" "ds \<noteq> []"
    using IntToStr_digits [of v] by blast
  have "checked_digits (Some 0) (map of_nat ds) = Some (nat \<bar>v\<bar>)"
    using checked_digits_value [OF ds(2), of 0] ds(3) assms by simp
  moreover have "46 \<notin> set (map of_nat ds :: bytes)" "hd (map of_nat ds :: bytes) \<noteq> 45" "hd (map of_nat ds :: bytes) \<noteq> 43"
    using ds(2,4) digit_byte by (fastforce simp: FXSYS_IsDecimalDigit_def list_all_iff neq_Nil_conv)+
  ultimately show ?thesis using ds assms by (auto simp: FX_Number_def FormatInteger_def Let_def)
qed

lemma atoui_integer:
  assumes "0 \<le> v" and "v < 2 ^ 32"
  shows "FXSYS_atoui (map unat (FormatInteger v)) = v"
proof -
  obtain ds where ds: "FXSYS_IntToStr v 10 = ds" "list_all FXSYS_IsDecimalDigit ds" "digits_value 0 ds = v" "ds \<noteq> []"
    using IntToStr_digits [of v] assms by auto
  have "hd ds \<noteq> 45" "hd ds \<noteq> 43" using ds by (auto simp: FXSYS_IsDecimalDigit_def neq_Nil_conv)
  then show ?thesis
    using StrToInt_loop_saturates [OF ds(2), of "[]" 0 "2 ^ 32 - 1" False 0 False] ds assms
    by (simp add: FormatInteger_def map_digit_byte FXSYS_atoui_def FXSYS_StrToInt_def saturated_def finish_sign_def Let_def del: map_map)
qed

lemma numeric_digit: "FXSYS_IsDecimalDigit c \<Longrightarrow> PDFCharIsNumeric (of_nat c)"
proof -
  assume "FXSYS_IsDecimalDigit c"
  then have "c \<in> set [48..<58]" unfolding set_upt by (simp add: FXSYS_IsDecimalDigit_def)
  moreover have "list_all (\<lambda>c. PDFCharIsNumeric (of_nat c)) [48..<58]" by code_simp
  ultimately show ?thesis unfolding list_all_iff by blast
qed

definition numeric_word :: "bytes \<Rightarrow> bool" where
  "numeric_word w \<longleftrightarrow> w \<noteq> [] \<and> length w \<le> 256 \<and> list_all PDFCharIsNumeric w"

lemma numeric_word_integer: "- (2 ^ 32) \<le> v \<Longrightarrow> v < 2 ^ 32 \<Longrightarrow> numeric_word (FormatInteger v)"
proof -
  assume v: "- (2 ^ 32) \<le> v" "v < 2 ^ 32"
  have "PDFCharIsNumeric 45" by code_simp
  moreover obtain ds where "FXSYS_IntToStr v 10 = (if v < 0 then 45 # ds else ds)" "list_all FXSYS_IsDecimalDigit ds"
      "ds \<noteq> []" "length ds \<le> 10"
    using IntToStr_digits [of v] v by auto
  ultimately show ?thesis
    by (auto simp: numeric_word_def FormatInteger_def list_all_iff numeric_digit)
qed


section \<open>Words\<close>

definition ends_word :: "bytes \<Rightarrow> bool" where
  "ends_word s \<longleftrightarrow> s = [] \<or> \<not> regular (hd s)"

abbreviation first_word :: "bytes \<Rightarrow> bytes" where
  "first_word s \<equiv> fst (fst (next_word s))"

text \<open>
  What may follow a written object: the object's last word ends there, the rest does not turn a number into a
  reference and does not turn a dictionary into a stream.
\<close>

definition follows :: "bytes \<Rightarrow> bool" where
  "follows s \<longleftrightarrow> ends_word s \<and> first_word s \<noteq> B ''R'' \<and> first_word s \<noteq> B ''stream'' \<and>
    (snd (fst (next_word s)) \<longrightarrow> first_word (snd (next_word s)) \<noteq> B ''R'')"

lemma byte_classes:
  "PDFCharIsWhitespace 32" "PDFCharIsWhitespace 13" "PDFCharIsWhitespace 10"
  "PDFCharIsDelimiter 40" "PDFCharIsDelimiter 47" "PDFCharIsDelimiter 60" "PDFCharIsDelimiter 62" "PDFCharIsDelimiter 91"
  "PDFCharIsDelimiter 93" "PDFCharIsDelimiter 37" "\<not> PDFCharIsNumeric 82" "\<not> PDFCharIsNumeric 115"
  by code_simp+

lemma delimiter_not_white: "PDFCharIsDelimiter c \<Longrightarrow> \<not> PDFCharIsWhitespace c"
  by (simp add: PDFCharIsDelimiter_def PDFCharIsWhitespace_def)

lemma next_word_white: "PDFCharIsWhitespace c \<Longrightarrow> next_word (c # s) = next_word s"
  by (simp add: next_word_def)

lemma next_word_delimiter: "PDFCharIsDelimiter c \<Longrightarrow> c \<noteq> 37 \<Longrightarrow> next_word (c # s) = word_at (c # s)"
  by (simp add: next_word_def delimiter_not_white)

lemma takeWhile_word:
  assumes "list_all P w" and "s = [] \<or> \<not> P (hd s)"
  shows "takeWhile P (w @ s) = w" "dropWhile P (w @ s) = s"
  using assms by (induction w) (auto, (cases s, auto)+)

lemma next_word_regular:
  assumes "list_all regular w" and "w \<noteq> []" and "length w \<le> 256" and "ends_word s"
  shows "next_word (w @ s) = ((w, list_all PDFCharIsNumeric w), s)"
proof -
  obtain c v where w: "w = c # v" using assms(2) by (cases w) auto
  then have c: "\<not> PDFCharIsDelimiter c" "\<not> PDFCharIsWhitespace c" "list_all regular v" using assms(1) by (auto simp: regular_def)
  have "c \<noteq> 37" using c(1) byte_classes by auto
  then show ?thesis using c w assms(3) takeWhile_word [OF c(3), of s] assms(4)
    by (simp add: next_word_def ends_word_def)
qed

lemma next_word_name:
  assumes "list_all regular e" and "length e \<le> 255" and "ends_word s"
  shows "next_word (47 # e @ s) = ((47 # e, False), s)"
  using assms takeWhile_word [OF assms(1), of s] by (simp add: next_word_delimiter byte_classes ends_word_def)

lemma numeric_regular: "PDFCharIsNumeric c \<Longrightarrow> regular c"
  by (simp add: regular_name_char name_char_def)

lemma next_word_number: "numeric_word w \<Longrightarrow> ends_word s \<Longrightarrow> next_word (w @ s) = ((w, True), s)"
  using next_word_regular [of w s] by (auto simp: numeric_word_def list_all_iff numeric_regular)

lemma ends_word_white: "PDFCharIsWhitespace c \<Longrightarrow> ends_word (c # s)"
  by (simp add: ends_word_def regular_def)

lemma ends_word_delimiter: "PDFCharIsDelimiter c \<Longrightarrow> ends_word (c # s)"
  by (simp add: ends_word_def regular_def)

lemma follows_delimiter: "PDFCharIsDelimiter c \<Longrightarrow> c \<noteq> 37 \<Longrightarrow> follows (c # s)"
proof -
  assume c: "PDFCharIsDelimiter c" "c \<noteq> 37"
  have "regular 82" "regular 115" by code_simp+
  then have "c \<noteq> 82" "c \<noteq> 115" using c by (auto simp: regular_def)
  then show ?thesis using c by (auto simp: follows_def next_word_delimiter ends_word_delimiter B_def)
qed

lemma follows_word:
  assumes "list_all regular w" and "w \<noteq> []" and "length w \<le> 256" and "ends_word s" and "w \<noteq> B ''R''" and "w \<noteq> B ''stream''"
    and "list_all PDFCharIsNumeric w \<longrightarrow> first_word s \<noteq> B ''R''"
  shows "follows (32 # w @ s)"
  using assms by (simp add: follows_def ends_word_white byte_classes next_word_white next_word_regular)

lemma follows_number:
  assumes "numeric_word w" and "follows s \<or> ends_word s \<and> first_word s \<noteq> B ''R''"
  shows "follows (32 # w @ s)"
proof -
  have "w \<noteq> B ''R''" "w \<noteq> B ''stream''" using assms(1) byte_classes by (auto simp: numeric_word_def B_def)
  then show ?thesis using assms by (intro follows_word) (auto simp: numeric_word_def list_all_iff numeric_regular follows_def)
qed

lemma at_set_pos: "at p s q \<Longrightarrow> same_source p r \<Longrightarrow> at p s (r\<lparr>m_Pos := m_Pos q\<rparr>)"
  by (auto simp: at_def same_source_def unread_part_def source_ok_def)

text \<open>Reading a word and going back.\<close>

lemma word_and_back:
  assumes "at p s q" and "m_TrailerEnds p = None"
  shows "\<exists>r. GetNextWord q = (fst (next_word s), r) \<and> at p (snd (next_word s)) r \<and> at p s (r\<lparr>m_Pos := m_Pos q\<rparr>)"
  using GetNextWord_next_word [OF assms] at_set_pos [OF assms(1)] by (auto simp: at_def [of _ "snd _"])

section \<open>Reading single words\<close>

lemma read_number_plain:
  assumes "at p s q" and "m_TrailerEnds p = None" and "follows s"
  shows "\<exists>r. read_number env w q = (Some (PNumber (FX_Number env w)), r) \<and> at p s r"
proof -
  obtain r1 where r1: "GetNextWord q = (fst (next_word s), r1)" "at p (snd (next_word s)) r1" "at p s (r1\<lparr>m_Pos := m_Pos q\<rparr>)"
    using word_and_back [OF assms(1,2)] by blast
  obtain r2 where r2: "GetNextWord r1 = (fst (next_word (snd (next_word s))), r2)" "at p (snd (next_word (snd (next_word s)))) r2"
    using GetNextWord_next_word [OF r1(2) assms(2)] by blast
  have "at p s (r2\<lparr>m_Pos := m_Pos q\<rparr>)" using at_set_pos [OF assms(1)] r2(2) by (simp add: at_def [of _ "snd _"])
  then show ?thesis using r1 r2 assms(3)
    by (cases "fst (next_word s)"; cases "fst (next_word (snd (next_word s)))") (auto simp: read_number_def follows_def Let_def)
qed

lemma read_number_reference:
  assumes "at p (32 # 48 # 32 # 82 # 32 # s) q" and "m_TrailerEnds p = None" and "n < 2 ^ 31"
  shows "\<exists>r. read_number env (WriteDWord n) q = (Some (PReference n), r) \<and> at p (32 # s) r"
proof -
  have z: "numeric_word [48]" "list_all regular [82]" by code_simp+
  have w1: "next_word (32 # 48 # 32 # 82 # 32 # s) = (([48], True), 32 # 82 # 32 # s)"
    using next_word_number [OF z(1), of "32 # 82 # 32 # s"] by (simp add: next_word_white byte_classes ends_word_white)
  have w2: "fst (fst (next_word (32 # 82 # 32 # s))) = B ''R''" "snd (next_word (32 # 82 # 32 # s)) = 32 # s"
    using next_word_regular [OF z(2), of "32 # s"] by (simp_all add: next_word_white byte_classes ends_word_white B_def)
  have num: "to_int32 n = int n" using assms(3) by (simp add: to_int32_def)
  then have "FXSYS_atoui (map unat (WriteDWord n)) = int n"
    using atoui_integer [of "int n"] assms(3) by (simp add: WriteDWord_def)
  moreover have "n \<noteq> kInvalidObjNum" using assms(3) by (simp add: kInvalidObjNum_def)
  moreover obtain r1 where r1: "GetNextWord q = (([48], True), r1)" "at p (32 # 82 # 32 # s) r1"
    using GetNextWord_next_word [OF assms(1,2)] w1 by auto
  moreover obtain r2 where "GetNextWord r1 = ((B ''R'', snd (fst (next_word (32 # 82 # 32 # s)))), r2)" "at p (32 # s) r2"
    using GetNextWord_next_word [OF r1(2) assms(2)] w2 by (metis prod.collapse)
  ultimately show ?thesis by (simp add: read_number_def Let_def)
qed

lemma end_dictionary_plain:
  assumes "at p s q" and "m_TrailerEnds p = None" and "first_word s \<noteq> B ''stream''"
  shows "\<exists>r. end_dictionary env m q = (Some (PDictionary m), r) \<and> at p s r"
proof -
  obtain r where r: "GetNextWord q = (fst (next_word s), r)" "at p s (r\<lparr>m_Pos := m_Pos q\<rparr>)"
    using word_and_back [OF assms(1,2)] by blast
  then show ?thesis using assms(3) by (cases "fst (next_word s)") (auto simp: end_dictionary_def)
qed


section \<open>Objects that can be written and read back\<close>

fun writable :: "'f pdf_env \<Rightarrow> 'f pdf_object \<Rightarrow> bool" where
  "writable env (PNumber n) \<longleftrightarrow> number_ok n \<and> numeric_word (number_string env n)"
| "writable env (PName n) \<longleftrightarrow> encoded_length n \<le> 255"
| "writable env (PArray os) \<longleftrightarrow> (\<forall>ob\<in>set os. writable env ob)"
| "writable env (PDictionary m) \<longleftrightarrow> keys_ok m \<and> (\<forall>(k, v)\<in>set m. encoded_length k \<le> 255 \<and> writable env v)"
| "writable env (PStream m data) \<longleftrightarrow> False"
| "writable env (PReference n) \<longleftrightarrow> n < 2 ^ 31"
| "writable env ob \<longleftrightarrow> True"

text \<open>The object that is read back: integers are signed when they are negative and unsigned otherwise.\<close>

fun reread :: "'f pdf_env \<Rightarrow> 'f pdf_object \<Rightarrow> 'f pdf_object" where
  "reread env (PNumber n) = PNumber (FX_Number env (number_string env n))"
| "reread env (PArray os) = PArray (map (reread env) os)"
| "reread env (PDictionary m) = PDictionary (map (\<lambda>(k, v). (k, reread env v)) m)"
| "reread env ob = ob"

text \<open>The number of nested calls the reader makes; the end of an array is found by a call.\<close>

fun calls :: "'f pdf_object \<Rightarrow> nat" where
  "calls (PArray os) = Suc (max_list (1 # map calls os))"
| "calls (PDictionary m) = Suc (max_list (map (\<lambda>(k, v). calls v) m))"
| "calls (PStream m data) = Suc (max_list (map (\<lambda>(k, v). calls v) m))"
| "calls ob = 1"

lemma calls_pos: "0 < calls ob"
  by (cases ob) simp_all

abbreviation encoded :: "bytes \<Rightarrow> bytes" where
  "encoded n \<equiv> concat (map name_encode_char n)"

lemma regular_encoded: "list_all regular (encoded n)"
  using name_encode_name_chars by (simp add: list_all_iff regular_name_char)

text \<open>The first bytes of a written object are such that another object may be written before it.\<close>

lemma follows_written:
  assumes "WriteTo env None ob = Some s" and "writable env ob" and "follows rest"
  shows "follows (s @ rest)"
proof (cases ob)
  case PNull
  moreover have "list_all regular (B ''null'')" "\<not> list_all PDFCharIsNumeric (B ''null'')" "B ''null'' \<noteq> B ''R''"
    "B ''null'' \<noteq> B ''stream''" "B '' null'' = 32 # B ''null''" by code_simp+
  ultimately show ?thesis using assms follows_word [of "B ''null''" rest] by (auto simp: follows_def [of rest] B_def)
next
  case (PBoolean b)
  moreover have "list_all regular (B ''true'')" "\<not> list_all PDFCharIsNumeric (B ''true'')" "list_all regular (B ''false'')"
    "\<not> list_all PDFCharIsNumeric (B ''false'')" "B '' '' = [32]" by code_simp+
  ultimately show ?thesis using assms follows_word [of "B ''true''" rest] follows_word [of "B ''false''" rest]
    by (auto simp: follows_def [of rest] B_def split: if_splits)
next
  case (PNumber n)
  then show ?thesis using assms follows_number [of "number_string env n" rest] by (auto simp: B_def)
next
  case (PReference n)
  have z: "numeric_word [48]" by code_simp
  have "follows (32 # WriteDWord n @ 32 # 48 # 32 # 82 # 32 # rest)"
    using assms(2) PReference next_word_number [OF z, of "32 # 82 # 32 # rest"]
    by (intro follows_number)
      (auto simp: WriteDWord_def to_int32_def numeric_word_integer ends_word_white byte_classes next_word_white B_def)
  then show ?thesis using assms(1) PReference by (auto simp: B_def)
next
  case (PString t h)
  then show ?thesis using assms follows_delimiter byte_classes
    by (auto simp: PDF_HexEncodeString_def PDF_EncodeString_def split: if_splits)
qed (use assms follows_delimiter byte_classes in \<open>auto simp: B_def\<close>)


text \<open>The lexer is at \<open>s\<close>, up to white space before the next word.\<close>

definition heads_to :: "syntax_parser \<Rightarrow> bytes \<Rightarrow> syntax_parser \<Rightarrow> bool" where
  "heads_to p s q \<longleftrightarrow> (\<exists>t. at p t q \<and> skip_space t = skip_space s)"

lemma heads_to_at: "at p s q \<Longrightarrow> heads_to p s q"
  by (auto simp: heads_to_def)

lemma heads_to_white: "at p (c # s) q \<Longrightarrow> PDFCharIsWhitespace c \<Longrightarrow> heads_to p s q"
  by (auto simp: heads_to_def)

lemma heads_to_word:
  assumes "heads_to p s q" and "m_TrailerEnds p = None"
  shows "\<exists>r. GetNextWord q = (fst (next_word s), r) \<and> at p (snd (next_word s)) r"
  using assms GetNextWord_next_word [OF _ assms(2)] by (fastforce simp: heads_to_def next_word_def)

text \<open>The reader, called often enough, returns an object and stops at the rest.\<close>

definition reads_back :: "'f pdf_env \<Rightarrow> nat \<Rightarrow> 'f pdf_object \<Rightarrow> bytes \<Rightarrow> bool" where
  "reads_back env depth ob s \<longleftrightarrow> (\<forall>p q rest. heads_to p (s @ rest) q \<longrightarrow> m_TrailerEnds p = None \<longrightarrow> follows rest \<longrightarrow>
    (\<exists>n r. GetObjectBodyInternal n env depth q = Some (Some (reread env ob), r) \<and> heads_to p rest r))"

lemma read_scalar:
  assumes "heads_to p s q" and "m_TrailerEnds p = None" and "next_word s = ((w, b), t)"
    and "\<And>r. at p t r \<Longrightarrow> GetNextWord q = ((w, b), r) \<Longrightarrow>
      \<exists>r'. object_body (\<lambda>q. None) (\<lambda>q. None) env depth q = Some (Some ob, r') \<and> heads_to p t' r'"
  shows "\<exists>n r. GetObjectBodyInternal n env depth q = Some (Some ob, r) \<and> heads_to p t' r"
proof -
  obtain r where r: "GetNextWord q = ((w, b), r)" "at p t r" using heads_to_word [OF assms(1,2)] assms(3) by auto
  then obtain r' where r': "object_body (\<lambda>q. None) (\<lambda>q. None) env depth q = Some (Some ob, r')" "heads_to p t' r'"
    using assms(4) by blast
  have "GetObjectBodyInternal (Suc 0) env depth q = Some (Some ob, r')"
    using object_body_more [OF r'(1), of "array_items 0 env (depth + 1) []" "dictionary_items 0 env (depth + 1) []"] by simp
  then show ?thesis using r'(2) by blast
qed

lemma hex_digit_not_angle: "n < 16 \<Longrightarrow> kHex ! n \<noteq> 60"
  using name_char_kHex [of n] byte_classes by (auto simp: regular_name_char [symmetric] regular_def)

lemma next_word_hex: "next_word (PDF_HexEncodeString str @ rest) = (([60], False), tl (PDF_HexEncodeString str) @ rest)"
proof -
  have "hd (concat (map FXSYS_IntToTwoHexChars str) @ 62 # rest) \<noteq> 60"
    using hex_digit_not_angle unat_nibbles(1) by (cases str) (auto simp: FXSYS_IntToTwoHexChars_def)
  then show ?thesis by (simp add: PDF_HexEncodeString_def next_word_delimiter byte_classes)
qed

lemma next_word_literal: "next_word (PDF_EncodeString str @ rest) = (([40], False), tl (PDF_EncodeString str) @ rest)"
  by (simp add: PDF_EncodeString_def next_word_delimiter byte_classes)

lemma ReadString_back:
  assumes "at p (tl (PDF_EncodeString str) @ rest) r"
  shows "\<exists>r'. ReadString r = (str, r') \<and> at p rest r'"
proof -
  have "source_ok r" "40 # unread_part r = PDF_EncodeString str @ rest" using at_ok [OF assms] by (simp_all add: PDF_EncodeString_def)
  with ReadString_encoded [of r str rest] ReadString_fwd [of r] assms show ?thesis
    by (auto simp: at_def fwd_def intro: same_source_trans)
qed

lemma ReadHexString_back:
  assumes "at p (tl (PDF_HexEncodeString str) @ rest) r"
  shows "\<exists>r'. ReadHexString r = (str, r') \<and> at p rest r'"
proof -
  have "source_ok r" "60 # unread_part r = PDF_HexEncodeString str @ rest" using at_ok [OF assms] by (simp_all add: PDF_HexEncodeString_def)
  with ReadHexString_encoded [of r str rest] ReadHexString_fwd [of r] assms show ?thesis
    by (auto simp: at_def fwd_def intro: same_source_trans)
qed

lemma reads_back_scalar:
  assumes "WriteTo env None ob = Some s" and "writable env ob" and "depth < kParserMaxRecursionDepth"
    and "\<And>os. ob \<noteq> PArray os" and "\<And>m. ob \<noteq> PDictionary m"
  shows "reads_back env depth ob s"
  unfolding reads_back_def
proof (intro allI impI)
  fix p q rest
  assume q: "heads_to p (s @ rest) q" and t: "m_TrailerEnds p = None" and f: "follows rest"
  have e: "ends_word rest" using f by (simp add: follows_def)
  note go = read_scalar [OF q t]
  show "\<exists>n r. GetObjectBodyInternal n env depth q = Some (Some (reread env ob), r) \<and> heads_to p rest r"
  proof (cases ob)
    case PNull
    have "list_all regular (B ''null'')" "\<not> list_all PDFCharIsNumeric (B ''null'')" by code_simp+
    then have "next_word (s @ rest) = ((B ''null'', False), rest)"
      using next_word_regular [of "B ''null''" rest] e PNull assms(1) by (auto simp: B_def next_word_white byte_classes)
    then show ?thesis by (rule go) (use PNull assms(3) in \<open>auto simp: object_body_def B_def heads_to_at\<close>)
  next
    case (PBoolean b)
    let ?w = "if b then B ''true'' else B ''false''"
    have "list_all regular ?w" "\<not> list_all PDFCharIsNumeric ?w" by (cases b; simp only: if_True if_False; code_simp)+
    then have "next_word (s @ rest) = ((?w, False), rest)"
      using next_word_regular [of ?w rest] e PBoolean assms(1) by (auto simp: B_def next_word_white byte_classes split: if_splits)
    then show ?thesis by (rule go) (use PBoolean assms(3) in \<open>auto simp: object_body_def B_def heads_to_at\<close>)
  next
    case (PNumber n)
    then have w: "numeric_word (number_string env n)" using assms(2) by simp
    then have "next_word (s @ rest) = ((number_string env n, True), rest)"
      using next_word_number [OF w e] PNumber assms(1) by (auto simp: B_def next_word_white byte_classes)
    then show ?thesis
    proof (rule go)
      fix r
      assume r: "at p rest r" "GetNextWord q = ((number_string env n, True), r)"
      then obtain r' where "read_number env (number_string env n) r = (Some (PNumber (FX_Number env (number_string env n))), r')" "at p rest r'"
        using read_number_plain [OF _ t f] by blast
      then show "\<exists>r'. object_body (\<lambda>q. None) (\<lambda>q. None) env depth q = Some (Some (reread env ob), r') \<and> heads_to p rest r'"
        using PNumber assms(3) w r by (auto simp: object_body_def numeric_word_def heads_to_at)
    qed
  next
    case (PString str hex)
    show ?thesis
    proof (cases hex)
      case True
      have "s = PDF_HexEncodeString str" using True assms(1) PString by simp
      then have "next_word (s @ rest) = (([60], False), tl (PDF_HexEncodeString str) @ rest)" by (simp add: next_word_hex)
      then show ?thesis
        by (rule go) (drule ReadHexString_back, use PString True assms(3) in \<open>auto simp: object_body_def B_def heads_to_at\<close>)
    next
      case False
      have "s = PDF_EncodeString str" using False assms(1) PString by simp
      then have "next_word (s @ rest) = (([40], False), tl (PDF_EncodeString str) @ rest)" by (simp add: next_word_literal)
      then show ?thesis
        by (rule go) (drule ReadString_back, use PString False assms(3) in \<open>auto simp: object_body_def B_def heads_to_at\<close>)
    qed
  next
    case (PName n)
    have len: "length (encoded n) \<le> 255" using assms(2) PName by (simp add: length_name_encode)
    have "s = 47 # encoded n" using assms(1) PName by (auto simp: PDF_NameEncode_chars B_def)
    then have "next_word (s @ rest) = ((47 # encoded n, False), rest)"
      using next_word_name [OF regular_encoded len e] by simp
    then show ?thesis
      by (rule go) (use PName assms(3) in \<open>auto simp: object_body_def B_def PDF_NameDecode_encoded heads_to_at\<close>)
  next
    case (PReference n)
    have s: "s @ rest = 32 # WriteDWord n @ 32 # 48 # 32 # 82 # 32 # rest" using assms(1) PReference by (auto simp: B_def)
    have n: "n < 2 ^ 31" using assms(2) PReference by simp
    have w: "numeric_word (WriteDWord n)" using n by (simp add: WriteDWord_def to_int32_def numeric_word_integer)
    have "next_word (s @ rest) = ((WriteDWord n, True), 32 # 48 # 32 # 82 # 32 # rest)"
      unfolding s using next_word_number [OF w] by (simp add: next_word_white byte_classes ends_word_white)
    then show ?thesis
    proof (rule go)
      fix r
      assume r: "at p (32 # 48 # 32 # 82 # 32 # rest) r" "GetNextWord q = ((WriteDWord n, True), r)"
      then obtain r' where "read_number env (WriteDWord n) r = (Some (PReference n), r')" "at p (32 # rest) r'"
        using read_number_reference [OF _ t n] by blast
      then show "\<exists>r'. object_body (\<lambda>q. None) (\<lambda>q. None) env depth q = Some (Some (reread env ob), r') \<and> heads_to p rest r'"
        using PReference assms(3) w r heads_to_white byte_classes(1) by (fastforce simp: object_body_def numeric_word_def)
    qed
  qed (use assms in auto)
qed


section \<open>Arrays and dictionaries\<close>

lemma follows_objects:
  assumes "write_objects env None os = Some body" and "\<forall>ob\<in>set os. writable env ob" and "follows rest"
  shows "follows (body @ rest)"
  using assms
proof (induction os arbitrary: body)
  case (Cons ob os)
  then obtain s b where "WriteTo env None ob = Some s" "write_objects env None os = Some b" "body = s @ b"
    by (auto simp: bind_eq_Some_conv)
  then show ?case using Cons follows_written [of env ob s "b @ rest"] by simp
qed simp

lemma array_end:
  assumes "heads_to p (93 # rest) q" and "m_TrailerEnds p = None" and "depth < kParserMaxRecursionDepth"
  shows "\<exists>r. GetObjectBodyInternal (Suc 0) env depth q = Some (None, r) \<and> at p rest r"
proof -
  have "next_word (93 # rest) = (([93], False), rest)" by (simp add: next_word_delimiter byte_classes)
  then obtain r where "GetNextWord q = (([93], False), r)" "at p rest r" using heads_to_word [OF assms(1,2)] by auto
  then show ?thesis using assms(3) by (simp add: object_body_def B_def)
qed

lemma array_back:
  assumes "write_objects env None os = Some body" and "\<forall>ob\<in>set os. writable env ob"
    and "\<forall>ob\<in>set os. \<forall>s. WriteTo env None ob = Some s \<longrightarrow> reads_back env depth ob s"
    and "heads_to p (body @ 93 # rest) q" and "m_TrailerEnds p = None" and "depth < kParserMaxRecursionDepth"
  shows "\<exists>n r. array_items n env depth acc q = Some (Some (PArray (acc @ map (reread env) os)), r) \<and> heads_to p rest r"
  using assms
proof (induction os arbitrary: body acc q)
  case Nil
  then obtain r where "GetObjectBodyInternal (Suc 0) env depth q = Some (None, r)" "at p rest r"
    using array_end [of p rest q depth env] by auto
  then have "array_items (Suc (Suc 0)) env depth acc q = Some (Some (PArray (acc @ map (reread env) [])), r)"
    by (simp add: array_item_def del: GetObjectBodyInternal.simps)
  then show ?case using heads_to_at [OF \<open>at p rest r\<close>] by blast
next
  case (Cons ob os)
  then obtain s b where b: "WriteTo env None ob = Some s" "write_objects env None os = Some b" "body = s @ b"
    by (auto simp: bind_eq_Some_conv)
  have "follows (b @ 93 # rest)" using follows_objects [OF b(2)] Cons.prems(2) follows_delimiter byte_classes by simp
  moreover have "reads_back env depth ob s" using Cons.prems(3) b(1) by simp
  ultimately obtain n1 r1 where r1: "GetObjectBodyInternal n1 env depth q = Some (Some (reread env ob), r1)" "heads_to p (b @ 93 # rest) r1"
    using Cons.prems(4,5) b(3) unfolding reads_back_def by (metis append_assoc)
  obtain n2 r2 where r2: "array_items n2 env depth (acc @ [reread env ob]) r1 =
      Some (Some (PArray ((acc @ [reread env ob]) @ map (reread env) os)), r2)" "heads_to p rest r2"
    using Cons.IH [OF b(2) _ _ r1(2) Cons.prems(5,6), of "acc @ [reread env ob]"] Cons.prems(2,3) by auto
  have "array_items (Suc (n1 + n2)) env depth acc q = Some (Some (PArray (acc @ map (reread env) (ob # os))), r2)"
    using more_calls(1) [OF r1(1), of n2] more_calls(2) [OF r2(1), of n1] by (simp add: array_item_def add.commute)
  then show ?case using r2(2) by blast
qed

lemma SetFor_append: "\<forall>k\<in>set (map fst m). bytes_less k key \<Longrightarrow> SetFor key ob m = m @ [(key, ob)]"
proof (induction m)
  case (Cons x m)
  obtain k v where x: "x = (k, v)" by (cases x)
  have "\<not> bytes_less key k" "k \<noteq> key" using Cons.prems x bytes_less_trans [of key k key] by auto
  then show ?case using Cons x by simp
qed simp

abbreviation reread_entries :: "'f pdf_env \<Rightarrow> 'f dict \<Rightarrow> 'f dict" where
  "reread_entries env m \<equiv> map (\<lambda>(k, v). (k, reread env v)) m"

lemma write_entries_Cons:
  "write_entries env None sig ((k, v) # m) = Some body \<longleftrightarrow>
   (\<exists>s b. WriteTo env None v = Some s \<and> write_entries env None sig m = Some b \<and> body = 47 # encoded k @ s @ b)"
  by (auto simp: PDF_NameEncode_chars bind_eq_Some_conv B_def)

lemma follows_entries: "write_entries env None sig m = Some body \<Longrightarrow> follows (body @ 62 # 62 # rest)"
  using follows_delimiter byte_classes by (cases m) (auto simp: write_entries_Cons simp del: write_entries.simps(2))

lemma entries_end:
  assumes "heads_to p (62 # 62 # rest) q" and "m_TrailerEnds p = None"
  shows "\<exists>r. at p rest r \<and> dictionary_items (Suc 0) env depth m q = Some (end_dictionary env m r)"
proof -
  have "next_word (62 # 62 # rest) = (([62, 62], False), rest)" by (simp add: next_word_delimiter byte_classes)
  then obtain r where "GetNextWord q = (([62, 62], False), r)" "at p rest r" using heads_to_word [OF assms] by auto
  then show ?thesis by (auto simp: dictionary_entry_def B_def)
qed

lemma entry_step:
  assumes "GetNextWord q = ((47 # encoded k, False), r)" and "k \<noteq> []"
    and "GetObjectBodyInternal n env depth r = Some (Some ob, r')"
  shows "dictionary_items (Suc n) env depth m q = dictionary_items n env depth (SetFor k ob m) r'"
  using assms by (simp add: dictionary_entry_def PDF_NameDecode_encoded B_def Let_def)

lemma entries_back:
  assumes "write_entries env None sig m = Some body" and "\<forall>(k, v)\<in>set m. encoded_length k \<le> 255 \<and> writable env v"
    and "\<forall>(k, v)\<in>set m. \<forall>s. WriteTo env None v = Some s \<longrightarrow> reads_back env depth v s"
    and "heads_to p (body @ 62 # 62 # rest) q" and "m_TrailerEnds p = None"
    and "sorted_wrt bytes_less (map fst acc @ map fst m)" and "[] \<notin> set (map fst m)"
  shows "\<exists>n r. at p rest r \<and> dictionary_items n env depth acc q = Some (end_dictionary env (acc @ reread_entries env m) r)"
  using assms
proof (induction m arbitrary: body acc q)
  case Nil
  then have "heads_to p (62 # 62 # rest) q" by simp
  from entries_end [OF this Nil.prems(5), of env depth acc] show ?case by (simp only: list.map append_Nil2) blast
next
  case (Cons x m)
  obtain k v where x: "x = (k, v)" by (cases x)
  obtain s b where b: "WriteTo env None v = Some s" "write_entries env None sig m = Some b" "body = 47 # encoded k @ s @ b"
    using Cons.prems(1) unfolding x write_entries_Cons by blast
  have f: "follows (b @ 62 # 62 # rest)" by (rule follows_entries [OF b(2)])
  have e: "ends_word (s @ b @ 62 # 62 # rest)" using follows_written [OF b(1) _ f] Cons.prems(2) x by (simp add: follows_def)
  have len: "length (encoded k) \<le> 255" using Cons.prems(2) x by (simp add: length_name_encode)
  have "next_word (body @ 62 # 62 # rest) = ((47 # encoded k, False), s @ b @ 62 # 62 # rest)"
    using next_word_name [OF regular_encoded len e] by (simp only: b(3) append_Cons append_assoc)
  then obtain r where r: "GetNextWord q = ((47 # encoded k, False), r)" "at p (s @ b @ 62 # 62 # rest) r"
    using heads_to_word [OF Cons.prems(4,5)] by (metis fst_conv snd_conv)
  have "reads_back env depth v s" using Cons.prems(3) x b(1) by simp
  then obtain n1 r1 where r1: "GetObjectBodyInternal n1 env depth r = Some (Some (reread env v), r1)" "heads_to p (b @ 62 # 62 # rest) r1"
    using heads_to_at [OF r(2)] Cons.prems(5) f unfolding reads_back_def by blast
  have k: "k \<noteq> []" using Cons.prems(7) x by auto
  have app: "SetFor k (reread env v) acc = acc @ [(k, reread env v)]"
    using Cons.prems(6) by (intro SetFor_append) (auto simp: x sorted_wrt_append)
  have tail: "\<forall>(k, v)\<in>set m. encoded_length k \<le> 255 \<and> writable env v"
    "\<forall>(k, v)\<in>set m. \<forall>s. WriteTo env None v = Some s \<longrightarrow> reads_back env depth v s"
    "sorted_wrt bytes_less (map fst (acc @ [(k, reread env v)]) @ map fst m)" "[] \<notin> set (map fst m)"
    using Cons.prems(2,3,6,7) by (simp_all add: x del: set_map)
  obtain n2 r2 where r2: "at p rest r2" "dictionary_items n2 env depth (acc @ [(k, reread env v)]) r1 =
      Some (end_dictionary env ((acc @ [(k, reread env v)]) @ reread_entries env m) r2)"
    using Cons.IH [OF b(2) tail(1,2) r1(2) Cons.prems(5) tail(3,4)] by blast
  have "dictionary_items (Suc (n1 + n2)) env depth acc q = Some (end_dictionary env (acc @ reread_entries env (x # m)) r2)"
    using entry_step [OF r(1) k more_calls(1) [OF r1(1), of n2], of acc] more_calls(3) [OF r2(2), of n1]
    by (simp add: x app add.commute [of n1] del: dictionary_items.simps)
  then show ?case using r2(1) by blast
qed


lemma array_reads_back:
  assumes "WriteTo env None (PArray os) = Some s" and "writable env (PArray os)" and "Suc depth < kParserMaxRecursionDepth"
    and "\<forall>ob\<in>set os. \<forall>s. WriteTo env None ob = Some s \<longrightarrow> reads_back env (Suc depth) ob s"
  shows "reads_back env depth (PArray os) s"
  unfolding reads_back_def
proof (intro allI impI)
  fix p q rest
  assume q: "heads_to p (s @ rest) q" and t: "m_TrailerEnds p = None"
  obtain body where body: "write_objects env None os = Some body" "s = 91 # body @ [93]" using assms(1) by (auto simp: B_def)
  have "next_word (s @ rest) = (([91], False), body @ 93 # rest)" by (simp add: body(2) next_word_delimiter byte_classes)
  then obtain r where r: "GetNextWord q = (([91], False), r)" "at p (body @ 93 # rest) r" using heads_to_word [OF q t] by auto
  obtain n r2 where "array_items n env (Suc depth) [] r = Some (Some (PArray (map (reread env) os)), r2)" "heads_to p rest r2"
    using array_back [OF body(1) _ assms(4) heads_to_at [OF r(2)] t assms(3), of "[]"] assms(2) by auto
  moreover from this have "GetObjectBodyInternal (Suc n) env depth q = Some (Some (reread env (PArray os)), r2)"
    using r(1) assms(3) by (simp add: object_body_def B_def)
  ultimately show "\<exists>n r. GetObjectBodyInternal n env depth q = Some (Some (reread env (PArray os)), r) \<and> heads_to p rest r"
    by blast
qed

text \<open>A dictionary up to its end, whatever comes after it.\<close>

lemma dictionary_reads_back:
  assumes "WriteTo env None (PDictionary m) = Some s" and "writable env (PDictionary m)" and "depth < kParserMaxRecursionDepth"
    and "\<forall>(k, v)\<in>set m. \<forall>s. WriteTo env None v = Some s \<longrightarrow> reads_back env (Suc depth) v s"
    and "heads_to p (s @ rest) q" and "m_TrailerEnds p = None"
  shows "\<exists>n r. at p rest r \<and> GetObjectBodyInternal n env depth q = Some (end_dictionary env (reread_entries env m) r)"
proof -
  obtain body where body: "write_entries env None (IsSignatureDictionary env m) m = Some body" "s = 60 # 60 # body @ [62, 62]"
    using assms(1) by (auto simp: B_def)
  have "next_word (s @ rest) = (([60, 60], False), body @ 62 # 62 # rest)" by (simp add: body(2) next_word_delimiter byte_classes)
  then obtain r where r: "GetNextWord q = (([60, 60], False), r)" "at p (body @ 62 # 62 # rest) r"
    using heads_to_word [OF assms(5,6)] by auto
  have "\<forall>(k, v)\<in>set m. encoded_length k \<le> 255 \<and> writable env v" "sorted_wrt bytes_less (map fst [] @ map fst m)" "[] \<notin> set (map fst m)"
    using assms(2) by (simp_all add: keys_ok_def)
  then obtain n r2 where r2: "at p rest r2"
      "dictionary_items n env (Suc depth) [] r = Some (end_dictionary env ([] @ reread_entries env m) r2)"
    using entries_back [OF body(1) _ assms(4) heads_to_at [OF r(2)] assms(6), of "[]"] by blast
  have "GetObjectBodyInternal (Suc n) env depth q = Some (end_dictionary env (reread_entries env m) r2)"
    using r(1) assms(3) r2(2) by (simp add: object_body_def B_def)
  then show ?thesis using r2(1) by blast
qed

lemma written_reads_back:
  assumes "WriteTo env None ob = Some s" and "writable env ob" and "depth + calls ob \<le> kParserMaxRecursionDepth"
  shows "reads_back env depth ob s"
  using assms
proof (induction ob arbitrary: s depth)
  case (PArray os)
  have "Suc depth + calls x \<le> kParserMaxRecursionDepth" if "x \<in> set os" for x
    using PArray.prems(3) that max_list_le [of "1 # map calls os" "max_list (1 # map calls os)"] by fastforce
  moreover have "Suc depth < kParserMaxRecursionDepth"
    using PArray.prems(3) max_list_le [of "1 # map calls os" "max_list (1 # map calls os)"] by simp
  ultimately show ?case using PArray.IH PArray.prems by (intro array_reads_back) auto
next
  case (PDictionary m)
  have "Suc depth + calls v \<le> kParserMaxRecursionDepth" if "(k, v) \<in> set m" for k v
    using PDictionary.prems(3) that max_list_le [of "map (\<lambda>(k, v). calls v) m" "max_list (map (\<lambda>(k, v). calls v) m)"] by fastforce
  then have IH: "\<forall>(k, v)\<in>set m. \<forall>s. WriteTo env None v = Some s \<longrightarrow> reads_back env (Suc depth) v s"
    using PDictionary.IH PDictionary.prems(2) by fastforce
  have d: "depth < kParserMaxRecursionDepth" using PDictionary.prems(3) by simp
  show ?case unfolding reads_back_def
  proof (intro allI impI)
    fix p q rest
    assume q: "heads_to p (s @ rest) q" and t: "m_TrailerEnds p = None" and f: "follows rest"
    obtain n r where r: "at p rest r" "GetObjectBodyInternal n env depth q = Some (end_dictionary env (reread_entries env m) r)"
      using dictionary_reads_back [OF PDictionary.prems(1,2) d IH q t] by blast
    then show "\<exists>n r. GetObjectBodyInternal n env depth q = Some (Some (reread env (PDictionary m)), r) \<and> heads_to p rest r"
      using end_dictionary_plain [OF r(1) t, of env "reread_entries env m"] f heads_to_at by (fastforce simp: follows_def)
  qed
qed (auto intro!: reads_back_scalar)

lemma calls_nesting: "calls ob \<le> Suc (nesting ob)"
proof (induction ob)
  case (PArray os)
  then have "max_list (1 # map calls os) \<le> Suc (max_list (map nesting os))"
    using max_list_le [of "map nesting os" "max_list (map nesting os)"] by (fastforce simp: max_list_le)
  then show ?case by simp
next
  case (PDictionary m)
  then have "max_list (map (\<lambda>(k, v). calls v) m) \<le> Suc (max_list (map (\<lambda>(k, v). nesting v) m))"
    using max_list_le [of "map (\<lambda>(k, v). nesting v) m" "max_list (map (\<lambda>(k, v). nesting v) m)"] by (fastforce simp: max_list_le)
  then show ?case by simp
next
  case (PStream m d)
  then have "max_list (map (\<lambda>(k, v). calls v) m) \<le> Suc (max_list (map (\<lambda>(k, v). nesting v) m))"
    using max_list_le [of "map (\<lambda>(k, v). nesting v) m" "max_list (map (\<lambda>(k, v). nesting v) m)"] by (fastforce simp: max_list_le)
  then show ?case by simp
qed simp_all

end
