(* ===== verification/Pdf_Indirect.thy ===== *)
theory Pdf_Indirect
  imports Pdf_Roundtrip
begin

text \<open>
  Indirect objects: what CPDF_Creator writes for an object, a stream with its compressed data included, is
  read back by CPDF_SyntaxParser::GetIndirectObject.
\<close>

section \<open>Streams\<close>

lemma at_skip:
  assumes "at p (d @ s) q" and "n = m_Pos q + length d"
  shows "at p s (SetPos n q)"
proof -
  have u: "drop (m_Pos q + m_HeaderOffset q) (m_pFileAccess q) = d @ s" and ok: "same_source p q"
    using assms(1) by (simp_all add: at_def unread_part_def)
  have "drop (n + m_HeaderOffset q) (m_pFileAccess q) = s"
    using arg_cong [OF u, of "drop (length d)"] assms(2) by (simp add: add_ac)
  moreover have "drop (n + m_HeaderOffset q) (m_pFileAccess q) = drop (min n (m_FileLen q) + m_HeaderOffset q) (m_pFileAccess q)"
    by (simp add: min_def)
  ultimately show ?thesis using ok by (simp add: at_def) (simp add: SetPos_def unread_part_def)
qed

lemma ToNextLine_crlf: "at p (13 # 10 # s) q \<Longrightarrow> at p s (ToNextLine q)"
proof -
  assume "at p (13 # 10 # s) q"
  then obtain r r2 where "GetNextChar q = Some (13, r)" "GetNextChar r = Some (10, r2)" "at p s r2"
    using at_next by meson
  then show ?thesis by (simp add: ToNextLine.simps [of q])
qed

lemma GetCharAt_next:
  assumes "at p (c # s) q"
  shows "\<exists>r. GetCharAt (m_Pos q) q = Some (c, r) \<and> at p (c # s) r \<and> m_Pos r = m_Pos q \<and> m_WordBuffer r = m_WordBuffer q"
proof -
  obtain r where r: "GetNextChar q = Some (c, r)" "at p s r" "m_WordBuffer r = m_WordBuffer q"
    using at_next [OF assms] by blast
  then show ?thesis using at_set_pos [OF assms, of r] by (simp add: GetCharAt_def at_def [of _ s])
qed

lemma GetCharAt_second:
  assumes "at p (c # d # s) q"
  shows "\<exists>r. GetCharAt (m_Pos q + 1) q = Some (d, r) \<and> at p (c # d # s) r \<and> m_Pos r = m_Pos q \<and> m_WordBuffer r = m_WordBuffer q"
proof -
  let ?q = "q\<lparr>m_Pos := m_Pos q + 1\<rparr>"
  have "at p (d # s) ?q"
  proof -
    have "drop (m_Pos q + m_HeaderOffset q) (m_pFileAccess q) = c # d # s" using assms by (simp add: at_def unread_part_def)
    then have "drop (Suc (m_Pos q + m_HeaderOffset q)) (m_pFileAccess q) = d # s" by (metis drop_Suc list.sel(3) tl_drop)
    then show ?thesis using assms by (simp add: at_def) (simp add: unread_part_def)
  qed
  then obtain r where "GetNextChar ?q = Some (d, r)" "at p s r" "m_WordBuffer r = m_WordBuffer q"
    using at_next [of p d s ?q] by auto
  then show ?thesis using at_set_pos [OF assms, of r] by (simp add: GetCharAt_def at_def [of _ s])
qed

lemma ReadEOLMarkers_crlf:
  assumes "at p (13 # 10 # s) q"
  shows "\<exists>r. ReadEOLMarkers (m_Pos q) q = (2, r) \<and> at p (13 # 10 # s) r \<and> m_Pos r = m_Pos q \<and> m_WordBuffer r = m_WordBuffer q"
proof -
  obtain r where r: "GetCharAt (m_Pos q) q = Some (13, r)" "at p (13 # 10 # s) r" "m_Pos r = m_Pos q" "m_WordBuffer r = m_WordBuffer q"
    using GetCharAt_next [OF assms] by blast
  then obtain r2 where "GetCharAt (m_Pos q + 1) r = Some (10, r2)" "at p (13 # 10 # s) r2" "m_Pos r2 = m_Pos q" "m_WordBuffer r2 = m_WordBuffer q"
    using GetCharAt_second [OF r(2)] by auto
  then show ?thesis using r by (simp add: ReadEOLMarkers_def char_or_zero_def)
qed

lemma keyword_word:
  assumes "list_all regular w" and "w \<noteq> []" and "length w \<le> 256" and "at p (w @ 13 # s) q" and "m_TrailerEnds p = None"
  shows "\<exists>wt r. GetNextWordInternal q = (wt, r) \<and> at p (13 # s) r \<and> m_WordBuffer r = w"
proof -
  have "next_word (w @ 13 # s) = ((w, list_all PDFCharIsNumeric w), 13 # s)"
    by (rule next_word_regular) (simp_all add: assms ends_word_white byte_classes)
  then obtain r where "GetNextWord q = ((w, list_all PDFCharIsNumeric w), r)" "at p (13 # s) r" "m_WordBuffer r = w"
    using GetNextWord_next_word [OF assms(4,5)] by auto
  then show ?thesis by (auto simp: GetNextWord_def split: prod.splits)
qed

lemma regular_keywords: "list_all regular (B ''endstream'')" "list_all regular (B ''endobj'')" "list_all regular (B ''stream'')"
  "list_all regular (B ''obj'')"
  by code_simp+

lemma stream_by_length_back:
  assumes "at p (data @ 13 # 10 # B ''endstream'' @ 13 # s) q" and "m_TrailerEnds p = None"
  shows "\<exists>r. stream_by_length (int (length data)) q = (Some data, r) \<and> at p (13 # s) r"
proof -
  define q1 where "q1 = (if 0 < int (length data) then SetPos (m_Pos q + nat (int (length data))) q else q)"
  have q1: "at p (13 # 10 # B ''endstream'' @ 13 # s) q1"
    using at_skip [OF assms(1) refl] assms(1) by (auto simp: q1_def)
  obtain q2 where q2: "ReadEOLMarkers (m_Pos q1) q1 = (2, q2)" "at p ([13, 10] @ B ''endstream'' @ 13 # s) q2"
    using ReadEOLMarkers_crlf [OF q1] by auto
  have "at p (B ''endstream'' @ 13 # s) (SetPos (m_Pos q2 + 2) q2)"
    by (rule at_skip [OF q2(2)]) simp
  moreover have "m_Pos q2 + 2 \<le> m_FileLen q2"
    using q2(2) by (auto simp: at_def unread_part_def dest!: arg_cong [of "drop _ _" _ length])
  ultimately have q3: "at p (B ''endstream'' @ 13 # s) (q2\<lparr>m_Pos := m_Pos q2 + 2\<rparr>)" by (simp add: SetPos_def min_def)
  have "B ''endstream'' \<noteq> []" "length (B ''endstream'') \<le> 256" by (simp_all add: B_def)
  then obtain wt r where r: "GetNextWordInternal (q2\<lparr>m_Pos := m_Pos q2 + 2\<rparr>) = (wt, r)" "at p (13 # s) r" "m_WordBuffer r = B ''endstream''"
    using keyword_word [OF regular_keywords(1) _ _ q3 assms(2)] by blast
  have "sub_stream (m_Pos q) (length data) r = data"
    using assms(1) r(2) by (auto simp: sub_stream_def at_def same_source_def unread_part_def add.commute)
  then show ?thesis using q2(1) r q1_def by (simp add: stream_by_length_def Let_def B_def)
qed

lemma after_stream_back_to_end:
  assumes "at p (13 # 10 # B ''endobj'' @ 13 # 10 # s) q" and "m_TrailerEnds p = None"
  shows "at p (13 # 10 # B ''endobj'' @ 13 # 10 # s) (after_stream q)"
proof -
  have q0: "next_word (13 # 10 # B ''endobj'' @ 13 # 10 # s) = next_word (B ''endobj'' @ 13 # 10 # s)"
    by (simp add: next_word_white byte_classes)
  have "next_word (B ''endobj'' @ 13 # 10 # s) = ((B ''endobj'', list_all PDFCharIsNumeric (B ''endobj'')), 13 # 10 # s)"
    by (rule next_word_regular [OF regular_keywords(2)]) (simp_all add: B_def ends_word_white byte_classes)
  then obtain r where "GetNextWord q = ((B ''endobj'', list_all PDFCharIsNumeric (B ''endobj'')), r)" "at p (13 # 10 # s) r"
      "m_WordBuffer r = B ''endobj''"
    using GetNextWord_next_word [OF assms] q0 by auto
  then obtain wt where r: "GetNextWordInternal q = (wt, r)" "at p (13 # 10 # s) r" "m_WordBuffer r = B ''endobj''"
    by (auto simp: GetNextWord_def split: prod.splits)
  obtain r1 where r1: "GetNextChar r = Some (13, r1)" "at p (10 # s) r1" "at p (13 # 10 # s) (unread r1)" "m_WordBuffer r1 = B ''endobj''"
    using at_next [OF r(2)] r(3) by auto
  have blanks: "skip_blanks r = r1" using r1(1) by (simp add: skip_blanks.simps [of r] PDFCharIsLineEnding_def)
  have "SetPos (m_Pos r1 - 1) r1 = unread r1"
    using r1(2) by (auto simp: SetPos_def unread_def at_def unread_part_def dest!: arg_cong [of "drop _ _" _ length])
  moreover obtain r2 where "ReadEOLMarkers (m_Pos (unread r1)) (unread r1) = (2, r2)" "at p (13 # 10 # s) r2" "m_WordBuffer r2 = B ''endobj''"
    using ReadEOLMarkers_crlf [OF r1(3)] r1(4) by auto
  moreover from this have "at p (13 # 10 # B ''endobj'' @ 13 # 10 # s) (SetPos (m_Pos q) r2)"
  proof -
    have "m_Pos q \<le> m_FileLen q" using assms(1) by (auto simp: at_def unread_part_def dest!: arg_cong [of "drop _ _" _ length])
    moreover have "same_source p r2" "same_source p q" using \<open>at p (13 # 10 # s) r2\<close> assms(1) by (simp_all add: at_def)
    ultimately have "SetPos (m_Pos q) r2 = r2\<lparr>m_Pos := m_Pos q\<rparr>" by (simp add: SetPos_def same_source_def)
    then show ?thesis using at_set_pos [OF assms(1) \<open>same_source p r2\<close>] by simp
  qed
  ultimately show ?thesis using r(1) blanks by (simp add: after_stream_def Let_def)
qed


lemma ReadStream_written:
  assumes "at p (13 # 10 # data @ 13 # 10 # B ''endstream'' @ 13 # 10 # B ''endobj'' @ 13 # 10 # s) q" and "m_TrailerEnds p = None"
    and "map_of m (B ''Length'') = Some (PNumber n)" and "GetSigned env n = int (length data)"
  shows "\<exists>r. ReadStream env m q = (Some (PStream (SetFor (B ''Length'') (PNumber (Signed (to_int32 (length data)))) m) data), r) \<and>
    at p (13 # 10 # B ''endobj'' @ 13 # 10 # s) r"
proof -
  have len: "(case GetDirectObjectFor env m (B ''Length'') of Some (PNumber n) \<Rightarrow> GetSigned env n | _ \<Rightarrow> - 1) = int (length data)"
    using assms(3,4) by (simp add: GetDirectObjectFor_def GetObjectFor_def GetDirect_def)
  define q1 where "q1 = ToNextLine q"
  have q1: "at p (data @ 13 # 10 # B ''endstream'' @ 13 # 10 # B ''endobj'' @ 13 # 10 # s) q1"
    unfolding q1_def by (rule ToNextLine_crlf [OF assms(1)])
  then have "m_Pos q1 + length data < m_FileLen q1"
    by (auto simp: at_def unread_part_def dest!: arg_cong [of "drop _ _" _ length])
  then have short: "\<not> (0 < int (length data) \<and> int (m_FileLen q1) \<le> int (m_Pos q1) + int (length data))" by linarith
  obtain r where r: "stream_by_length (int (length data)) q1 = (Some data, r)" "at p (13 # 10 # B ''endobj'' @ 13 # 10 # s) r"
    using stream_by_length_back [OF q1 assms(2)] by blast
  then show ?thesis using after_stream_back_to_end [OF r(2) assms(2)] short
    by (auto simp: ReadStream_def len q1_def [symmetric] Let_def)
qed

lemma end_dictionary_stream:
  assumes "at p (B ''stream'' @ 13 # 10 # data @ 13 # 10 # B ''endstream'' @ 13 # 10 # B ''endobj'' @ 13 # 10 # s) q"
    and "m_TrailerEnds p = None" and "map_of m (B ''Length'') = Some (PNumber n)" and "GetSigned env n = int (length data)"
  shows "\<exists>r. end_dictionary env m q = (Some (PStream (SetFor (B ''Length'') (PNumber (Signed (to_int32 (length data)))) m) data), r) \<and>
    at p (13 # 10 # B ''endobj'' @ 13 # 10 # s) r"
proof -
  let ?t = "13 # 10 # data @ 13 # 10 # B ''endstream'' @ 13 # 10 # B ''endobj'' @ 13 # 10 # s"
  have "next_word (B ''stream'' @ ?t) = ((B ''stream'', list_all PDFCharIsNumeric (B ''stream'')), ?t)"
    by (rule next_word_regular [OF regular_keywords(3)]) (simp_all add: B_def ends_word_white byte_classes)
  then obtain r where "GetNextWord q = ((B ''stream'', list_all PDFCharIsNumeric (B ''stream'')), r)" "at p ?t r"
    using GetNextWord_next_word [OF assms(1,2)] by auto
  then show ?thesis using ReadStream_written [OF _ assms(2-4)] by (simp add: end_dictionary_def)
qed

section \<open>Copies\<close>

text \<open>Copying an object and changing the length of a stream leaves what is written readable.\<close>

lemma number_string_copy: "number_string env (Signed (to_int32 u)) = number_string env (Unsigned u)"
  by (simp add: number_string_def GetSigned_def)

lemma keys_ok_Clone [simp]: "keys_ok (map (\<lambda>(k, v). (k, f v)) m) = keys_ok m"
proof -
  have "map fst (map (\<lambda>(k, v). (k, f v)) m) = map fst m" by (induction m) auto
  then show ?thesis by (simp only: keys_ok_def)
qed

lemma writable_Clone: "writable env ob \<Longrightarrow> writable env (Clone_object env ob)"
proof (induction ob)
  case (PNumber n)
  then show ?case using to_int32_range by (cases n) (auto simp: number_string_copy GetSigned_def)
qed auto

lemma map_entries: "(\<And>k v. (k, v) \<in> set m \<Longrightarrow> f (g v) = f v) \<Longrightarrow>
    map (\<lambda>(k, v). f v) (map (\<lambda>(k, v). (k, g v)) m) = map (\<lambda>(k, v). f v) m"
  by auto

lemma nesting_Clone: "nesting (Clone_object env ob) = nesting ob"
proof (induction ob)
  case (PNumber n)
  then show ?case by (cases n) auto
next
  case (PArray os)
  then show ?case by (simp add: comp_def cong: map_cong)
next
  case (PDictionary m)
  then have "nesting (Clone_object env v) = nesting v" if "(k, v) \<in> set m" for k v using that by fastforce
  then show ?case by (simp only: Clone_object.simps nesting.simps map_entries)
next
  case (PStream m d)
  then have "nesting (Clone_object env v) = nesting v" if "(k, v) \<in> set m" for k v using that by fastforce
  then show ?case by (simp only: Clone_object.simps nesting.simps map_entries)
qed simp_all

lemma map_of_Clone_dict: "map_of (Clone_dict env m) k = map_option (Clone_object env) (map_of m k)"
  by (induction m) (auto simp: Clone_dict_def)

lemma map_of_RemoveFor: "map_of (RemoveFor key m) k = (if k = key then None else map_of m k)"
  by (induction m) (auto simp: RemoveFor_def)

lemma map_of_SetFor_other: "k \<noteq> key \<Longrightarrow> map_of (SetFor key ob m) k = map_of m k"
  by (induction m) auto

lemma keys_ok_RemoveFor: "keys_ok m \<Longrightarrow> keys_ok (RemoveFor key m)"
  by (induction m) (auto simp: keys_ok_def RemoveFor_def)

abbreviation dict_ok :: "'f pdf_env \<Rightarrow> nat \<Rightarrow> 'f dict \<Rightarrow> bool" where
  "dict_ok env n m \<equiv> writable env (PDictionary m) \<and> nesting (PDictionary m) \<le> n"

lemma dict_ok_SetFor:
  assumes "dict_ok env n m" and "writable env ob" and "nesting ob = 0" and "key \<noteq> []" and "encoded_length key \<le> 255"
  shows "dict_ok env n (SetFor key ob m)"
proof -
  have "max_list (map (\<lambda>(k, v). nesting v) (SetFor key ob m)) \<le> max_list (map (\<lambda>(k, v). nesting v) m)"
    using set_SetFor [of key ob m] assms(3) max_list_le [of "map (\<lambda>(k, v). nesting v) m" "max_list (map (\<lambda>(k, v). nesting v) m)"]
    by (fastforce simp: max_list_le)
  moreover have "writable env (PDictionary (SetFor key ob m))"
    using set_SetFor [of key ob m] assms keys_ok_SetFor [of m key ob] by auto
  ultimately show ?thesis using assms(1) by simp
qed

lemma dict_ok_RemoveFor: "dict_ok env n m \<Longrightarrow> dict_ok env n (RemoveFor key m)"
  using keys_ok_RemoveFor [of m key] max_list_le [of "map (\<lambda>(k, v). nesting v) m" "n - 1"]
    max_list_le [of "map (\<lambda>(k, v). nesting v) (RemoveFor key m)" "n - 1"]
  by (fastforce simp: RemoveFor_def Suc_le_eq)

lemma dict_ok_Clone: "dict_ok env n m \<Longrightarrow> dict_ok env n (Clone_dict env m)"
  using writable_Clone [of env "PDictionary m"] nesting_Clone [of env "PDictionary m"] by (simp add: Clone_dict_def)

lemma writable_length: "writable env (PNumber (Signed (to_int32 n)))" "nesting (PNumber x) = 0"
  using to_int32_range [of n] numeric_word_integer [of "to_int32 n"] by (simp_all add: number_string_def GetSigned_def)

lemma keys_writable:
  "B ''Length'' \<noteq> []" "encoded_length (B ''Length'') \<le> 255" "B ''Filter'' \<noteq> []" "encoded_length (B ''Filter'') \<le> 255"
  "encoded_length (B ''FlateDecode'') \<le> 255" "B ''Filter'' \<noteq> B ''Length''" "B ''DecodeParms'' \<noteq> B ''Length''"
  by code_simp+

lemma FlateEncoder_dict:
  assumes "dict_ok env n m" and "map_of m (B ''Length'') = Some (PNumber (Signed v))"
    and "CPDF_FlateEncoder env m data b = (m', d')"
  shows "dict_ok env n m' \<and> (\<exists>v. map_of m' (B ''Length'') = Some (PNumber (Signed v)))"
proof -
  let ?c = "Clone_dict env m" and ?l = "PNumber (Signed (to_int32 (length (flate env data))))"
  have c: "dict_ok env n ?c" "map_of ?c (B ''Length'') = Some (PNumber (Signed v))"
    using dict_ok_Clone [OF assms(1)] assms(2) by (simp_all add: map_of_Clone_dict)
  have l: "dict_ok env n (SetFor (B ''Length'') ?l ?c)" by (rule dict_ok_SetFor [OF c(1) writable_length keys_writable(1,2)])
  have "sorted_wrt bytes_less (map fst ?c)" using c(1) by (simp add: keys_ok_def)
  then have lk: "map_of (SetFor (B ''Length'') ?l ?c) (B ''Length'') = Some ?l" by (rule SetFor_lookup)
  let ?f = "SetFor (B ''Filter'') (PName (B ''FlateDecode'')) (SetFor (B ''Length'') ?l ?c)"
  have f: "dict_ok env n ?f" by (rule dict_ok_SetFor [OF l]) (simp_all add: keys_writable)
  have fk: "map_of ?f (B ''Length'') = Some ?l" using lk keys_writable(6) by (metis map_of_SetFor_other)
  show ?thesis
    using assms c dict_ok_RemoveFor [OF c(1), of "B ''Filter''"] dict_ok_RemoveFor [OF f, of "B ''DecodeParms''"] fk keys_writable(6,7)
    unfolding CPDF_FlateEncoder_def Let_def
    by (auto simp: map_of_RemoveFor simp del: writable.simps nesting.simps split: if_splits)
qed


lemma stream_dict_ok:
  assumes "dict_ok env n m" and "map_of m (B ''Length'') = Some (PNumber (Signed v))" and "len < 2 ^ 31"
  shows "dict_ok env n (stream_dict env m len) \<and> map_of (stream_dict env m len) (B ''Length'') = Some (PNumber (Signed (int len)))"
proof -
  let ?l = "PNumber (Signed (to_int32 len))"
  have c: "dict_ok env n (Clone_dict env m)" by (rule dict_ok_Clone [OF assms(1)])
  then have "sorted_wrt bytes_less (map fst (Clone_dict env m))" by (simp add: keys_ok_def)
  then have "map_of (SetFor (B ''Length'') ?l (Clone_dict env m)) (B ''Length'') = Some ?l" by (rule SetFor_lookup)
  moreover have "dict_ok env n (SetFor (B ''Length'') ?l (Clone_dict env m))"
    by (rule dict_ok_SetFor [OF c writable_length keys_writable(1,2)])
  moreover have "to_int32 len = int len" using assms(3) by (simp add: to_int32_def)
  moreover have "GetIntegerFor env m (B ''Length'') = v"
    using assms(2) by (simp add: GetIntegerFor_def GetDirectObjectFor_def GetObjectFor_def GetDirect_def GetSigned_def)
  ultimately show ?thesis using assms unfolding stream_dict_def by (simp del: writable.simps nesting.simps)
qed

lemma length_reread:
  assumes "map_of m (B ''Length'') = Some (PNumber (Signed (int len)))" and "len < 2 ^ 31"
  shows "\<exists>n. map_of (reread_entries env m) (B ''Length'') = Some (PNumber n) \<and> GetSigned env n = int len"
proof -
  have "map_of (reread_entries env m) k = map_option (reread env) (map_of m k)" for k by (induction m) auto
  then show ?thesis using assms FX_Number_integer [of "int len" env]
    by (simp add: number_string_def GetSigned_def to_int32_def)
qed

section \<open>Indirect objects\<close>

text \<open>
  What the writer can write so that it is read back.  A stream has the length of its data in its dictionary, as
  every way to set the data of a stream makes sure.
\<close>

definition storable :: "'f pdf_env \<Rightarrow> 'f pdf_object \<Rightarrow> bool" where
  "storable env ob = (case ob of
     PStream m data \<Rightarrow> writable env (PDictionary m) \<and> nesting (PDictionary m) < kParserMaxRecursionDepth \<and>
       map_of m (B ''Length'') = Some (PNumber (Signed (int (length data)))) \<and>
       length (snd (CPDF_FlateEncoder env m data (\<not> IsMetaDataStreamDictionary m))) < 2 ^ 31
   | _ \<Rightarrow> writable env ob \<and> nesting ob < kParserMaxRecursionDepth)"

text \<open>The object that is in the file: a stream with the data and the dictionary the compressor leaves.\<close>

definition stored :: "'f pdf_env \<Rightarrow> 'f pdf_object \<Rightarrow> 'f pdf_object" where
  "stored env ob = (case ob of
     PStream m data \<Rightarrow>
       (let (m, data) = CPDF_FlateEncoder env m data (\<not> IsMetaDataStreamDictionary m) in
        PStream (SetFor (B ''Length'') (PNumber (Signed (to_int32 (length data))))
          (reread_entries env (stream_dict env m (length data)))) data)
   | _ \<Rightarrow> reread env ob)"

abbreviation object_end :: "bytes \<Rightarrow> bytes" where
  "object_end rest \<equiv> 13 # 10 # B ''endobj'' @ 13 # 10 # rest"

lemma next_word_object_end: "next_word (object_end rest) = ((B ''endobj'', False), 13 # 10 # rest)"
proof -
  have "\<not> list_all PDFCharIsNumeric (B ''endobj'')" by code_simp
  then have "next_word (B ''endobj'' @ 13 # 10 # rest) = ((B ''endobj'', False), 13 # 10 # rest)"
    using next_word_regular [OF regular_keywords(2), of "13 # 10 # rest"] by (simp add: B_def ends_word_white byte_classes)
  then show ?thesis by (simp add: next_word_white byte_classes)
qed

lemma follows_object_end: "follows (object_end rest)"
  by (simp add: follows_def next_word_object_end ends_word_white byte_classes) (simp add: B_def)

lemma entries_written_back:
  assumes "writable env (PDictionary m)" and "nesting (PDictionary m) < kParserMaxRecursionDepth"
  shows "\<forall>(k, v)\<in>set m. \<forall>s. WriteTo env None v = Some s \<longrightarrow> reads_back env (Suc 0) v s"
proof -
  have "Suc 0 + calls v \<le> kParserMaxRecursionDepth" if "(k, v) \<in> set m" for k v
    using assms(2) that max_list_le [of "map (\<lambda>(k, v). nesting v) m" "max_list (map (\<lambda>(k, v). nesting v) m)"] calls_nesting [of v]
    by fastforce
  then show ?thesis using assms(1) by (fastforce intro: written_reads_back)
qed

lemma stream_written_back:
  assumes "dict_ok env (kParserMaxRecursionDepth - 1) D" and "map_of D (B ''Length'') = Some (PNumber (Signed (int (length d))))"
    and "length d < 2 ^ 31" and "WriteTo env None (PDictionary D) = Some t"
    and "heads_to p (t @ B ''stream'' @ 13 # 10 # d @ 13 # 10 # B ''endstream'' @ object_end rest) q" and "m_TrailerEnds p = None"
  shows "\<exists>n r. GetObjectBodyInternal n env 0 q =
    Some (Some (PStream (SetFor (B ''Length'') (PNumber (Signed (to_int32 (length d)))) (reread_entries env D)) d), r) \<and>
    heads_to p (object_end rest) r"
proof -
  let ?rest = "B ''stream'' @ 13 # 10 # d @ 13 # 10 # B ''endstream'' @ object_end rest"
  have D: "writable env (PDictionary D)" "nesting (PDictionary D) < kParserMaxRecursionDepth"
    using assms(1) by (simp_all add: kParserMaxRecursionDepth_def del: writable.simps nesting.simps)
  obtain n r where r: "at p ?rest r" "GetObjectBodyInternal n env 0 q = Some (end_dictionary env (reread_entries env D) r)"
    using dictionary_reads_back [OF assms(4) D(1) _ _ assms(5,6), of 0] entries_written_back [OF D]
    by (auto simp: kParserMaxRecursionDepth_def)
  obtain k where "map_of (reread_entries env D) (B ''Length'') = Some (PNumber k)" "GetSigned env k = int (length d)"
    using length_reread [OF assms(2,3)] by blast
  from end_dictionary_stream [OF r(1) assms(6) this] show ?thesis using r(2) heads_to_at by fastforce
qed

lemma object_written_back:
  assumes "WriteObject env None ob = Some s" and "storable env ob" and "heads_to p (s @ object_end rest) q" and "m_TrailerEnds p = None"
  shows "\<exists>n r. GetObjectBodyInternal n env 0 q = Some (Some (stored env ob), r) \<and> heads_to p (object_end rest) r"
proof (cases "\<exists>m data. ob = PStream m data")
  case False
  then have "WriteTo env None ob = Some s" "writable env ob" "nesting ob < kParserMaxRecursionDepth" "stored env ob = reread env ob"
    using assms(1,2) by (auto simp: WriteObject_def storable_def stored_def split: pdf_object.splits)
  moreover from this have "reads_back env 0 ob s"
    using calls_nesting [of ob] by (intro written_reads_back) auto
  ultimately show ?thesis using assms(3,4) follows_object_end by (auto simp: reads_back_def)
next
  case True
  then obtain m data where ob: "ob = PStream m data" by blast
  obtain m' d where e: "CPDF_FlateEncoder env m data (\<not> IsMetaDataStreamDictionary m) = (m', d)" by fastforce
  let ?D = "stream_dict env m' (length d)"
  have "dict_ok env (kParserMaxRecursionDepth - 1) m" and len: "length d < 2 ^ 31"
    and l: "map_of m (B ''Length'') = Some (PNumber (Signed (int (length data))))"
    using assms(2) e by (simp_all add: storable_def ob kParserMaxRecursionDepth_def del: writable.simps nesting.simps)
  from FlateEncoder_dict [OF this(1) l e] obtain v where m': "dict_ok env (kParserMaxRecursionDepth - 1) m'"
      "map_of m' (B ''Length'') = Some (PNumber (Signed v))" by blast
  have D: "dict_ok env (kParserMaxRecursionDepth - 1) ?D" "map_of ?D (B ''Length'') = Some (PNumber (Signed (int (length d))))"
    using stream_dict_ok [OF m' len] by blast+
  obtain t where t: "WriteTo env None (PDictionary ?D) = Some t"
      "s = t @ B ''stream'' @ [13, 10] @ d @ [13, 10] @ B ''endstream''"
    using assms(1) e by (auto simp: WriteObject_def ob WriteStream_def Let_def simp del: WriteTo.simps)
  have "heads_to p (t @ B ''stream'' @ 13 # 10 # d @ 13 # 10 # B ''endstream'' @ object_end rest) q" using assms(3) t(2) by simp
  from stream_written_back [OF D(1,2) len t(1) this assms(4)] show ?thesis using e by (auto simp: stored_def ob)
qed

lemma GetIndirectObject_written:
  assumes "at p (WriteDWord objnum @ B '' 0 obj'' @ 13 # 10 # s) q" and "m_TrailerEnds p = None" and "objnum < 2 ^ 31"
    and "\<And>r. heads_to p s r \<Longrightarrow> \<exists>n r'. GetObjectBodyInternal n env 0 r = Some (Some ob, r') \<and> heads_to p t r'"
  shows "\<exists>r. GetIndirectObject env q = Some (Some (objnum, 0, ob), r) \<and> heads_to p t r"
proof -
  let ?s = "13 # 10 # s"
  have w: "numeric_word (WriteDWord objnum)" "numeric_word [48]" using assms(3)
    by (simp add: WriteDWord_def to_int32_def numeric_word_integer) code_simp
  have b: "B '' 0 obj'' @ ?s = 32 # 48 # 32 # B ''obj'' @ ?s" by (simp add: B_def)
  have 1: "next_word (WriteDWord objnum @ B '' 0 obj'' @ ?s) = ((WriteDWord objnum, True), 32 # 48 # 32 # B ''obj'' @ ?s)"
    unfolding b by (rule next_word_number [OF w(1)]) (simp add: ends_word_white byte_classes)
  have 2: "next_word (32 # 48 # 32 # B ''obj'' @ ?s) = (([48], True), 32 # B ''obj'' @ ?s)"
    using next_word_number [OF w(2), of "32 # B ''obj'' @ ?s"] by (simp add: next_word_white ends_word_white byte_classes)
  have 3: "first_word (32 # B ''obj'' @ ?s) = B ''obj''" "snd (next_word (32 # B ''obj'' @ ?s)) = ?s"
    using next_word_regular [OF regular_keywords(4), of ?s] by (simp_all add: next_word_white ends_word_white byte_classes B_def)
  obtain r1 where r1: "GetNextWord q = ((WriteDWord objnum, True), r1)" "at p (32 # 48 # 32 # B ''obj'' @ ?s) r1"
    using GetNextWord_next_word [OF assms(1,2)] 1 by auto
  obtain r2 where r2: "GetNextWord r1 = (([48], True), r2)" "at p (32 # B ''obj'' @ ?s) r2"
    using GetNextWord_next_word [OF r1(2) assms(2)] 2 by auto
  obtain b r3 where r3: "GetNextWord r2 = ((B ''obj'', b), r3)" "at p ?s r3"
    using GetNextWord_next_word [OF r2(2) assms(2)] 3 by (metis prod.collapse)
  have "heads_to p s r3" using r3(2) by (auto simp: heads_to_def byte_classes)
  then obtain n r' where r': "GetObjectBodyInternal n env 0 r3 = Some (Some ob, r')" "heads_to p t r'" using assms(4) by blast
  have "GetObjectBody env r3 = Some (Some ob, r')"
    using GetObjectBody_any_bound [OF at_ok(1) [OF r3(2)] _ r'(1)] r3(2) assms(2) by (simp add: at_def same_source_def)
  moreover have "FXSYS_atoui (map unat (WriteDWord objnum)) = int objnum" "FXSYS_atoui (map unat [48 :: byte]) = 0"
    using atoui_integer [of "int objnum"] assms(3) by (simp add: WriteDWord_def to_int32_def) code_simp
  ultimately show ?thesis using r1 r2 r3 r' w(1) by (simp add: GetIndirectObject_def GetKeyword_def numeric_word_def)
qed

lemma heads_to_next: "heads_to p s q \<Longrightarrow> source_ok q \<and> next_word (unread_part q) = next_word s"
  by (auto simp: heads_to_def next_word_def at_def same_source_def)

lemma WriteTo_total:
  shows "writable env ob \<Longrightarrow> WriteTo env enc ob \<noteq> None"
    and "\<forall>ob\<in>set os. writable env ob \<Longrightarrow> write_objects env enc os \<noteq> None"
    and "\<forall>(k, v)\<in>set m. writable env v \<Longrightarrow> write_entries env enc sig m \<noteq> None"
proof (induction env enc ob and env enc os and env enc sig m rule: WriteTo_write_objects_write_entries.induct)
qed (auto simp: PDF_NameEncode_chars Let_def)

lemma storable_writes: "storable env ob \<Longrightarrow> \<exists>s. WriteObject env None ob = Some s"
proof (cases ob)
  case (PStream m data)
  assume ok: "storable env ob"
  obtain m' d where e: "CPDF_FlateEncoder env m data (\<not> IsMetaDataStreamDictionary m) = (m', d)" by fastforce
  have m: "dict_ok env (kParserMaxRecursionDepth - 1) m" "map_of m (B ''Length'') = Some (PNumber (Signed (int (length data))))"
      and len: "length d < 2 ^ 31"
    using ok e by (simp_all add: storable_def PStream kParserMaxRecursionDepth_def del: writable.simps nesting.simps)
  then obtain v where "dict_ok env (kParserMaxRecursionDepth - 1) m'" "map_of m' (B ''Length'') = Some (PNumber (Signed v))"
    using FlateEncoder_dict [OF m e] by blast
  then have "writable env (PDictionary (stream_dict env m' (length d)))" using stream_dict_ok len by blast
  then show ?thesis using WriteTo_total(1) [of env "PDictionary (stream_dict env m' (length d))" None] e
    by (auto simp: WriteObject_def PStream WriteStream_def Let_def simp del: WriteTo.simps)
qed (use WriteTo_total(1) [of env ob None] in \<open>auto simp: storable_def WriteObject_def\<close>)

lemma written_object_read:
  assumes "WriteObject env None ob = Some s" and "storable env ob"
  shows "\<exists>q. GetObjectBody env (new_syntax_parser (s @ object_end rest) 0) = Some (Some (stored env ob), q)"
proof -
  let ?p = "new_syntax_parser (s @ object_end rest) 0"
  have "unread_part ?p = s @ object_end rest" "m_TrailerEnds ?p = None"
    by (simp_all add: new_syntax_parser_def unread_part_def)
  then have "heads_to ?p (s @ object_end rest) ?p" using atI [OF source_ok_new, of "s @ object_end rest" 0] heads_to_at by simp
  then show ?thesis
    using object_written_back [OF assms, of ?p rest ?p] GetObjectBody_any_bound [OF source_ok_new] \<open>m_TrailerEnds ?p = None\<close>
    by blast
qed

section \<open>Properties\<close>

text \<open>
  C4: an indirect object that is written is read back.  Writing succeeds for every object whose names fit
  the word buffer of the lexer, whose dictionaries are sorted and whose nesting is within the limit of the
  reader; a file that holds the written bytes at the current position, whatever follows them and however the
  block buffer cuts them, gives back the number of the object, generation zero and the object that was stored:
  the same object with its integers normalised, and for a stream the data and dictionary the compressor left.
  The reader stops before the keyword that ends the object.
\<close>

theorem indirect_object_roundtrip:
  assumes "storable env ob" and "objnum < 2 ^ 31"
  shows "\<exists>s. WriteIndirectObj env None objnum ob = Some s \<and>
    (\<forall>p rest. source_ok p \<longrightarrow> m_TrailerEnds p = None \<longrightarrow> unread_part p = s @ rest \<longrightarrow>
      (\<exists>q. GetIndirectObject env p = Some (Some (objnum, 0, stored env ob), q) \<and> source_ok q \<and>
        next_word (unread_part q) = ((B ''endobj'', False), [13, 10] @ rest)))"
proof -
  obtain s where s: "WriteObject env None ob = Some s" using storable_writes [OF assms(1)] by blast
  have "\<exists>q. GetIndirectObject env p = Some (Some (objnum, 0, stored env ob), q) \<and> source_ok q \<and>
      next_word (unread_part q) = ((B ''endobj'', False), [13, 10] @ rest)"
    if p: "source_ok p" "m_TrailerEnds p = None" "unread_part p = WriteDWord objnum @ B '' 0 obj'' @ 13 # 10 # s @ object_end rest" for p rest
  proof -
    have "at p (WriteDWord objnum @ B '' 0 obj'' @ 13 # 10 # s @ object_end rest) p" using atI [OF p(1)] p(3) by simp
    from GetIndirectObject_written [OF this p(2) assms(2) object_written_back [OF s assms(1) _ p(2)]] obtain q
      where "GetIndirectObject env p = Some (Some (objnum, 0, stored env ob), q)" "heads_to p (object_end rest) q" by blast
    then show ?thesis using heads_to_next [of p "object_end rest" q] next_word_object_end by simp
  qed
  then show ?thesis using s by (simp add: WriteIndirectObj_def)
qed

definition sample_stream :: "int pdf_object" where
  "sample_stream = PStream [(B ''K'', PArray [PReference 7, PName (B ''a b''), PNumber (Unsigned 5), PString (B ''x)'') False]),
    (B ''Length'', PNumber (Signed 3))] [101, 13, 10]"

lemma sample_storable: "storable sample_pdf_env sample_stream"
proof -
  have len: "encoded_length (B ''K'') \<le> 255" "encoded_length (B ''a b'') \<le> 255" by code_simp+
  have num: "numeric_word (number_string sample_pdf_env (Unsigned 5))" "numeric_word (number_string sample_pdf_env (Signed 3))"
    using numeric_word_integer [of 5] numeric_word_integer [of 3] by (simp_all add: number_string_def GetSigned_def to_int32_def)
  have "keys_ok [(B ''K'', x), (B ''Length'', y)]" for x y :: "int pdf_object" by (simp add: keys_ok_def B_def)
  then show ?thesis using len num keys_writable(2)
    by (simp add: storable_def sample_stream_def kParserMaxRecursionDepth_def max_list_def CPDF_FlateEncoder_def Let_def sample_pdf_env_def)
      (simp add: B_def)
qed

theorem indirect_object_roundtrip_witness:
  "\<exists>s q. WriteIndirectObj sample_pdf_env None 12 sample_stream = Some s \<and>
    GetIndirectObject sample_pdf_env (new_syntax_parser s 0) = Some (Some (12, 0, stored sample_pdf_env sample_stream), q)"
proof -
  have "storable sample_pdf_env sample_stream" by (rule sample_storable)
  from indirect_object_roundtrip [OF this, of 12] obtain s where s: "WriteIndirectObj sample_pdf_env None 12 sample_stream = Some s"
    "\<forall>p rest. source_ok p \<longrightarrow> m_TrailerEnds p = None \<longrightarrow> unread_part p = s @ rest \<longrightarrow>
      (\<exists>q. GetIndirectObject sample_pdf_env p = Some (Some (12, 0, stored sample_pdf_env sample_stream), q) \<and> source_ok q \<and>
        next_word (unread_part q) = ((B ''endobj'', False), [13, 10] @ rest))" by auto
  have "unread_part (new_syntax_parser s 0) = s @ []" "m_TrailerEnds (new_syntax_parser s 0) = None"
    by (simp_all add: new_syntax_parser_def unread_part_def)
  then show ?thesis using s source_ok_new by blast
qed

text \<open>
  C15: whatever the file holds, an object that is read is well formed: the keys of its dictionaries are
  nonempty and strictly sorted, its integers fit their types, its references have valid numbers, the
  length in the dictionary of a stream is that of its data, and arrays and dictionaries are nested at most 64 deep.
\<close>

theorem read_objects_well_formed:
  assumes "GetObjectBody env p = Some (Some ob, q)"
  shows "object_ok ob \<and> nesting ob \<le> 64"
  using readers_yield(1) [of 0 "2 * left p + 1" env p] assms
  by (simp add: GetObjectBody_def fits_def kParserMaxRecursionDepth_def)

theorem read_objects_well_formed_witness:
  "\<exists>s q. GetObjectBody sample_pdf_env (new_syntax_parser s 0) = Some (Some (PArray [PNull, PName (B ''N'')]), q) \<and>
    object_ok (PArray [PNull, PName (B ''N'') :: int pdf_object]) \<and> nesting (PArray [PNull, PName (B ''N'') :: int pdf_object]) \<le> 64"
proof -
  let ?ob = "PArray [PNull, PName (B ''N'')] :: int pdf_object"
  have ob: "storable sample_pdf_env ?ob" "stored sample_pdf_env ?ob = ?ob" by code_simp+
  obtain s where "WriteObject sample_pdf_env None ?ob = Some s" using storable_writes [OF ob(1)] by blast
  from written_object_read [OF this ob(1), of "[]"] obtain q where
    q: "GetObjectBody sample_pdf_env (new_syntax_parser (s @ object_end []) 0) = Some (Some ?ob, q)" unfolding ob(2) by blast
  then show ?thesis using read_objects_well_formed [OF q] by blast
qed

end
