(* ===== verification/Pdf_Crypto.thy ===== *)
theory Pdf_Crypto
  imports Aes Rc4 Md5 Span
begin

text \<open>
  The cipher of an encrypted PDF file: CPDF_CryptoHandler of src/core/fpdfapi/parser/cpdf_crypto_handler.cpp
  (the key of an object, encryption of a block, decryption of a stream in pieces) and
  CPDF_Encryptor::Encrypt of cpdf_encryptor.cpp.  An access outside an array of the source and a context
  used as one of another kind are \<open>None\<close>.  The sixteen calls of \<open>rand\<close> that choose the initialisation vector
  are an argument.  The theorems about it are in theory Pdf_Cipher.
\<close>

section \<open>The handler\<close>

datatype Cipher = kNone | kRC4 | kAES | kAES2

record crypto_handler =
  m_KeyLen :: nat
  m_Cipher :: Cipher
  m_pAESContext :: CRYPT_aes_context
  m_EncryptKey :: bytes

text \<open>\<open>FX_Alloc\<close> gives memory filled with zeros.\<close>

definition zero_aes_context :: CRYPT_aes_context where
  "zero_aes_context = \<lparr>Nb = 0, Nr = 0, keysched = replicate kSchedSize 0,
    invkeysched = replicate kSchedSize 0, iv = replicate kMaxNb 0\<rparr>"

definition CPDF_CryptoHandler :: "Cipher \<Rightarrow> bytes \<Rightarrow> nat \<Rightarrow> crypto_handler option" where
  "CPDF_CryptoHandler cipher key keylen =
    (let len = min keylen 32;
         h = \<lparr>m_KeyLen = len, m_Cipher = cipher, m_pAESContext = zero_aes_context, m_EncryptKey = replicate 32 0\<rparr>
     in if cipher = kNone then Some h
        else Option.bind (subspan key 0 len) (\<lambda>k.
          map_option (\<lambda>buf. h\<lparr>m_EncryptKey := buf\<rparr>) (spancpy (m_EncryptKey h) 0 k)))"

definition IsCipherAES :: "crypto_handler \<Rightarrow> bool" where
  "IsCipherAES h \<longleftrightarrow> m_Cipher h = kAES"

section \<open>Keys of objects\<close>

definition PopulateKey :: "crypto_handler \<Rightarrow> u32 \<Rightarrow> u32 \<Rightarrow> bytes \<Rightarrow> bytes option" where
  "PopulateKey h objnum gennum key =
    Option.bind (subspan (m_EncryptKey h) 0 (m_KeyLen h)) (\<lambda>k.
    Option.bind (spancpy key 0 k) (\<lambda>key.
    Option.bind (write_at key (m_KeyLen h) (ucast objnum)) (\<lambda>key.
    Option.bind (write_at key (m_KeyLen h + 1) (ucast (drop_bit 8 objnum))) (\<lambda>key.
    Option.bind (write_at key (m_KeyLen h + 2) (ucast (drop_bit 16 objnum))) (\<lambda>key.
    Option.bind (write_at key (m_KeyLen h + 3) (ucast gennum)) (\<lambda>key.
    write_at key (m_KeyLen h + 4) (ucast (drop_bit 8 gennum))))))))"

definition salt :: bytes where
  "salt = [0x73, 0x41, 0x6C, 0x54]"

text \<open>The key array has a size of its own at each of its two places in the source.\<close>

definition object_key :: "nat \<Rightarrow> crypto_handler \<Rightarrow> u32 \<Rightarrow> u32 \<Rightarrow> bytes option" where
  "object_key keysize h objnum gennum =
    Option.bind (PopulateKey h objnum gennum (replicate keysize 0)) (\<lambda>key1.
    Option.bind (if m_Cipher h = kAES then spancpy key1 (m_KeyLen h + 5) salt else Some key1) (\<lambda>key1.
    map_option CRYPT_MD5Generate
      (subspan key1 0 (if m_Cipher h = kAES then m_KeyLen h + 9 else m_KeyLen h + 5))))"

section \<open>Encryption\<close>

text \<open>The result is the buffer, the size of its contents and the handler with the context that was used.\<close>

definition encrypt_aes ::
  "CRYPT_aes_context \<Rightarrow> bytes \<Rightarrow> bytes \<Rightarrow> bytes \<Rightarrow> (bytes \<times> nat \<times> CRYPT_aes_context) option" where
  "encrypt_aes aes random_iv source dest_buf =
    (let aes = CRYPT_AESSetIV aes random_iv;
         nblocks = length source div 16;
         padding = drop (nblocks * 16) source @ replicate (16 - length source mod 16) (of_nat (16 - length source mod 16))
     in Option.bind (spancpy dest_buf 0 random_iv) (\<lambda>dest_buf.
        Option.bind (CRYPT_AESEncrypt aes source (of_nat (nblocks * 16))) (\<lambda>(aes, out).
        Option.bind (spancpy dest_buf 16 out) (\<lambda>dest_buf.
        Option.bind (CRYPT_AESEncrypt aes padding 16) (\<lambda>(aes, out).
        Option.bind (spancpy dest_buf (nblocks * 16 + 16) out) (\<lambda>dest_buf.
        Some (dest_buf, 32 + nblocks * 16, aes)))))))"

definition decrypt_aes ::
  "CRYPT_aes_context \<Rightarrow> bytes \<Rightarrow> bytes \<Rightarrow> (bytes \<times> nat \<times> CRYPT_aes_context) option" where
  "decrypt_aes aes source dest_buf =
    (if length source < 16 then None
     else
       let aes = CRYPT_AESSetIV aes source;
           n = length source - 16
       in Option.bind (CRYPT_AESDecrypt aes (drop 16 source) (of_nat n)) (\<lambda>(aes, out).
          Option.bind (spancpy dest_buf 0 out) (\<lambda>dest_buf.
          if n = 0 then None
          else map_option (\<lambda>b. (dest_buf, unat ((of_nat n :: u32) - ucast b), aes)) (read_at dest_buf (n - 1)))))"

text \<open>The sizes of the AES branch are computed in an \<open>int\<close>, which overflows for sources of 2 GB.\<close>

definition CryptBlock ::
  "bool \<Rightarrow> bytes \<Rightarrow> crypto_handler \<Rightarrow> u32 \<Rightarrow> u32 \<Rightarrow> bytes \<Rightarrow> bytes \<Rightarrow> nat \<Rightarrow> (bytes \<times> nat \<times> crypto_handler) option" where
  "CryptBlock bEncrypt random_iv h objnum gennum source dest_buf dest_size =
    (if m_Cipher h = kAES \<and> 2 ^ 31 - 32 \<le> length source then None
     else if m_Cipher h = kNone then map_option (\<lambda>buf. (buf, dest_size, h)) (spancpy dest_buf 0 source)
     else
       Option.bind (if m_Cipher h \<noteq> kAES \<or> m_KeyLen h \<noteq> 32 then object_key 32 h objnum gennum else Some []) (\<lambda>realkey.
       if m_Cipher h = kAES then
         Option.bind (subspan (if m_KeyLen h = 32 then m_EncryptKey h else realkey) 0 (m_KeyLen h)) (\<lambda>key.
         let aes = CRYPT_AESSetKey (m_pAESContext h) key (of_nat (m_KeyLen h))
         in map_option (\<lambda>(buf, n, aes). (buf, n, h\<lparr>m_pAESContext := aes\<rparr>))
              (if bEncrypt then encrypt_aes aes random_iv source dest_buf else decrypt_aes aes source dest_buf))
       else
         Option.bind (spancpy dest_buf 0 source) (\<lambda>dest_buf.
         Option.bind (subspan dest_buf 0 dest_size) (\<lambda>part.
         Some (memcpy dest_buf 0 (CRYPT_ArcFourCryptBlock part (take (min (m_KeyLen h + 5) 16) realkey)), dest_size, h)))))"

definition EncryptGetSize :: "crypto_handler \<Rightarrow> bytes \<Rightarrow> nat" where
  "EncryptGetSize h source = (if m_Cipher h = kAES then length source + 32 else length source)"

definition EncryptContent ::
  "bytes \<Rightarrow> crypto_handler \<Rightarrow> u32 \<Rightarrow> u32 \<Rightarrow> bytes \<Rightarrow> bytes \<Rightarrow> nat \<Rightarrow> (bytes \<times> nat \<times> crypto_handler) option" where
  "EncryptContent random_iv h objnum gennum source dest_buf dest_size =
    CryptBlock True random_iv h objnum gennum source dest_buf dest_size"

text \<open>A \<open>std::vector\<close> that grows is filled with zeros.\<close>

definition resize_bytes :: "bytes \<Rightarrow> nat \<Rightarrow> bytes" where
  "resize_bytes v n = take n v @ replicate (n - length v) 0"

definition Encrypt :: "bytes \<Rightarrow> crypto_handler \<Rightarrow> u32 \<Rightarrow> bytes \<Rightarrow> (bytes \<times> crypto_handler) option" where
  "Encrypt random_iv h objnum src_data =
    (if src_data = [] then Some ([], h)
     else
       let buf_size = EncryptGetSize h src_data mod 2 ^ 32
       in map_option (\<lambda>(result, buf_size, h). (resize_bytes result buf_size, h))
            (EncryptContent random_iv h objnum 0 src_data (resize_bytes [] buf_size) buf_size))"

section \<open>Decryption of a stream\<close>

record AESCryptContext =
  m_bIV :: bool
  m_BlockOffset :: nat
  m_Context :: CRYPT_aes_context
  m_Block :: bytes

datatype crypt_context = Handler_context | Aes_context AESCryptContext | Rc4_context CRYPT_rc4_context

definition new_AESCryptContext :: "bytes \<Rightarrow> u32 \<Rightarrow> AESCryptContext" where
  "new_AESCryptContext key keylen = \<lparr>m_bIV = True, m_BlockOffset = 0,
    m_Context = CRYPT_AESSetKey zero_aes_context key keylen, m_Block = replicate 16 0\<rparr>"

definition DecryptStart :: "crypto_handler \<Rightarrow> u32 \<Rightarrow> u32 \<Rightarrow> crypt_context option" where
  "DecryptStart h objnum gennum =
    (if m_Cipher h = kNone then Some Handler_context
     else if m_Cipher h = kAES \<and> m_KeyLen h = 32 then
       map_option (\<lambda>key. Aes_context (new_AESCryptContext key 32)) (subspan (m_EncryptKey h) 0 32)
     else
       map_option (\<lambda>realkey.
           if m_Cipher h = kAES then Aes_context (new_AESCryptContext realkey 16)
           else Rc4_context (CRYPT_ArcFourSetup (take (min (m_KeyLen h + 5) 16) realkey)))
         (object_key 48 h objnum gennum))"

text \<open>What happens when a block is full: the first one of an encrypted stream is the initialisation vector.\<close>

definition full_block :: "bool \<Rightarrow> bool \<Rightarrow> AESCryptContext \<Rightarrow> bytes \<Rightarrow> (AESCryptContext \<times> bytes) option" where
  "full_block bEncrypt unread c dest_buf =
    (if \<not> bEncrypt \<and> m_bIV c then
       Some (c\<lparr>m_Context := CRYPT_AESSetIV (m_Context c) (m_Block c), m_bIV := False, m_BlockOffset := 0\<rparr>, dest_buf)
     else if unread then
       map_option (\<lambda>(aes, block_buf). (c\<lparr>m_Context := aes, m_BlockOffset := 0\<rparr>, dest_buf @ block_buf))
         (if bEncrypt then CRYPT_AESEncrypt (m_Context c) (m_Block c) 16 else CRYPT_AESDecrypt (m_Context c) (m_Block c) 16)
     else Some (c, dest_buf))"

lemma full_block_offset:
  "full_block bEncrypt True c dest_buf = Some (c', d) \<Longrightarrow> m_BlockOffset c' = 0"
  by (auto simp: full_block_def split: if_splits)

text \<open>The part of the source that is not yet read, the number of bytes left and the output so far.\<close>

function crypt_stream_loop ::
  "bool \<Rightarrow> AESCryptContext \<Rightarrow> bytes \<Rightarrow> nat \<Rightarrow> bytes \<Rightarrow> (AESCryptContext \<times> bytes) option" where
  "crypt_stream_loop bEncrypt c source src_left dest_buf =
    (if 16 < m_BlockOffset c \<or> length source < src_left then None
     else
       let copy_size = min (16 - m_BlockOffset c) src_left
       in case spancpy (m_Block c) (m_BlockOffset c) (take copy_size source) of
            None \<Rightarrow> None
          | Some block \<Rightarrow>
              let c = c\<lparr>m_Block := block, m_BlockOffset := m_BlockOffset c + copy_size\<rparr>;
                  source = drop copy_size source;
                  src_left = src_left - copy_size
              in case (if m_BlockOffset c = 16 then full_block bEncrypt (source \<noteq> []) c dest_buf else Some (c, dest_buf)) of
                   None \<Rightarrow> None
                 | Some (c, dest_buf) \<Rightarrow>
                     if src_left = 0 then Some (c, dest_buf) else crypt_stream_loop bEncrypt c source src_left dest_buf)"
  by pat_completeness auto
termination
proof (relation "measure (\<lambda>(b, c, source, src_left, dest_buf). 2 * src_left + (if m_BlockOffset c = 16 then 1 else 0))", simp, goal_cases)
  case (1 bEncrypt c source src_left dest_buf copy_size block ca sourcea lefta p c' d')
  then have "sourcea \<noteq> []" by auto
  then show ?case using 1 full_block_offset [of bEncrypt ca dest_buf c' d'] by (auto split: if_splits)
qed

declare crypt_stream_loop.simps [simp del]

text \<open>The result is the value returned, the context and the output.\<close>

definition CryptStream ::
  "crypto_handler \<Rightarrow> crypt_context option \<Rightarrow> bytes \<Rightarrow> bytes \<Rightarrow> bool \<Rightarrow> (bool \<times> crypt_context option \<times> bytes) option" where
  "CryptStream h context source dest_buf bEncrypt =
    (case context of
       None \<Rightarrow> Some (False, None, dest_buf)
     | Some ctx \<Rightarrow>
         if m_Cipher h = kNone then Some (True, Some ctx, dest_buf @ source)
         else if m_Cipher h = kRC4 then
           (case ctx of
              Rc4_context c \<Rightarrow> let (c, out) = CRYPT_ArcFourCrypt c source in Some (True, Some (Rc4_context c), dest_buf @ out)
            | _ \<Rightarrow> None)
         else
           (case ctx of
              Aes_context c \<Rightarrow>
                let (c, dest_buf) = (if m_bIV c \<and> bEncrypt then (c\<lparr>m_bIV := False\<rparr>, dest_buf @ m_Block c) else (c, dest_buf))
                in map_option (\<lambda>(c, dest_buf). (True, Some (Aes_context c), dest_buf))
                     (crypt_stream_loop bEncrypt c source (length source mod 2 ^ 32) dest_buf)
            | _ \<Rightarrow> None))"

definition finish_encrypt :: "AESCryptContext \<Rightarrow> bytes \<Rightarrow> bytes option" where
  "finish_encrypt c dest_buf =
    Option.bind (if m_BlockOffset c = 16
        then map_option (\<lambda>(aes, block_buf). (c\<lparr>m_Context := aes, m_BlockOffset := 0\<rparr>, dest_buf @ block_buf))
          (CRYPT_AESEncrypt (m_Context c) (m_Block c) 16)
        else Some (c, dest_buf)) (\<lambda>(c, dest_buf).
    Option.bind (spanset (m_Block c) (m_BlockOffset c) (16 - m_BlockOffset c) (of_nat (16 - m_BlockOffset c))) (\<lambda>block.
    map_option (\<lambda>(aes, block_buf). dest_buf @ block_buf) (CRYPT_AESEncrypt (m_Context c) block 16)))"

definition finish_decrypt :: "AESCryptContext \<Rightarrow> bytes \<Rightarrow> bytes option" where
  "finish_decrypt c dest_buf =
    (if m_BlockOffset c = 16 then
       map_option (\<lambda>(aes, block_buf).
           if unat (block_buf ! 15) \<le> 16 then dest_buf @ take (16 - unat (block_buf ! 15)) block_buf else dest_buf)
         (CRYPT_AESDecrypt (m_Context c) (m_Block c) 16)
     else Some dest_buf)"

definition CryptFinish :: "crypto_handler \<Rightarrow> crypt_context option \<Rightarrow> bytes \<Rightarrow> bool \<Rightarrow> (bool \<times> bytes) option" where
  "CryptFinish h context dest_buf bEncrypt =
    (case context of
       None \<Rightarrow> Some (False, dest_buf)
     | Some ctx \<Rightarrow>
         if m_Cipher h = kNone \<or> m_Cipher h = kRC4 then Some (True, dest_buf)
         else
           (case ctx of
              Aes_context c \<Rightarrow>
                map_option (Pair True) (if bEncrypt then finish_encrypt c dest_buf else finish_decrypt c dest_buf)
            | _ \<Rightarrow> None))"

definition DecryptStream ::
  "crypto_handler \<Rightarrow> crypt_context option \<Rightarrow> bytes \<Rightarrow> bytes \<Rightarrow> (bool \<times> crypt_context option \<times> bytes) option" where
  "DecryptStream h context source dest_buf = CryptStream h context source dest_buf False"

definition DecryptFinish :: "crypto_handler \<Rightarrow> crypt_context option \<Rightarrow> bytes \<Rightarrow> (bool \<times> bytes) option" where
  "DecryptFinish h context dest_buf = CryptFinish h context dest_buf False"

definition Decrypt :: "crypto_handler \<Rightarrow> u32 \<Rightarrow> u32 \<Rightarrow> bytes \<Rightarrow> bytes option" where
  "Decrypt h objnum gennum str =
    Option.bind (DecryptStart h objnum gennum) (\<lambda>context.
    Option.bind (DecryptStream h (Some context) str []) (\<lambda>(_, context, dest_buf).
    map_option snd (DecryptFinish h context dest_buf)))"

end
