(* ===== verification/Pdf_Cipher.thy ===== *)
theory Pdf_Cipher
  imports Pdf_Crypto
begin

text \<open>
  Correctness of the cipher of theory Pdf_Crypto: decryption inverts encryption, it returns for all data
  without leaving an array, and a stream may be decrypted in any pieces.  The loop over a stream is shown
  to be the byte-by-byte function \<open>feed\<close>, from which the rest follows.
\<close>

section \<open>A context forgets the key it held\<close>

lemma setup_step_agree:
  assumes "0 < Nk" and "n < length ks" and "length ks' = length ks" and "\<forall>i<n. ks ! i = ks' ! i"
  shows "snd (setup_step key Nk n (ks, r)) = snd (setup_step key Nk n (ks', r)) \<and>
    (\<forall>i<Suc n. fst (setup_step key Nk n (ks, r)) ! i = fst (setup_step key Nk n (ks', r)) ! i)"
proof (cases "n < Nk")
  case True
  then show ?thesis using assms by (auto simp: setup_step_def nth_list_update less_Suc_eq)
next
  case False
  then have "ks ! (n - 1) = ks' ! (n - 1)" "ks ! (n - Nk) = ks' ! (n - Nk)" using assms by simp_all
  then show ?thesis using False assms by (auto simp: setup_step_def Let_def nth_list_update less_Suc_eq)
qed

lemma setup_schedule_agree:
  assumes "0 < Nk" and "length ks' = length ks"
  shows "n \<le> length ks \<Longrightarrow>
    snd (fold (setup_step key Nk) [0..<n] (ks, r)) = snd (fold (setup_step key Nk) [0..<n] (ks', r)) \<and>
    (\<forall>i<n. fst (fold (setup_step key Nk) [0..<n] (ks, r)) ! i = fst (fold (setup_step key Nk) [0..<n] (ks', r)) ! i)"
proof (induction n)
  case (Suc n)
  define p q where "p = fold (setup_step key Nk) [0..<n] (ks, r)" and "q = fold (setup_step key Nk) [0..<n] (ks', r)"
  have pq: "snd p = snd q" "\<forall>i<n. fst p ! i = fst q ! i" "length (fst p) = length ks" "length (fst q) = length ks"
    using Suc assms by (simp_all add: p_def q_def)
  then have "p = (fst p, snd q)" by (metis prod.collapse)
  with pq have "snd (setup_step key Nk n p) = snd (setup_step key Nk n q) \<and>
      (\<forall>i<Suc n. fst (setup_step key Nk n p) ! i = fst (setup_step key Nk n q) ! i)"
    using setup_step_agree [OF assms(1), of n "fst p" "fst q" key "snd q"] Suc.prems by simp
  then show ?case by (simp add: p_def q_def)
qed simp

lemma enc_state_agree:
  "(\<And>i. i < r \<Longrightarrow> round_key ks i = round_key ks' i) \<Longrightarrow> enc_state ks x r = enc_state ks' x r"
  by (induction r) auto

lemma encrypt_agree:
  assumes "aes_arrays_ok c" and "aes_arrays_ok c'" and "keylen \<in> {16, 24, 32}" and "length x = 4"
  shows "aes_encrypt (aes_setup c key keylen) x = aes_encrypt (aes_setup c' key keylen) x"
proof -
  let ?nr = "6 + max 4 (keylen div 4)" and ?ks = "\<lambda>c. keysched (aes_setup c key keylen)"
  have ks: "?ks d = fst (fold (setup_step key (keylen div 4)) [0..<(?nr + 1) * 4] (keysched d, 1))" for d
    by (simp add: aes_setup_def Let_def)
  have nr: "Nr (aes_setup d key keylen) = ?nr" for d by (simp add: aes_setup_def Let_def)
  have "(?nr + 1) * 4 \<le> length (keysched c)" "length (keysched c') = length (keysched c)" "0 < keylen div 4"
    using assms(1-3) by (auto simp: aes_arrays_ok_def kSchedSize_def kMaxNb_def kMaxNr_def)
  then have "?ks c ! i = ?ks c' ! i" if "i < (?nr + 1) * 4" for i
    using setup_schedule_agree [of "keylen div 4" "keysched c'" "keysched c" "(?nr + 1) * 4" key 1] that
    unfolding ks by blast
  then have "round_key (?ks c) r = round_key (?ks c') r" if "r \<le> ?nr" for r
    using that by (simp add: round_key_def)
  then show ?thesis
    using assms(4) enc_state_agree [of "?nr - 1" "?ks c" "?ks c'" x]
    by (simp add: aes_encrypt_def aes_encrypt_nb_4_rounds nr)
qed

lemma encrypt_loop_agree:
  "(\<forall>x. length x = 4 \<longrightarrow> aes_encrypt c x = aes_encrypt c' x) \<Longrightarrow> length v = 4 \<Longrightarrow>
    encrypt_cbc_loop c v src len = encrypt_cbc_loop c' v src len"
proof (induction c v src len rule: encrypt_cbc_loop.induct)
  case (1 c v src len)
  then show ?case by (subst (1 2) encrypt_cbc_loop.simps) (simp add: Let_def)
qed

lemma length_MD5Generate [simp]: "length (CRYPT_MD5Generate data) = 16"
proof -
  have "length (concat (map (\<lambda>i. PUT_UINT32 (f i)) [0..<4])) = 16" for f
    by (simp add: PUT_UINT32_def length_concat comp_def sum_list_triv)
  then show ?thesis by (simp add: CRYPT_MD5Generate_def CRYPT_MD5Finish_def Let_def)
qed

lemma take_iv_SetIV:
  assumes "Nb c = 4" and "length (iv c) = 8"
  shows "take 4 (iv (CRYPT_AESSetIV c v)) = read_block v"
proof -
  have upt: "[0..<4] = [0, 1, 2, 3 :: nat]" by (simp add: upt_conv_Cons)
  have "length (take 4 (iv c)) = 4" using assms(2) by simp
  then obtain w0 w1 w2 w3 where "take 4 (iv c) = [w0, w1, w2, w3]" using length_4E by blast
  then show ?thesis by (simp add: CRYPT_AESSetIV_def assms(1) upt read_block_def take_update_swap numeral_eq_Suc)
qed

section \<open>Keys of objects\<close>

definition key_suffix :: "u32 \<Rightarrow> u32 \<Rightarrow> bytes" where
  "key_suffix objnum gennum = [ucast objnum, ucast (drop_bit 8 objnum), ucast (drop_bit 16 objnum),
    ucast gennum, ucast (drop_bit 8 gennum)]"

definition crypto_ok :: "crypto_handler \<Rightarrow> bool" where
  "crypto_ok h \<longleftrightarrow> length (m_EncryptKey h) = 32 \<and> aes_arrays_ok (m_pAESContext h) \<and>
    (case m_Cipher h of kNone \<Rightarrow> True | kRC4 \<Rightarrow> 5 \<le> m_KeyLen h \<and> m_KeyLen h \<le> 16
     | kAES \<Rightarrow> m_KeyLen h \<in> {16, 24, 32} | kAES2 \<Rightarrow> False)"

lemma PopulateKey_written:
  assumes "length (m_EncryptKey h) = 32" and "m_KeyLen h \<le> 32" and "m_KeyLen h + 5 \<le> n"
  shows "PopulateKey h objnum gennum (replicate n 0) =
    Some (take (m_KeyLen h) (m_EncryptKey h) @ key_suffix objnum gennum @ replicate (n - (m_KeyLen h + 5)) 0)"
proof -
  let ?k = "take (m_KeyLen h) (m_EncryptKey h)"
  obtain m where n: "n = m_KeyLen h + (5 + m)" using assms(3) by (auto simp: le_iff_add)
  have "replicate (5 + m) (0 :: byte) = 0 # 0 # 0 # 0 # 0 # replicate m 0" by (simp add: eval_nat_numeral)
  moreover have "memcpy (replicate n 0) 0 ?k = ?k @ replicate (5 + m) 0"
    using assms by (simp add: memcpy_def min_absorb2 n)
  ultimately show ?thesis
    using assms n by (simp add: PopulateKey_def subspan_Some spancpy_Some write_at_def key_suffix_def list_update_append Suc_diff_le)
qed


lemma object_key_digest:
  assumes "length (m_EncryptKey h) = 32" and "m_KeyLen h \<le> 32" and "m_KeyLen h + (if m_Cipher h = kAES then 9 else 5) \<le> n"
  shows "object_key n h objnum gennum = Some (CRYPT_MD5Generate (take (m_KeyLen h) (m_EncryptKey h) @
    key_suffix objnum gennum @ (if m_Cipher h = kAES then salt else [])))"
proof -
  let ?p = "take (m_KeyLen h) (m_EncryptKey h) @ key_suffix objnum gennum"
  have p: "PopulateKey h objnum gennum (replicate n 0) = Some (?p @ replicate (n - (m_KeyLen h + 5)) 0)"
    using PopulateKey_written [of h n objnum gennum] assms by (simp split: if_splits)
  have len: "length ?p = m_KeyLen h + 5" "length salt = 4" using assms by (simp_all add: key_suffix_def salt_def)
  show ?thesis
  proof (cases "m_Cipher h = kAES")
    case True
    have "memcpy (?p @ replicate (n - (m_KeyLen h + 5)) 0) (m_KeyLen h + 5) salt =
        (?p @ salt) @ replicate (n - (m_KeyLen h + 9)) 0"
      using len by (simp add: memcpy_def add.commute)
    then show ?thesis using True p len assms(3)
      by (simp add: object_key_def spancpy_Some subspan_Some del: append_assoc) (simp only: append_assoc)
  next
    case False
    then show ?thesis using p len assms(3) by (simp add: object_key_def subspan_Some del: append_assoc)
  qed
qed

section \<open>Encryption\<close>

definition padded :: "bytes \<Rightarrow> bytes" where
  "padded s = s @ replicate (16 - length s mod 16) (of_nat (16 - length s mod 16))"

lemma length_padded: "length (padded s) = 16 * Suc (length s div 16)"
proof -
  have "16 * (length s div 16) + length s mod 16 = length s" "length s mod 16 < 16" by simp_all
  then show ?thesis unfolding padded_def length_append length_replicate mult_Suc_right by linarith
qed

lemma encrypt_cbc_loop_take:
  "16 * n \<le> length src \<Longrightarrow> encrypt_cbc_loop ctx v (take (16 * n) src) (int (16 * n)) = encrypt_cbc_loop ctx v src (int (16 * n))"
  using encrypt_cbc_loop_append [of 0 "take (16 * n) src" n ctx v "drop (16 * n) src"]
  by (simp add: encrypt_cbc_loop.simps [of _ _ _ 0] case_prod_beta' option.map_ident)

lemma length_aes_decrypt [simp]: "length (aes_decrypt ctx b) = 4"
  by (simp add: aes_decrypt_def aes_decrypt_nb_4_def ADD_ROUND_KEY_4_def Let_def split: prod.splits)

lemma cbc_loop_defined:
  "length v = 4 \<Longrightarrow> length src = 16 * n \<Longrightarrow>
    \<exists>v' out. encrypt_cbc_loop ctx v src (int (16 * n)) = Some (v', out) \<and> length v' = 4 \<and> length out = 16 * n"
  "length v = 4 \<Longrightarrow> length src = 16 * n \<Longrightarrow>
    \<exists>v' out. decrypt_cbc_loop ctx v src (int (16 * n)) = Some (v', out) \<and> length v' = 4 \<and> length out = 16 * n"
proof (induction n arbitrary: v src)
  case 0
  { case 1 then show ?case by (simp add: encrypt_cbc_loop.simps) next case 2 then show ?case by (simp add: decrypt_cbc_loop.simps) }
next
  case (Suc n)
  { case 1
    have "length (aes_encrypt ctx (xor_words v (read_block src))) = 4" "length (drop 16 src) = 16 * n" using 1 by simp_all
    from Suc(1) [OF this] 1 show ?case by (subst encrypt_cbc_loop.simps) (auto simp: Let_def)
  next
    case 2
    have "length (read_block src) = 4" "length (drop 16 src) = 16 * n" using 2 by simp_all
    from Suc(2) [OF this] 2 show ?case by (subst decrypt_cbc_loop.simps) (auto simp: Let_def) }
qed

lemma encrypt_cbc_defined:
  assumes "length (iv c) = 8" and "length src = 16 * n"
  shows "\<exists>c' out. aes_encrypt_cbc c src (int (16 * n)) = Some (c', out) \<and> length out = 16 * n \<and> length (iv c') = 8"
  using cbc_loop_defined(1) [of "take 4 (iv c)" src n c] assms by (auto simp: aes_encrypt_cbc_def memcpy_def)

lemma decrypt_cbc_defined:
  assumes "length (iv c) = 8" and "length src = 16 * n"
  shows "\<exists>c' out. aes_decrypt_cbc c src (int (16 * n)) = Some (c', out) \<and> length out = 16 * n \<and> length (iv c') = 8"
  using cbc_loop_defined(2) [of "take 4 (iv c)" src n c] assms by (auto simp: aes_decrypt_cbc_def memcpy_def)

lemma sint_16 [simp]: "sint (16 :: u32) = 16"
  using sint_of_nat_u32 [of 16] by simp

lemma encrypt_aes_padded:
  assumes "length (iv aes) = 8" and "length random_iv = 16" and "length s < 2 ^ 31 - 32" and "length dest = length s + 32"
    and c: "c = CRYPT_AESSetIV aes random_iv"
  shows "\<exists>dest' aes' out. encrypt_aes aes random_iv s dest = Some (dest', 16 + length out, aes') \<and>
    take (16 + length out) dest' = random_iv @ out \<and> length out = length (padded s) \<and> length (iv aes') = 8 \<and>
    aes_encrypt_cbc c (padded s) (int (length (padded s))) = Some (aes', out)"
proof -
  define n a b where "n = length s div 16" and "a = take (16 * n) s"
    and "b = drop (16 * n) s @ replicate (16 - length s mod 16) (of_nat (16 - length s mod 16) :: byte)"
  have n: "16 * n \<le> length s" "length a = 16 * n" by (simp_all add: n_def a_def)
  have b: "length b = 16 * 1" by (simp add: b_def n_def minus_mult_div_eq_mod)
  have s: "padded s = a @ b" by (simp add: padded_def a_def b_def)
  have len: "length (padded s) = 16 * n + 16" using n b by (simp add: s)
  have iv: "length (iv c) = 8" using assms(1) by (simp add: c CRYPT_AESSetIV_def)
  obtain c1 o1 where o1: "aes_encrypt_cbc c a (int (16 * n)) = Some (c1, o1)" "length o1 = 16 * n" "length (iv c1) = 8"
    using encrypt_cbc_defined [OF iv n(2)] by blast
  obtain aes' o2 where o2: "aes_encrypt_cbc c1 b 16 = Some (aes', o2)" "length o2 = 16" "length (iv aes') = 8"
    using encrypt_cbc_defined [OF o1(3) b] by auto
  have "aes_encrypt_cbc c (padded s) (int (length (padded s))) = Some (aes', o1 @ o2)"
    using encrypt_two_calls [OF n(2), of 16 c b] iv o1 o2 unfolding len by (simp add: s add.commute)
  moreover have "CRYPT_AESEncrypt c s (of_nat (n * 16)) = Some (c1, o1)"
    using o1(1) n assms(3) encrypt_cbc_loop_take [OF n(1), of c "take 4 (iv c)"] sint_of_nat_u32 [of "16 * n"]
    by (simp add: CRYPT_AESEncrypt_def aes_encrypt_cbc_def a_def mult.commute)
  moreover have "CRYPT_AESEncrypt c1 b 16 = Some (aes', o2)"
    using o2(1) by (simp add: CRYPT_AESEncrypt_def)
  moreover define d1 where "d1 = memcpy dest 0 random_iv"
  moreover have d1: "length d1 = length s + 32" "take 16 d1 = random_iv" using assms(2,4) by (simp_all add: d1_def memcpy_def)
  moreover define d2 where "d2 = memcpy d1 16 o1"
  moreover have d2: "length d2 = length s + 32" "take (16 + 16 * n) d2 = random_iv @ o1"
    using d1 o1(2) n(1) assms(2) by (simp_all add: d2_def memcpy_def)
  moreover have "take (32 + 16 * n) (memcpy d2 (16 + 16 * n) o2) = random_iv @ o1 @ o2"
    using take_memcpy [of "16 + 16 * n" o2 d2] d2 o2(2) n(1) by simp
  moreover have "encrypt_aes aes random_iv s dest =
      Option.bind (spancpy dest 0 random_iv) (\<lambda>dest_buf.
      Option.bind (CRYPT_AESEncrypt c s (of_nat (n * 16))) (\<lambda>(aes, out).
      Option.bind (spancpy dest_buf 16 out) (\<lambda>dest_buf.
      Option.bind (CRYPT_AESEncrypt aes b 16) (\<lambda>(aes, out).
      Option.bind (spancpy dest_buf (n * 16 + 16) out) (\<lambda>dest_buf. Some (dest_buf, 32 + n * 16, aes))))))"
    unfolding encrypt_aes_def Let_def n_def b_def c by (simp only: mult.commute)
  ultimately show ?thesis using assms(2,4) n o1(2) o2(2,3) len
    by (simp add: spancpy_Some add.commute mult.commute)
qed


text \<open>The key a handler gives to the cipher, and whether its encryption stays inside its arrays.\<close>

definition cipher_key :: "crypto_handler \<Rightarrow> u32 \<Rightarrow> u32 \<Rightarrow> bytes" where
  "cipher_key h objnum gennum =
    (if m_Cipher h = kAES \<and> m_KeyLen h = 32 then m_EncryptKey h
     else take (min (m_KeyLen h + 5) 16) (CRYPT_MD5Generate (take (m_KeyLen h) (m_EncryptKey h) @
       key_suffix objnum gennum @ (if m_Cipher h = kAES then salt else []))))"

definition encrypts :: "crypto_handler \<Rightarrow> bool" where
  "encrypts h \<longleftrightarrow> crypto_ok h \<and> (m_Cipher h = kAES \<longrightarrow> m_KeyLen h \<noteq> 24)"

lemma Encrypt_AES:
  assumes "encrypts h" and "m_Cipher h = kAES" and "length random_iv = 16" and "s \<noteq> []" and "length s < 2 ^ 31 - 32"
    and c: "c = CRYPT_AESSetIV (CRYPT_AESSetKey (m_pAESContext h) (cipher_key h objnum 0) (of_nat (m_KeyLen h))) random_iv"
  shows "\<exists>aes' out. Encrypt random_iv h objnum s = Some (random_iv @ out, h\<lparr>m_pAESContext := aes'\<rparr>) \<and>
    length out = length (padded s) \<and> aes_arrays_ok aes' \<and>
    aes_encrypt_cbc c (padded s) (int (length (padded s))) = Some (aes', out)"
proof -
  let ?aes = "CRYPT_AESSetKey (m_pAESContext h) (cipher_key h objnum 0) (of_nat (m_KeyLen h))"
  have h: "length (m_EncryptKey h) = 32" "m_KeyLen h \<in> {16, 32}" "aes_arrays_ok (m_pAESContext h)"
    using assms(1,2) by (auto simp: encrypts_def crypto_ok_def)
  have ok: "aes_arrays_ok ?aes" using h(3) by (simp add: CRYPT_AESSetKey_def aes_setup_arrays)
  let ?n = "length s + 32"
  have "length (iv ?aes) = 8" "length (resize_bytes [] ?n) = length s + 32" using ok by (simp_all add: aes_arrays_ok_def kMaxNb_def resize_bytes_def)
  from encrypt_aes_padded [OF this(1) assms(3,5) this(2) c] obtain dest' aes' out
    where e: "encrypt_aes ?aes random_iv s (resize_bytes [] ?n) = Some (dest', 16 + length out, aes')"
      "take (16 + length out) dest' = random_iv @ out" "length out = length (padded s)" "length (iv aes') = 8"
      "aes_encrypt_cbc c (padded s) (int (length (padded s))) = Some (aes', out)" by blast
  have "aes_arrays_ok aes'" using e(4,5) ok by (auto simp: aes_encrypt_cbc_def c CRYPT_AESSetIV_def aes_arrays_ok_def kMaxNb_def)
  moreover have "length (CRYPT_MD5Generate (take (m_KeyLen h) (m_EncryptKey h) @ key_suffix objnum 0 @ salt)) = 16" by simp
  then have "CryptBlock True random_iv h objnum 0 s (resize_bytes [] ?n) ?n = Some (dest', 16 + length out, h\<lparr>m_pAESContext := aes'\<rparr>)"
    using e(1) h assms(2,5) object_key_digest [of h 32 objnum 0]
    by (auto simp: CryptBlock_def subspan_Some Let_def cipher_key_def)
  moreover have "length (take (16 + length out) dest') = 16 + length out" using e(2) assms(3) by simp
  then have "16 + length out \<le> length dest'" by simp
  ultimately show ?thesis using assms(2,4,5) e
    by (simp add: Encrypt_def EncryptContent_def EncryptGetSize_def Let_def) (simp add: resize_bytes_def)
qed

section \<open>Streams byte by byte\<close>

definition feed_byte :: "bool \<Rightarrow> AESCryptContext \<times> bytes \<Rightarrow> byte \<Rightarrow> (AESCryptContext \<times> bytes) option" where
  "feed_byte bEncrypt = (\<lambda>(c, dest) b.
    Option.bind (if m_BlockOffset c = 16 then full_block bEncrypt True c dest else Some (c, dest)) (\<lambda>(c, dest).
      let c = c\<lparr>m_Block := (m_Block c)[m_BlockOffset c := b], m_BlockOffset := m_BlockOffset c + 1\<rparr>
      in if m_BlockOffset c = 16 then full_block bEncrypt False c dest else Some (c, dest)))"

fun feed :: "bool \<Rightarrow> AESCryptContext \<times> bytes \<Rightarrow> bytes \<Rightarrow> (AESCryptContext \<times> bytes) option" where
  "feed bEncrypt st [] = Some st"
| "feed bEncrypt st (b # bs) = Option.bind (feed_byte bEncrypt st b) (\<lambda>st. feed bEncrypt st bs)"

lemma feed_append: "feed e st (xs @ ys) = Option.bind (feed e st xs) (\<lambda>st. feed e st ys)"
proof (induction xs arbitrary: st)
  case (Cons x xs)
  then show ?case by (cases "feed_byte e st x") auto
qed simp

definition stream_ok :: "bool \<Rightarrow> AESCryptContext \<Rightarrow> bool" where
  "stream_ok bEncrypt c \<longleftrightarrow> m_BlockOffset c \<le> 16 \<and> length (m_Block c) = 16 \<and> length (iv (m_Context c)) = 8 \<and>
    (m_BlockOffset c = 16 \<longrightarrow> bEncrypt \<or> \<not> m_bIV c)"

lemma feed_part:
  "m_BlockOffset c + length xs < 16 \<Longrightarrow> length (m_Block c) = 16 \<Longrightarrow> feed e (c, d) xs =
    Some (c\<lparr>m_Block := memcpy (m_Block c) (m_BlockOffset c) xs, m_BlockOffset := m_BlockOffset c + length xs\<rparr>, d)"
proof (induction xs arbitrary: c)
  case Nil
  then show ?case by (simp add: memcpy_def)
next
  case (Cons x xs)
  let ?c = "c\<lparr>m_Block := (m_Block c)[m_BlockOffset c := x], m_BlockOffset := m_BlockOffset c + 1\<rparr>"
  have "feed_byte e (c, d) x = Some (?c, d)" using Cons.prems by (simp add: feed_byte_def)
  then show ?case using Cons.IH [of ?c] Cons.prems memcpy_Cons [of "m_BlockOffset c" "m_Block c" x xs] by simp
qed

lemma feed_full:
  assumes "m_BlockOffset c + length xs = 16" and "xs \<noteq> []" and "length (m_Block c) = 16"
  shows "feed e (c, d) xs = full_block e False
    (c\<lparr>m_Block := memcpy (m_Block c) (m_BlockOffset c) xs, m_BlockOffset := 16\<rparr>) d"
proof -
  obtain ys y where xs: "xs = ys @ [y]" using assms(2) by (metis append_butlast_last_id)
  let ?o = "m_BlockOffset c"
  have "(memcpy (m_Block c) ?o ys)[?o + length ys := y] = memcpy (m_Block c) ?o xs"
    using assms(1,3) by (intro nth_equalityI) (auto simp: xs nth_memcpy nth_list_update nth_append)
  then show ?thesis using assms feed_part [of c ys e d]
    by (simp add: xs feed_append feed_byte_def add.assoc)
qed


lemma full_block_ok:
  assumes "m_BlockOffset c \<le> 16" and "length (m_Block c) = 16" and "length (iv (m_Context c)) = 8"
  shows "\<exists>c' d'. full_block e unread c d = Some (c', d') \<and> stream_ok e c'"
proof -
  have "length (m_Block c) = 16 * 1" using assms(2) by simp
  from encrypt_cbc_defined [OF assms(3) this] decrypt_cbc_defined [OF assms(3) this] assms show ?thesis
    by (auto simp: full_block_def stream_ok_def CRYPT_AESEncrypt_def CRYPT_AESDecrypt_def CRYPT_AESSetIV_def)
qed

lemma feed_pending:
  assumes "m_BlockOffset c = 16" and "full_block e True c d = Some (c', d')" and "source \<noteq> []"
  shows "feed e (c, d) source = feed e (c', d') source"
proof -
  obtain x xs where s: "source = x # xs" using assms(3) by (cases source) auto
  have "feed_byte e (c, d) x = feed_byte e (c', d') x" using assms(1,2) full_block_offset [OF assms(2)] by (simp add: feed_byte_def)
  then show ?thesis by (simp add: s)
qed

lemma same_offset: "m_BlockOffset c = n \<Longrightarrow> c\<lparr>m_BlockOffset := n\<rparr> = c"
  by simp

lemma crypt_stream_loop_feed:
  "stream_ok e c \<Longrightarrow> crypt_stream_loop e c source (length source) d = feed e (c, d) source"
proof (induction "2 * length source + (if m_BlockOffset c = 16 then 1 else 0)" arbitrary: c source d rule: less_induct)
  case less
  note ok = less.prems [unfolded stream_ok_def]
  consider (Nil) "source = []" | (pending) "source \<noteq> []" "m_BlockOffset c = 16"
    | (part) "source \<noteq> []" "m_BlockOffset c + length source < 16"
    | (full) "source \<noteq> []" "m_BlockOffset c + length source = 16"
    | (longer) "m_BlockOffset c < 16" "16 < m_BlockOffset c + length source" using ok by linarith
  then show ?case
  proof cases
    case Nil
    then show ?thesis using ok by (subst crypt_stream_loop.simps) (auto simp: full_block_def spancpy_Some memcpy_def)
  next
    case pending
    obtain c' d' where f: "full_block e True c d = Some (c', d')" "stream_ok e c'"
      using full_block_ok ok by blast
    have "crypt_stream_loop e c source (length source) d = crypt_stream_loop e c' source (length source) d'"
      using f(1) pending ok by (subst crypt_stream_loop.simps) (simp add: spancpy_Some memcpy_def same_offset)
    then show ?thesis
      using less.hyps [of source c'] f full_block_offset [OF f(1)] feed_pending [OF _ f(1)] pending by simp
  next
    case part
    then show ?thesis using ok feed_part [of c source e d]
      by (subst crypt_stream_loop.simps) (simp add: spancpy_Some Let_def min_def)
  next
    case full
    let ?c = "c\<lparr>m_Block := memcpy (m_Block c) (m_BlockOffset c) source, m_BlockOffset := 16\<rparr>"
    have "crypt_stream_loop e c source (length source) d = full_block e False ?c d"
      using full ok by (subst crypt_stream_loop.simps)
        (simp add: spancpy_Some Let_def diff_add_inverse flip: full(2) split: option.splits)
    then show ?thesis using feed_full [OF full(2,1)] ok by simp
  next
    case longer
    let ?k = "16 - m_BlockOffset c"
    let ?c = "c\<lparr>m_Block := memcpy (m_Block c) (m_BlockOffset c) (take ?k source), m_BlockOffset := 16\<rparr>"
    have k: "m_BlockOffset c + length (take ?k source) = 16" "take ?k source \<noteq> []" "drop ?k source \<noteq> []"
      using longer by auto
    have block: "m_BlockOffset ?c \<le> 16" "length (m_Block ?c) = 16" "length (iv (m_Context ?c)) = 8" using ok k by simp_all
    obtain c' d' where f: "full_block e True ?c d = Some (c', d')" "stream_ok e c'"
      using full_block_ok [OF block] by blast
    have "crypt_stream_loop e c source (length source) d = crypt_stream_loop e c' (drop ?k source) (length (drop ?k source)) d'"
      using f(1) k longer ok by (subst crypt_stream_loop.simps) (simp add: spancpy_Some Let_def min_def)
    also have "\<dots> = feed e (c', d') (drop ?k source)"
      using less.hyps [of "drop ?k source" c'] f(2) full_block_offset [OF f(1)] longer by simp
    also have "\<dots> = Option.bind (full_block e False ?c d) (\<lambda>st. feed e st (drop ?k source))"
      using f(1) feed_pending [OF _ f(1) k(3)] by (auto simp: full_block_def split: if_splits)
    also have "\<dots> = feed e (c, d) (take ?k source @ drop ?k source)"
      unfolding feed_append using feed_full [OF k(1,2)] ok by simp
    finally show ?thesis by simp
  qed
qed


lemma feed_total:
  "stream_ok e c \<Longrightarrow> \<exists>c' d'. feed e (c, d) s = Some (c', d') \<and> stream_ok e c'"
proof (induction s arbitrary: c d)
  case (Cons x s)
  obtain c1 d1 where f: "(if m_BlockOffset c = 16 then full_block e True c d else Some (c, d)) = Some (c1, d1)"
      "stream_ok e c1" "m_BlockOffset c1 < 16"
    using full_block_ok [of c e True d] full_block_offset [of e c d] Cons.prems
    by (cases "m_BlockOffset c = 16") (auto simp: stream_ok_def)
  let ?c = "c1\<lparr>m_Block := (m_Block c1)[m_BlockOffset c1 := x], m_BlockOffset := Suc (m_BlockOffset c1)\<rparr>"
  obtain c2 d2 where "(if m_BlockOffset ?c = 16 then full_block e False ?c d1 else Some (?c, d1)) = Some (c2, d2)" "stream_ok e c2"
    using full_block_ok [of ?c e False d1] f(2,3) by (cases "m_BlockOffset c1 = 15") (auto simp: stream_ok_def)
  then have "feed_byte e (c, d) x = Some (c2, d2)" using f(1) by (simp add: feed_byte_def Let_def split: if_splits)
  then show ?case using Cons.IH [of c2 d2] \<open>stream_ok e c2\<close> by simp
qed simp

lemma feed_blocks:
  assumes "m_BlockOffset c = 0" and "\<not> m_bIV c" and "length (m_Block c) = 16" and "length (iv (m_Context c)) = 8"
    and "length src = 16 * Suc n" and "aes_decrypt_cbc (m_Context c) (take (16 * n) src) (int (16 * n)) = Some (ctx', out)"
  shows "feed False (c, d) src =
    Some (c\<lparr>m_Context := ctx', m_Block := drop (16 * n) src, m_BlockOffset := 16\<rparr>, d @ out)"
  using assms
proof (induction n arbitrary: c d src out)
  case 0
  have "memcpy (iv (m_Context c)) 0 (take 4 (iv (m_Context c))) = iv (m_Context c)" using 0 by (simp add: memcpy_def)
  then have "ctx' = m_Context c" "out = []" using 0 by (auto simp: aes_decrypt_cbc_def decrypt_cbc_loop.simps)
  moreover have "src \<noteq> []" using 0 by auto
  ultimately show ?case using feed_full [of c src False d] 0 by (auto simp: full_block_def memcpy_def)
next
  case (Suc n)
  define x y where "x = take 16 src" and "y = drop 16 src"
  have xy: "length x = 16 * 1" "length y = 16 * Suc n" "src = x @ y" using Suc.prems(5) by (simp_all add: x_def y_def)
  obtain ctx1 o1 where o1: "aes_decrypt_cbc (m_Context c) x 16 = Some (ctx1, o1)" "length (iv ctx1) = 8"
    using decrypt_cbc_defined [OF Suc.prems(4) xy(1)] by auto
  have "take (16 * Suc n) src = x @ take (16 * n) y" using xy by simp
  then obtain o2 where o2: "aes_decrypt_cbc ctx1 (take (16 * n) y) (int (16 * n)) = Some (ctx', o2)" "out = o1 @ o2"
    using decrypt_two_calls [OF xy(1), of "int (16 * n)" "m_Context c" "take (16 * n) y"] Suc.prems(4,6) o1(1) by auto
  let ?c = "c\<lparr>m_Block := x, m_BlockOffset := 16\<rparr>" and ?c1 = "c\<lparr>m_Block := x, m_BlockOffset := 0, m_Context := ctx1\<rparr>"
  have "memcpy (m_Block c) 0 x = x" using xy(1) Suc.prems(3) by (simp add: memcpy_def)
  moreover have "x \<noteq> []" using xy(1) by auto
  ultimately have "feed False (c, d) x = Some (?c, d)"
    using feed_full [of c x False d] xy(1) Suc.prems(1-3) by (auto simp: full_block_def)
  moreover have "full_block False True ?c d = Some (?c1, d @ o1)" using o1(1) Suc.prems(2) by (simp add: full_block_def CRYPT_AESDecrypt_def)
  then have "feed False (?c, d) y = feed False (?c1, d @ o1) y" using feed_pending [of ?c False d _ _ y] xy(2) by fastforce
  ultimately show ?case using Suc.IH [of ?c1 y o2 "d @ o1"] o1(2) o2 xy Suc.prems(2) by (simp add: feed_append)
qed

lemma finish_padded:
  assumes "m_BlockOffset c = 0" and "\<not> m_bIV c" and "length (m_Block c) = 16" and "length (iv (m_Context c)) = 8"
    and "length src = length (padded s)"
    and "aes_decrypt_cbc (m_Context c) src (int (length (padded s))) = Some (ctx', padded s)"
  shows "\<exists>c' d. feed False (c, []) src = Some (c', d) \<and> finish_decrypt c' d = Some s"
proof -
  let ?n = "length s div 16"
  define p where "p = 16 - length s mod 16"
  let ?x = "take (16 * ?n) src" and ?y = "drop (16 * ?n) src"
  have len: "length src = 16 * Suc ?n" using assms(5) length_padded by simp
  then have xy: "length ?x = 16 * ?n" "length ?y = 16 * 1" "src = ?x @ ?y" by simp_all
  obtain ctx1 o1 where o1: "aes_decrypt_cbc (m_Context c) ?x (int (16 * ?n)) = Some (ctx1, o1)" "length o1 = 16 * ?n" "length (iv ctx1) = 8"
    using decrypt_cbc_defined [OF assms(4) xy(1)] by blast
  obtain ctx2 o2 where o2: "aes_decrypt_cbc ctx1 ?y 16 = Some (ctx2, o2)" "length o2 = 16"
    using decrypt_cbc_defined [OF o1(3) xy(2)] by auto
  have "padded s = o1 @ o2"
    using decrypt_two_calls [OF xy(1), of 16 "m_Context c" ?y] o1 o2 assms(4,6) len length_padded [of s] by (simp add: add.commute)
  have f: "feed False (c, []) src = Some (c\<lparr>m_Context := ctx1, m_Block := ?y, m_BlockOffset := 16\<rparr>, o1)"
    using feed_blocks [OF assms(1-4) len o1(1), of "[]"] by simp
  have p: "1 \<le> p" "p \<le> 16" "16 * ?n + 16 = length s + p"
    using length_padded [of s] by (simp_all add: Suc_le_eq padded_def p_def)
  have "o2 ! 15 = padded s ! (16 * ?n + 15)" using \<open>padded s = o1 @ o2\<close> o1(2) by (simp add: nth_append)
  also have "16 * ?n + 15 = length s + (p - 1)" using p by linarith
  also have "padded s ! (length s + (p - 1)) = of_nat p"
    using p(1) unfolding padded_def p_def [symmetric] nth_append_length_plus by (intro nth_replicate) simp
  finally have "unat (o2 ! 15) = p" using p by (simp add: unsigned_of_nat take_bit_nat_eq_self)
  moreover have "o1 @ take (16 - p) o2 = take (16 * ?n + (16 - p)) (padded s)" using \<open>padded s = o1 @ o2\<close> o1(2) by simp
  moreover have "16 * ?n + (16 - p) = length s" using p by linarith
  ultimately show ?thesis using f o2(1) p by (simp add: finish_decrypt_def CRYPT_AESDecrypt_def padded_def)
qed


section \<open>Decryption\<close>

lemma zero_aes_ok: "aes_arrays_ok zero_aes_context"
  by (simp add: zero_aes_context_def aes_arrays_ok_def)

lemma AESSetKey_shape:
  "aes_arrays_ok c \<Longrightarrow> length (iv (CRYPT_AESSetKey c key k)) = 8" "Nb (CRYPT_AESSetKey c key k) = 4"
  by (simp_all add: CRYPT_AESSetKey_def aes_setup_def Let_def aes_arrays_ok_def kMaxNb_def)

lemma new_context_ok: "stream_ok False (new_AESCryptContext key k)"
  using AESSetKey_shape(1) [OF zero_aes_ok] by (simp add: stream_ok_def new_AESCryptContext_def)

text \<open>For a key of 24 bytes the stream is decrypted with a key of 16.\<close>

definition stream_key_length :: "crypto_handler \<Rightarrow> u32" where
  "stream_key_length h = (if m_KeyLen h = 32 then 32 else 16)"

lemma DecryptStart_AES:
  assumes "crypto_ok h" and "m_Cipher h = kAES"
  shows "DecryptStart h objnum gennum = Some (Aes_context (new_AESCryptContext (cipher_key h objnum gennum) (stream_key_length h)))"
  using assms object_key_digest [of h 48 objnum gennum]
  by (auto simp: DecryptStart_def crypto_ok_def cipher_key_def stream_key_length_def subspan_Some)

lemma DecryptStart_RC4:
  assumes "crypto_ok h" and "m_Cipher h = kRC4"
  shows "DecryptStart h objnum gennum = Some (Rc4_context (CRYPT_ArcFourSetup (cipher_key h objnum gennum)))"
  using assms object_key_digest [of h 48 objnum gennum]
  by (auto simp: DecryptStart_def crypto_ok_def cipher_key_def)

lemma Decrypt_AES_feed:
  assumes "crypto_ok h" and "m_Cipher h = kAES" and "length s < 2 ^ 32"
  shows "Decrypt h objnum gennum s =
    Option.bind (feed False (new_AESCryptContext (cipher_key h objnum gennum) (stream_key_length h), []) s) (\<lambda>(c, d). finish_decrypt c d)"
  using assms(2,3) crypt_stream_loop_feed [OF new_context_ok]
  by (simp add: Decrypt_def DecryptStart_AES [OF assms(1,2)] DecryptStream_def DecryptFinish_def CryptStream_def CryptFinish_def
      case_prod_beta' Option.bind_map_option comp_def map_option_bind option.map_comp option.map_ident split: option.splits)

lemma feed_iv:
  assumes "length random_iv = 16" and "m_bIV c" and "m_BlockOffset c = 0" and "length (m_Block c) = 16"
  shows "feed False (c, d) random_iv =
    Some (c\<lparr>m_Context := CRYPT_AESSetIV (m_Context c) random_iv, m_bIV := False, m_BlockOffset := 0, m_Block := random_iv\<rparr>, d)"
proof -
  have "random_iv \<noteq> []" "memcpy (m_Block c) 0 random_iv = random_iv" using assms(1,4) by (auto simp: memcpy_def)
  then show ?thesis using feed_full [of c random_iv False d] assms by (simp add: full_block_def)
qed

lemma cbc_inverse_contexts:
  assumes "aes_arrays_ok a" and "aes_arrays_ok b" and "unat k \<in> {16, 24, 32}" and "length src = 16 * n"
    and "aes_encrypt_cbc (CRYPT_AESSetIV (CRYPT_AESSetKey a key k) v) src (int (16 * n)) = Some (a', out)"
  shows "\<exists>b'. aes_decrypt_cbc (CRYPT_AESSetIV (CRYPT_AESSetKey b key k) v) out (int (16 * n)) = Some (b', src)"
proof -
  let ?a = "CRYPT_AESSetKey a key k" and ?b = "CRYPT_AESSetKey b key k"
  have iv: "take 4 (iv (CRYPT_AESSetIV ?a v)) = read_block v" "take 4 (iv (CRYPT_AESSetIV ?b v)) = read_block v"
    using take_iv_SetIV AESSetKey_shape assms(1,2) by simp_all
  have "inverse_schedule ?b" using aes_setup_inverse_schedule [OF assms(2,3)] by (simp add: CRYPT_AESSetKey_def)
  from cbc_inverse [OF this length_read_block assms(4), of v] obtain v' out' where
    b: "encrypt_cbc_loop ?b (read_block v) src (int (16 * n)) = Some (v', out')"
      "decrypt_cbc_loop ?b (read_block v) out' (int (16 * n)) = Some (v', src)" by blast
  have "encrypt_cbc_loop ?a (read_block v) src (int (16 * n)) = encrypt_cbc_loop ?b (read_block v) src (int (16 * n))"
    using encrypt_loop_agree [of ?a ?b] encrypt_agree [OF assms(1-3)] by (simp add: CRYPT_AESSetKey_def)
  moreover have "encrypt_cbc_loop (CRYPT_AESSetIV ?a v) = encrypt_cbc_loop ?a" "decrypt_cbc_loop (CRYPT_AESSetIV ?b v) = decrypt_cbc_loop ?b"
    by (simp_all add: CRYPT_AESSetIV_def fun_eq_iff)
  ultimately have "out' = out" using assms(5) b(1) iv(1) by (auto simp: aes_encrypt_cbc_def)
  then show ?thesis using b(2) iv(2) \<open>decrypt_cbc_loop (CRYPT_AESSetIV ?b v) = _\<close> by (auto simp: aes_decrypt_cbc_def)
qed

lemma AES_roundtrip:
  assumes "encrypts h" and "m_Cipher h = kAES" and "length random_iv = 16" and "length s < 2 ^ 31 - 32"
  shows "\<exists>c aes. Encrypt random_iv h objnum s = Some (c, h\<lparr>m_pAESContext := aes\<rparr>) \<and> encrypts (h\<lparr>m_pAESContext := aes\<rparr>) \<and> Decrypt h objnum 0 c = Some s"
proof (cases "s = []")
  case True
  have "h\<lparr>m_pAESContext := m_pAESContext h\<rparr> = h" by simp
  moreover have "Decrypt h objnum 0 [] = Some []"
    using assms(1,2) Decrypt_AES_feed [of h "[]" objnum 0] by (simp add: encrypts_def finish_decrypt_def new_AESCryptContext_def)
  ultimately show ?thesis using True assms(1) by (metis Encrypt_def)
next
  case False
  let ?key = "cipher_key h objnum 0" and ?n = "Suc (length s div 16)"
  have h: "crypto_ok h" "m_KeyLen h \<in> {16, 32}" "aes_arrays_ok (m_pAESContext h)"
    using assms(1,2) by (auto simp: encrypts_def crypto_ok_def)
  obtain aes out where e: "Encrypt random_iv h objnum s = Some (random_iv @ out, h\<lparr>m_pAESContext := aes\<rparr>)"
      "length out = length (padded s)" "aes_arrays_ok aes"
      "aes_encrypt_cbc (CRYPT_AESSetIV (CRYPT_AESSetKey (m_pAESContext h) ?key (of_nat (m_KeyLen h))) random_iv)
        (padded s) (int (16 * ?n)) = Some (aes, out)"
    using Encrypt_AES [OF assms(1-3) False assms(4) refl, of objnum] unfolding length_padded by blast
  have k: "of_nat (m_KeyLen h) = stream_key_length h" "unat (stream_key_length h) \<in> {16, 24, 32}"
    using h(2) by (auto simp: stream_key_length_def)
  let ?new = "new_AESCryptContext ?key (stream_key_length h)"
  let ?c = "?new\<lparr>m_Context := CRYPT_AESSetIV (m_Context ?new) random_iv, m_bIV := False, m_BlockOffset := 0, m_Block := random_iv\<rparr>"
  obtain b where "aes_decrypt_cbc (m_Context ?c) out (int (16 * ?n)) = Some (b, padded s)"
    using cbc_inverse_contexts [OF h(3) zero_aes_ok k(2) length_padded e(4) [unfolded k(1)]] by (auto simp: new_AESCryptContext_def)
  moreover have "length (iv (m_Context ?c)) = 8"
    using AESSetKey_shape(1) [OF zero_aes_ok] by (simp add: new_AESCryptContext_def CRYPT_AESSetIV_def)
  ultimately obtain c' d where "feed False (?c, []) out = Some (c', d)" "finish_decrypt c' d = Some s"
    using finish_padded [of ?c out s b] assms(3) e(2) length_padded [of s] by auto
  moreover have "feed False (?new, []) random_iv = Some (?c, [])"
    by (rule feed_iv) (simp_all add: assms(3) new_AESCryptContext_def)
  moreover have "length (random_iv @ out) < 2 ^ 32" using assms(3,4) e(2) length_padded [of s] by simp
  ultimately have "Decrypt h objnum 0 (random_iv @ out) = Some s"
    using Decrypt_AES_feed [OF h(1) assms(2), of "random_iv @ out" objnum 0] by (simp add: feed_append)
  moreover have "encrypts (h\<lparr>m_pAESContext := aes\<rparr>)" using assms(1,2) e(3) by (auto simp: encrypts_def crypto_ok_def)
  ultimately show ?thesis using e(1) by blast
qed


lemma RC4_roundtrip:
  assumes "crypto_ok h" and "m_Cipher h = kRC4" and "length s < 2 ^ 32"
  shows "\<exists>c. Encrypt random_iv h objnum s = Some (c, h) \<and> length c = length s \<and> Decrypt h objnum 0 c = Some s"
proof -
  let ?key = "cipher_key h objnum 0"
  have dec: "Decrypt h objnum 0 x = Some (CRYPT_ArcFourCryptBlock x ?key)" for x
    using assms(2) DecryptStart_RC4 [OF assms(1,2), of objnum 0]
    by (simp add: Decrypt_def DecryptStream_def DecryptFinish_def CryptStream_def CryptFinish_def CRYPT_ArcFourCryptBlock_def
        case_prod_beta' Let_def)
  have inv: "CRYPT_ArcFourCryptBlock (CRYPT_ArcFourCryptBlock s ?key) ?key = s"
    by (simp add: CRYPT_ArcFourCryptBlock_def rc4_crypt_stream map2_xor_cancel)
  have len: "length (CRYPT_ArcFourCryptBlock s ?key) = length s" by (simp add: CRYPT_ArcFourCryptBlock_def rc4_crypt_stream)
  moreover have "object_key 32 h objnum 0 = Some (CRYPT_MD5Generate (take (m_KeyLen h) (m_EncryptKey h) @ key_suffix objnum 0))"
    using object_key_digest [of h 32 objnum 0] assms(1,2) by (simp add: crypto_ok_def)
  moreover have "memcpy y 0 x = x" if "length x = length y" for x y :: bytes
    using that by (simp add: memcpy_def)
  ultimately have "Encrypt random_iv h objnum s = Some (CRYPT_ArcFourCryptBlock s ?key, h)"
    using assms(2,3) by (simp add: Encrypt_def EncryptContent_def EncryptGetSize_def CryptBlock_def Let_def resize_bytes_def
        spancpy_Some subspan_Some cipher_key_def) (simp add: CRYPT_ArcFourCryptBlock_def)
  then show ?thesis using dec inv len by simp
qed

lemma None_roundtrip:
  assumes "m_Cipher h = kNone" and "length s < 2 ^ 32"
  shows "Encrypt random_iv h objnum s = Some (s, h) \<and> Decrypt h objnum 0 s = Some s"
proof -
  have "memcpy (replicate (length s) 0) 0 s = s" by (simp add: memcpy_def)
  then show ?thesis using assms
    by (simp add: Encrypt_def EncryptContent_def EncryptGetSize_def CryptBlock_def Let_def resize_bytes_def spancpy_Some
        Decrypt_def DecryptStart_def DecryptStream_def DecryptFinish_def CryptStream_def CryptFinish_def)
qed

lemma cipher_roundtrip:
  assumes "encrypts h" and "length random_iv = 16" and "length s < 2 ^ 31 - 32"
  shows "\<exists>c aes. Encrypt random_iv h objnum s = Some (c, h\<lparr>m_pAESContext := aes\<rparr>) \<and> encrypts (h\<lparr>m_pAESContext := aes\<rparr>) \<and>
    Decrypt h objnum 0 c = Some s"
proof (cases "m_Cipher h = kAES")
  case True
  then show ?thesis using AES_roundtrip assms by blast
next
  case False
  then have "m_Cipher h = kNone \<or> m_Cipher h = kRC4" "crypto_ok h" "length s < 2 ^ 32"
    using assms by (auto simp: encrypts_def crypto_ok_def split: Cipher.splits)
  then obtain c where "Encrypt random_iv h objnum s = Some (c, h)" "Decrypt h objnum 0 c = Some s"
    using RC4_roundtrip None_roundtrip by blast
  moreover have "h = h\<lparr>m_pAESContext := m_pAESContext h\<rparr>" by simp
  ultimately show ?thesis using assms(1) by metis
qed

lemma Decrypt_other_context: "Decrypt (h\<lparr>m_pAESContext := aes\<rparr>) objnum gennum s = Decrypt h objnum gennum s"
  by (simp add: Decrypt_def DecryptStart_def object_key_def PopulateKey_def DecryptStream_def DecryptFinish_def CryptStream_def CryptFinish_def
      cong: option.case_cong crypt_context.case_cong)

lemma full_block_size:
  assumes "full_block e unread c d = Some (c', d')" and "length (m_Block c) = 16" and "length (iv (m_Context c)) = 8" and "m_BlockOffset c = 16"
  shows "length d' + m_BlockOffset c' \<le> length d + 16"
proof -
  have "length (m_Block c) = 16 * 1" using assms(2) by simp
  from encrypt_cbc_defined [OF assms(3) this] decrypt_cbc_defined [OF assms(3) this] assms(1,4) show ?thesis
    by (auto simp: full_block_def CRYPT_AESEncrypt_def CRYPT_AESDecrypt_def split: if_splits)
qed

lemma feed_size:
  "stream_ok e c \<Longrightarrow> feed e (c, d) s = Some (c', d') \<Longrightarrow> length d' + m_BlockOffset c' \<le> length d + m_BlockOffset c + length s"
proof (induction s arbitrary: c d)
  case (Cons x s)
  obtain c2 d2 where st: "feed_byte e (c, d) x = Some (c2, d2)" "feed e (c2, d2) s = Some (c', d')"
    using Cons.prems(2) by (cases "feed_byte e (c, d) x") auto
  have "feed e (c, d) [x] = Some (c2, d2)" using st(1) by simp
  then have ok: "stream_ok e c2" using feed_total [OF Cons.prems(1), of d "[x]"] by auto
  obtain c1 d1 where f: "(if m_BlockOffset c = 16 then full_block e True c d else Some (c, d)) = Some (c1, d1)"
    using st(1) by (auto simp: feed_byte_def Option.bind_eq_Some_conv)
  have c1: "length d1 + m_BlockOffset c1 \<le> length d + m_BlockOffset c" "stream_ok e c1"
    using f full_block_size [of e True c d c1 d1] full_block_ok [of c e True d] Cons.prems(1) by (auto simp: stream_ok_def split: if_splits)
  let ?c = "c1\<lparr>m_Block := (m_Block c1)[m_BlockOffset c1 := x], m_BlockOffset := Suc (m_BlockOffset c1)\<rparr>"
  have "(if m_BlockOffset ?c = 16 then full_block e False ?c d1 else Some (?c, d1)) = Some (c2, d2)"
    using st(1) f by (simp add: feed_byte_def Let_def split: if_splits)
  then have "length d2 + m_BlockOffset c2 \<le> length d1 + m_BlockOffset c1 + 1"
    using full_block_size [of e False ?c d1 c2 d2] c1(2) by (auto simp: stream_ok_def split: if_splits)
  then show ?case using Cons.IH [OF ok st(2)] c1(1) by simp
qed simp


section \<open>Pieces\<close>

fun decrypt_pieces ::
  "crypto_handler \<Rightarrow> crypt_context option \<Rightarrow> bytes list \<Rightarrow> bytes \<Rightarrow> (bool \<times> crypt_context option \<times> bytes) option" where
  "decrypt_pieces h context [] dest = Some (True, context, dest)"
| "decrypt_pieces h context (p # ps) dest =
    Option.bind (DecryptStream h context p dest) (\<lambda>(_, context, dest). decrypt_pieces h context ps dest)"

lemma DecryptStream_AES:
  assumes "m_Cipher h = kAES" and "stream_ok False c" and "length s < 2 ^ 32"
  shows "DecryptStream h (Some (Aes_context c)) s d = map_option (\<lambda>(c, d). (True, Some (Aes_context c), d)) (feed False (c, d) s)"
  using assms crypt_stream_loop_feed [OF assms(2)] by (simp add: DecryptStream_def CryptStream_def)

lemma decrypt_pieces_AES:
  assumes "m_Cipher h = kAES"
  shows "stream_ok False c \<Longrightarrow> length (concat ps) < 2 ^ 32 \<Longrightarrow>
    decrypt_pieces h (Some (Aes_context c)) ps d = DecryptStream h (Some (Aes_context c)) (concat ps) d"
proof (induction ps arbitrary: c d)
  case Nil
  then show ?case by (simp add: DecryptStream_AES [OF assms])
next
  case (Cons p ps)
  obtain c' d' where f: "feed False (c, d) p = Some (c', d')" "stream_ok False c'"
    using feed_total [OF Cons.prems(1)] by blast
  then show ?case using Cons.IH [OF f(2), of d'] Cons.prems by (simp add: DecryptStream_AES [OF assms] feed_append)
qed

lemma DecryptStream_RC4:
  "m_Cipher h = kRC4 \<Longrightarrow> DecryptStream h (Some (Rc4_context c)) s d =
    Some (True, Some (Rc4_context ((rc4_next ^^ length s) c)), d @ map2 (XOR) s (rc4_stream c (length s)))"
  by (simp add: DecryptStream_def CryptStream_def rc4_crypt_stream)

lemma rc4_stream_append: "rc4_stream c (m + n) = rc4_stream c m @ rc4_stream ((rc4_next ^^ m) c) n"
  by (induction m arbitrary: c) (simp_all add: funpow_swap1)

lemma decrypt_pieces_RC4:
  assumes "m_Cipher h = kRC4"
  shows "decrypt_pieces h (Some (Rc4_context c)) ps d = DecryptStream h (Some (Rc4_context c)) (concat ps) d"
proof (induction ps arbitrary: c d)
  case (Cons p ps)
  have "(rc4_next ^^ (length p + length (concat ps))) c = (rc4_next ^^ length (concat ps)) ((rc4_next ^^ length p) c)"
    by (subst add.commute) (simp add: funpow_add)
  then show ?case using Cons.IH by (simp add: DecryptStream_RC4 [OF assms] rc4_stream_append length_concat)
qed (simp add: DecryptStream_RC4 [OF assms])

lemma decrypt_pieces_None:
  assumes "m_Cipher h = kNone"
  shows "decrypt_pieces h (Some c) ps d = DecryptStream h (Some c) (concat ps) d"
  by (induction ps arbitrary: d) (simp_all add: DecryptStream_def CryptStream_def assms)

section \<open>Properties\<close>

text \<open>
  C11: decryption inverts encryption.  For every cipher and key the handler accepts (AES keys of 24 bytes
  apart), every data below 2 GB, every initialisation vector and whatever the handler encrypted before, the
  encryptor returns without leaving its arrays, and decrypting its output under the number of the same object
  gives the data back.
\<close>

theorem encryption_roundtrip:
  assumes "encrypts h" and "length random_iv = 16" and "length s < 2 ^ 31 - 32"
  shows "\<exists>c h'. Encrypt random_iv h objnum s = Some (c, h') \<and> encrypts h' \<and> Decrypt h objnum 0 c = Some s \<and>
    Decrypt h' objnum 0 c = Some s"
  using cipher_roundtrip [OF assms] Decrypt_other_context by metis

definition sample_handler :: crypto_handler where
  "sample_handler = \<lparr>m_KeyLen = 16, m_Cipher = kAES, m_pAESContext = zero_aes_context, m_EncryptKey = replicate 32 7\<rparr>"

lemma sample_handler_encrypts: "encrypts sample_handler"
  by (simp add: sample_handler_def encrypts_def crypto_ok_def zero_aes_ok)

theorem encryption_roundtrip_witness:
  "\<exists>c h'. Encrypt (replicate 16 1) sample_handler 12 [65, 66, 67] = Some (c, h') \<and> Decrypt sample_handler 12 0 c = Some [65, 66, 67]"
  using encryption_roundtrip [OF sample_handler_encrypts, of "replicate 16 1" "[65, 66, 67]" 12] by auto

text \<open>
  C12: whatever the bytes, decrypting a string or stream below 4 GB returns, with no access outside an array,
  and the result is not longer than the input.
\<close>

theorem decryption_returns:
  assumes "crypto_ok h" and "length s < 2 ^ 32"
  shows "\<exists>d. Decrypt h objnum gennum s = Some d \<and> length d \<le> length s"
proof -
  consider (aes) "m_Cipher h = kAES" | (rc4) "m_Cipher h = kRC4" | (none) "m_Cipher h = kNone"
    using assms(1) by (cases "m_Cipher h") (auto simp: crypto_ok_def)
  then show ?thesis
  proof cases
    case aes
    let ?new = "new_AESCryptContext (cipher_key h objnum gennum) (stream_key_length h)"
    obtain c d where f: "feed False (?new, []) s = Some (c, d)" "stream_ok False c" using feed_total [OF new_context_ok] by blast
    then have len: "length d + m_BlockOffset c \<le> length s"
      using feed_size [OF new_context_ok f(1)] by (simp add: new_AESCryptContext_def)
    have "\<exists>r. finish_decrypt c d = Some r \<and> length r \<le> length d + m_BlockOffset c"
    proof (cases "m_BlockOffset c = 16")
      case True
      obtain aes out where "CRYPT_AESDecrypt (m_Context c) (m_Block c) 16 = Some (aes, out)" "length out = 16"
        using decrypt_cbc_defined [of "m_Context c" "m_Block c" 1] f(2) by (auto simp: CRYPT_AESDecrypt_def stream_ok_def)
      then show ?thesis using True by (simp add: finish_decrypt_def)
    qed (simp add: finish_decrypt_def)
    then show ?thesis using Decrypt_AES_feed [OF assms(1) aes assms(2)] f(1) len by auto
  next
    case rc4
    then show ?thesis using DecryptStart_RC4 [OF assms(1) rc4] DecryptStream_RC4 [OF rc4]
      by (simp add: Decrypt_def DecryptFinish_def CryptFinish_def)
  next
    case none
    then show ?thesis by (simp add: Decrypt_def DecryptStart_def DecryptStream_def CryptStream_def DecryptFinish_def CryptFinish_def)
  qed
qed

theorem decryption_returns_witness:
  "\<exists>d. Decrypt sample_handler 12 0 (replicate 40 9) = Some d \<and> length d \<le> 40"
  using decryption_returns [of sample_handler "replicate 40 9" 12 0] sample_handler_encrypts by (simp add: encrypts_def)

text \<open>
  C13: a stream may be decrypted in pieces: for every cipher, cutting the encrypted bytes anywhere, empty
  pieces included, gives the context and the output of one call on all of them.
\<close>

theorem decryption_in_pieces:
  assumes "crypto_ok h" and "DecryptStart h objnum gennum = Some context" and "length (concat pieces) < 2 ^ 32"
  shows "decrypt_pieces h (Some context) pieces [] = DecryptStream h (Some context) (concat pieces) []"
proof -
  consider (aes) "m_Cipher h = kAES" | (rc4) "m_Cipher h = kRC4" | (none) "m_Cipher h = kNone"
    using assms(1) by (cases "m_Cipher h") (auto simp: crypto_ok_def)
  then show ?thesis
  proof cases
    case aes
    then show ?thesis using decrypt_pieces_AES [OF aes new_context_ok assms(3)] DecryptStart_AES [OF assms(1) aes] assms(2) by auto
  next
    case rc4
    then show ?thesis using decrypt_pieces_RC4 [OF rc4] DecryptStart_RC4 [OF assms(1) rc4] assms(2) by auto
  qed (rule decrypt_pieces_None)
qed

theorem decryption_in_pieces_witness:
  "\<exists>context. DecryptStart sample_handler 12 0 = Some context \<and>
    decrypt_pieces sample_handler (Some context) [replicate 15 1, [], replicate 30 2] [] =
    DecryptStream sample_handler (Some context) (replicate 15 1 @ replicate 30 2) []"
proof -
  have ok: "crypto_ok sample_handler" "m_Cipher sample_handler = kAES" using sample_handler_encrypts by (simp_all add: encrypts_def sample_handler_def)
  show ?thesis using decryption_in_pieces [OF ok(1) DecryptStart_AES [OF ok], of "[replicate 15 1, [], replicate 30 2]" 12 0]
      DecryptStart_AES [OF ok, of 12 0] by simp
qed



end
