(* ===== verification/Pdf_Encrypted.thy ===== *)
theory Pdf_Encrypted
  imports Pdf_Indirect Pdf_Cipher
begin

text \<open>
  Encrypted objects: CPDF_CryptoHandler::DecryptObjectTree of src/core/fpdfapi/parser/cpdf_crypto_handler.cpp, which
  CPDF_Parser::ParseIndirectObjectAt calls on every object it has read, against the writers of theory Pdf_Object
  with an encryptor.
\<close>

section \<open>Decryption of an object\<close>






section \<open>Writing with an encryptor\<close>















lemma is_sig_name_reread: "is_sig_name (reread env ob) = is_sig_name ob"
  by (cases ob) (auto simp: is_sig_name_def)






section \<open>Streams\<close>













section \<open>Encrypted objects are read back\<close>













section \<open>Properties\<close>













end
