(* ===== verification/Pdf_Security.thy ===== *)
theory Pdf_Security
  imports Pdf_Encrypted Sha1 Sha2 Utf8
begin

text \<open>
  The standard security handler of src/core/fpdfapi/parser/cpdf_security_handler.cpp: reading the encryption dictionary,
  the key derivations of revisions 2 to 6, checking user and owner passwords, and creating the entries of a new
  dictionary.  The dictionary the handler points to is part of its state, since the functions that create the entries
  change it through the pointer they were given while others read it through the handler.  An access outside an array
  and the use of a null dictionary are \<open>None\<close>.  Random numbers are arguments.  The theorems are in theory Pdf_Passwords.
\<close>

section \<open>Values in dictionaries\<close>

definition direct_string :: "'f pdf_env \<Rightarrow> 'f pdf_object \<Rightarrow> bytes" where
  "direct_string env ob = (case ob of PString s hex \<Rightarrow> s | PName n \<Rightarrow> n | PNumber n \<Rightarrow> number_string env n
    | PBoolean b \<Rightarrow> (if b then B ''true'' else B ''false'') | _ \<Rightarrow> [])"

definition GetString :: "'f pdf_env \<Rightarrow> 'f pdf_object \<Rightarrow> bytes" where
  "GetString env ob = (case GetDirect env ob of None \<Rightarrow> [] | Some obj \<Rightarrow> direct_string env obj)"

definition GetStringFor :: "'f pdf_env \<Rightarrow> 'f dict \<Rightarrow> bytes \<Rightarrow> bytes" where
  "GetStringFor env m key = (case GetObjectFor m key of None \<Rightarrow> [] | Some ob \<Rightarrow> GetString env ob)"

definition GetBooleanFor :: "'f dict \<Rightarrow> bytes \<Rightarrow> bool \<Rightarrow> bool" where
  "GetBooleanFor m key bDefault = (case GetObjectFor m key of Some (PBoolean b) \<Rightarrow> b | _ \<Rightarrow> bDefault)"

definition GetIntegerOr :: "'f pdf_env \<Rightarrow> 'f dict \<Rightarrow> bytes \<Rightarrow> int \<Rightarrow> int" where
  "GetIntegerOr env m key def = (if GetObjectFor m key = None then def else GetIntegerFor env m key)"

definition GetDictFor :: "'f pdf_env \<Rightarrow> 'f dict \<Rightarrow> bytes \<Rightarrow> 'f dict option" where
  "GetDictFor env m key = (case GetDirectObjectFor env m key of
     Some (PDictionary d) \<Rightarrow> Some d | Some (PStream d data) \<Rightarrow> Some d | _ \<Rightarrow> None)"

definition GetStringAt :: "'f pdf_env \<Rightarrow> 'f pdf_object list \<Rightarrow> nat \<Rightarrow> bytes" where
  "GetStringAt env os index = (if length os \<le> index then [] else GetString env (os ! index))"

section \<open>Key derivation\<close>

definition kDefaultPasscode :: bytes where
  "kDefaultPasscode = [0x28, 0xbf, 0x4e, 0x5e, 0x4e, 0x75, 0x8a, 0x41, 0x64, 0x00, 0x4e,
    0x56, 0xff, 0xfa, 0x01, 0x08, 0x2e, 0x2e, 0x00, 0xb6, 0xd0, 0x68,
    0x3e, 0x80, 0x2f, 0x0c, 0xa9, 0xfe, 0x64, 0x53, 0x69, 0x7a]"

definition GetPassCode :: "bytes \<Rightarrow> bytes" where
  "GetPassCode password =
    (let len = min (length password) 32; remaining = 32 - len
     in take len password @ take remaining kDefaultPasscode)"

text \<open>The bytes of a number in the memory of a little-endian machine.\<close>

definition as_bytes :: "u32 \<Rightarrow> bytes" where
  "as_bytes n = PUT_UINT32 n"

definition CalcEncryptKey :: "'f pdf_env \<Rightarrow> 'f dict \<Rightarrow> bytes \<Rightarrow> nat \<Rightarrow> bool \<Rightarrow> bytes \<Rightarrow> bytes" where
  "CalcEncryptKey env pEncrypt password keylen ignore_metadata file_id =
    (let md5 = CRYPT_MD5Start;
         md5 = CRYPT_MD5Update md5 (GetPassCode password);
         md5 = CRYPT_MD5Update md5 (GetStringFor env pEncrypt (B ''O''));
         md5 = CRYPT_MD5Update md5 (as_bytes (of_int (GetIntegerFor env pEncrypt (B ''P''))));
         md5 = (if file_id \<noteq> [] then CRYPT_MD5Update md5 file_id else md5);
         is_revision_3_or_greater = (3 \<le> GetIntegerFor env pEncrypt (B ''R''));
         md5 = (if \<not> ignore_metadata \<and> is_revision_3_or_greater \<and> \<not> GetBooleanFor pEncrypt (B ''EncryptMetadata'') True
                then CRYPT_MD5Update md5 (as_bytes 0xFFFFFFFF) else md5);
         digest = snd (CRYPT_MD5Finish md5);
         copy_len = min keylen 16;
         digest = (if is_revision_3_or_greater then ((\<lambda>digest. CRYPT_MD5Generate (take copy_len digest)) ^^ 50) digest else digest)
     in memcpy (replicate keylen 0) 0 (take copy_len digest))"

fun IsValidKeyLengthForCipher :: "Cipher \<Rightarrow> int \<Rightarrow> bool" where
  "IsValidKeyLengthForCipher kAES keylen \<longleftrightarrow> keylen = 16 \<or> keylen = 24 \<or> keylen = 32"
| "IsValidKeyLengthForCipher kAES2 keylen \<longleftrightarrow> keylen = 32"
| "IsValidKeyLengthForCipher kRC4 keylen \<longleftrightarrow> 5 \<le> keylen \<and> keylen \<le> 16"
| "IsValidKeyLengthForCipher kNone keylen \<longleftrightarrow> True"

section \<open>The hash of revision 6\<close>

definition FX_GET_32WORD :: "bytes \<Rightarrow> nat \<Rightarrow> u32" where
  "FX_GET_32WORD b i = ucast (push_bit 24 (ucast (b ! i) :: u64) OR push_bit 16 (ucast (b ! (i + 1))) OR
    push_bit 8 (ucast (b ! (i + 2))) OR ucast (b ! (i + 3)))"

definition BigOrder64BitsMod3 :: "bytes \<Rightarrow> nat" where
  "BigOrder64BitsMod3 data = unat (foldl (\<lambda>ret i. (push_bit 32 ret OR ucast (FX_GET_32WORD data (4 * i))) mod 3) (0 :: u64) [0..<4])"

text \<open>One round: the context, the last byte of the encrypted text, and the digest that is the next input.\<close>

definition revision6_round ::
  "bytes \<Rightarrow> bytes \<Rightarrow> CRYPT_aes_context \<Rightarrow> bytes \<Rightarrow> (CRYPT_aes_context \<times> byte \<times> bytes) option" where
  "revision6_round password vec aes input =
    (let content = concat (replicate 64 (password @ input @ vec));
         iBufLen = length content;
         aes = CRYPT_AESSetIV (CRYPT_AESSetKey aes input 16) (drop 16 input)
     in if 2 ^ 31 \<le> iBufLen then None
        else map_option (\<lambda>(aes, E).
            (aes, E ! (iBufLen - 1),
             case BigOrder64BitsMod3 E of 0 \<Rightarrow> CRYPT_SHA256Generate E
             | Suc 0 \<Rightarrow> CRYPT_SHA384Generate E | _ \<Rightarrow> CRYPT_SHA512Generate E))
          (CRYPT_AESEncrypt aes content (of_nat iBufLen)))"

function revision6_loop :: "bytes \<Rightarrow> bytes \<Rightarrow> nat \<Rightarrow> CRYPT_aes_context \<Rightarrow> byte \<Rightarrow> bytes \<Rightarrow> bytes option" where
  "revision6_loop password vec i aes e_last input =
    (if i < 64 \<or> i < unat e_last + 32 then
       case revision6_round password vec aes input of
         None \<Rightarrow> None
       | Some (aes, e_last, input) \<Rightarrow> revision6_loop password vec (i + 1) aes e_last input
     else Some input)"
  by pat_completeness auto
termination
proof (relation "measure (\<lambda>(password, vec, i, aes, e_last, input). 287 - i)", simp, goal_cases)
  case (1 password vec i aes e_last input r aes' p e_last' input')
  have "unat e_last < 256" by (rule order_less_le_trans [OF unsigned_less]) simp
  then have "i < 287" using 1(1) by linarith
  then show ?case by simp
qed

declare revision6_loop.simps [simp del]

text \<open>The salt has eight bytes and the vector, when there is one, has 48.\<close>

definition Revision6_Hash :: "bytes \<Rightarrow> bytes \<Rightarrow> bytes option \<Rightarrow> bytes option" where
  "Revision6_Hash password salts vec =
    (let sha = CRYPT_SHA256Start;
         sha = CRYPT_SHA256Update sha password;
         sha = CRYPT_SHA256Update sha salts;
         sha = (case vec of None \<Rightarrow> sha | Some v \<Rightarrow> CRYPT_SHA256Update sha v)
     in map_option (take 32)
          (revision6_loop password (case vec of None \<Rightarrow> [] | Some v \<Rightarrow> v) 0 zero_aes_context 0 (snd (CRYPT_SHA256Finish sha))))"

section \<open>The handler\<close>

datatype PasswordEncodingConversion = kUnknown | kNoConversion | kLatin1ToUtf8 | kUtf8toLatin1

record 'f security_handler =
  m_bOwnerUnlocked :: bool
  m_Version :: int
  m_Revision :: int
  m_Permissions :: u32
  sec_KeyLen :: nat
  sec_Cipher :: Cipher
  m_PasswordEncodingConversion :: PasswordEncodingConversion
  m_FileId :: bytes
  m_pEncryptDict :: "'f dict option"
  m_pCryptoHandler :: "crypto_handler option"
  sec_EncryptKey :: bytes

text \<open>The key has no initial value.\<close>

definition CPDF_SecurityHandler :: "bytes \<Rightarrow> 'f security_handler" where
  "CPDF_SecurityHandler key = \<lparr>m_bOwnerUnlocked = False, m_Version = 0, m_Revision = 0, m_Permissions = 0,
    sec_KeyLen = 0, sec_Cipher = kNone, m_PasswordEncodingConversion = kUnknown, m_FileId = [],
    m_pEncryptDict = None, m_pCryptoHandler = None, sec_EncryptKey = key\<rparr>"

definition IsMetadataEncrypted :: "'f security_handler \<Rightarrow> bool option" where
  "IsMetadataEncrypted sh = map_option (\<lambda>m. GetBooleanFor m (B ''EncryptMetadata'') True) (m_pEncryptDict sh)"

definition GetPermissions :: "'f pdf_env \<Rightarrow> 'f security_handler \<Rightarrow> u32" where
  "GetPermissions env sh =
    (let dwPermission = (if m_bOwnerUnlocked sh then 0xFFFFFFFF else m_Permissions sh)
     in case m_pEncryptDict sh of
          Some m \<Rightarrow> if GetStringFor env m (B ''Filter'') = B ''Standard''
            then (dwPermission AND 0xFFFFFFFC) OR 0xFFFFF0C0 else dwPermission
        | None \<Rightarrow> dwPermission)"

definition InitCryptoHandler :: "'f security_handler \<Rightarrow> 'f security_handler option" where
  "InitCryptoHandler sh =
    map_option (\<lambda>h. sh\<lparr>m_pCryptoHandler := Some h\<rparr>) (CPDF_CryptoHandler (sec_Cipher sh) (sec_EncryptKey sh) (sec_KeyLen sh))"

section \<open>The encryption dictionary\<close>

text \<open>Division of the source, which truncates.\<close>

definition div8 :: "int \<Rightarrow> int" where
  "div8 n = (if n < 0 then - (- n div 8) else n div 8)"

definition filter_key_bits :: "'f pdf_env \<Rightarrow> 'f dict \<Rightarrow> 'f dict \<Rightarrow> int \<Rightarrow> int" where
  "filter_key_bits env pEncryptDict pDefFilter Version =
    (if Version = 4 then
       let nKeyBits = GetIntegerOr env pDefFilter (B ''Length'') 0
       in if nKeyBits = 0 then GetIntegerOr env pEncryptDict (B ''Length'') 128 else nKeyBits
     else GetIntegerOr env pEncryptDict (B ''Length'') 256)"

text \<open>The cipher is stored as soon as it is known, the length only on success.\<close>

definition checked_key :: "Cipher \<Rightarrow> int \<Rightarrow> bool \<times> Cipher \<times> nat" where
  "checked_key cipher keylen =
    (if keylen < 0 \<or> 32 < keylen then (False, cipher, 0)
     else if \<not> IsValidKeyLengthForCipher cipher keylen then (False, cipher, 0)
     else (True, cipher, nat keylen))"

definition LoadCryptInfo :: "'f pdf_env \<Rightarrow> 'f dict \<Rightarrow> bytes \<Rightarrow> bool \<times> Cipher \<times> nat" where
  "LoadCryptInfo env pEncryptDict name =
    (let Version = GetIntegerFor env pEncryptDict (B ''V'') in
     if 4 \<le> Version then
       case GetDictFor env pEncryptDict (B ''CF'') of
         None \<Rightarrow> (False, kRC4, 0)
       | Some pCryptFilters \<Rightarrow>
           if name = B ''Identity'' then checked_key kNone 0
           else
             case GetDictFor env pCryptFilters name of
               None \<Rightarrow> (False, kRC4, 0)
             | Some pDefFilter \<Rightarrow>
                 let nKeyBits = filter_key_bits env pEncryptDict pDefFilter Version in
                 if nKeyBits < 0 then (False, kRC4, 0)
                 else
                   let nKeyBits = (if nKeyBits < 40 then nKeyBits * 8 else nKeyBits);
                       cipher_name = GetStringFor env pDefFilter (B ''CFM'')
                   in checked_key (if cipher_name = B ''AESV2'' \<or> cipher_name = B ''AESV3'' then kAES else kRC4) (div8 nKeyBits)
     else checked_key kRC4 (if 1 < Version then div8 (GetIntegerOr env pEncryptDict (B ''Length'') 40) else 5))"

definition load_numbers :: "'f pdf_env \<Rightarrow> 'f dict \<Rightarrow> 'f security_handler \<Rightarrow> 'f security_handler" where
  "load_numbers env m sh = sh\<lparr>m_pEncryptDict := Some m, m_Version := GetIntegerFor env m (B ''V''),
    m_Revision := GetIntegerFor env m (B ''R''), m_Permissions := of_int (GetIntegerOr env m (B ''P'') (- 1))\<rparr>"

definition LoadDict :: "'f pdf_env \<Rightarrow> 'f dict \<Rightarrow> 'f security_handler \<Rightarrow> bool \<times> 'f security_handler" where
  "LoadDict env m sh =
    (let sh = load_numbers env m sh in
     if m_Version sh < 4 then
       let (ok, cipher, keylen) = LoadCryptInfo env m [] in (ok, sh\<lparr>sec_Cipher := cipher, sec_KeyLen := keylen\<rparr>)
     else
       let stmf_name = GetStringFor env m (B ''StmF'');
           strf_name = GetStringFor env m (B ''StrF'')
       in if stmf_name \<noteq> strf_name then (False, sh)
          else let (ok, cipher, keylen) = LoadCryptInfo env m strf_name in (ok, sh\<lparr>sec_Cipher := cipher, sec_KeyLen := keylen\<rparr>))"

text \<open>The variant with output arguments keeps the cipher and the length of the handler on failure.\<close>

definition LoadDict_out :: "'f pdf_env \<Rightarrow> 'f dict \<Rightarrow> 'f security_handler \<Rightarrow> bool \<times> 'f security_handler" where
  "LoadDict_out env m sh =
    (let sh = load_numbers env m sh;
         stmf_name = (if 4 \<le> m_Version sh then GetStringFor env m (B ''StmF'') else []);
         strf_name = (if 4 \<le> m_Version sh then GetStringFor env m (B ''StrF'') else [])
     in if stmf_name \<noteq> strf_name then (False, sh)
        else
          case LoadCryptInfo env m strf_name of
            (False, cipher, keylen) \<Rightarrow> (False, sh)
          | (True, cipher, keylen) \<Rightarrow> (True, sh\<lparr>sec_Cipher := cipher, sec_KeyLen := keylen\<rparr>))"

section \<open>Checking passwords\<close>

definition password_hash :: "int \<Rightarrow> bytes \<Rightarrow> bytes \<Rightarrow> bytes option \<Rightarrow> bytes option" where
  "password_hash revision password salts vec =
    (if 6 \<le> revision then Revision6_Hash password salts vec
     else
       let sha = CRYPT_SHA256Start;
           sha = CRYPT_SHA256Update sha password;
           sha = CRYPT_SHA256Update sha salts;
           sha = (case vec of None \<Rightarrow> sha | Some v \<Rightarrow> CRYPT_SHA256Update sha v)
       in Some (snd (CRYPT_SHA256Finish sha)))"

definition FXSYS_UINT32_GET_LSBFIRST :: "bytes \<Rightarrow> u32" where
  "FXSYS_UINT32_GET_LSBFIRST p = push_bit 24 (ucast (p ! 3)) OR push_bit 16 (ucast (p ! 2)) OR
    push_bit 8 (ucast (p ! 1)) OR ucast (p ! 0)"

text \<open>The second half of the check: the permissions are decrypted with the key of the file.\<close>

definition check_perms :: "'f pdf_env \<Rightarrow> CRYPT_aes_context \<Rightarrow> 'f security_handler \<Rightarrow> (bool \<times> 'f security_handler) option" where
  "check_perms env aes sh =
    Option.bind (m_pEncryptDict sh) (\<lambda>m.
    let aes = CRYPT_AESSetIV (CRYPT_AESSetKey aes (sec_EncryptKey sh) 32) (replicate 16 0);
        perms = GetStringFor env m (B ''Perms'')
    in if perms = [] then Some (False, sh)
       else
         Option.bind (CRYPT_AESDecrypt aes (memcpy (replicate 16 0) 0 (take (min 16 (length perms)) perms)) 16) (\<lambda>(aes, buf).
         if buf ! 9 \<noteq> 0x61 \<or> buf ! 10 \<noteq> 0x64 \<or> buf ! 11 \<noteq> 0x62 then Some (False, sh)
         else if FXSYS_UINT32_GET_LSBFIRST buf \<noteq> m_Permissions sh then Some (False, sh)
         else map_option (\<lambda>encrypted. (buf ! 8 = 0x46 \<or> encrypted, sh)) (IsMetadataEncrypted sh)))"

definition AES256_CheckPassword :: "'f pdf_env \<Rightarrow> bytes \<Rightarrow> bool \<Rightarrow> 'f security_handler \<Rightarrow> (bool \<times> 'f security_handler) option" where
  "AES256_CheckPassword env password bOwner sh =
    Option.bind (m_pEncryptDict sh) (\<lambda>m.
    let okey = GetStringFor env m (B ''O'');
        ukey = GetStringFor env m (B ''U'');
        pkey = (if bOwner then okey else ukey);
        vec = (if bOwner then Some (take 48 ukey) else None)
    in if length okey < 48 \<or> length ukey < 48 then Some (False, sh)
       else
         Option.bind (password_hash (m_Revision sh) password (take 8 (drop 32 pkey)) vec) (\<lambda>digest.
         if digest \<noteq> take 32 pkey then Some (False, sh)
         else
           Option.bind (password_hash (m_Revision sh) password (take 8 (drop 40 pkey)) vec) (\<lambda>digest.
           let ekey = GetStringFor env m (if bOwner then B ''OE'' else B ''UE'')
           in if length ekey < 32 then Some (False, sh)
              else
                let aes = CRYPT_AESSetIV (CRYPT_AESSetKey zero_aes_context digest 32) (replicate 16 0)
                in Option.bind (CRYPT_AESDecrypt aes ekey 32) (\<lambda>(aes, key).
                   Option.bind (spancpy (sec_EncryptKey sh) 0 key) (\<lambda>key. check_perms env aes (sh\<lparr>sec_EncryptKey := key\<rparr>))))))"

definition rc4_rounds :: "bytes \<Rightarrow> nat list \<Rightarrow> bytes \<Rightarrow> bytes" where
  "rc4_rounds key rounds data = foldl (\<lambda>data i. CRYPT_ArcFourCryptBlock data (map (\<lambda>b. b XOR of_nat i) key)) data rounds"

definition user_digest :: "bytes \<Rightarrow> bytes" where
  "user_digest file_id =
    (let md5 = CRYPT_MD5Start;
         md5 = CRYPT_MD5Update md5 kDefaultPasscode;
         md5 = (if file_id \<noteq> [] then CRYPT_MD5Update md5 file_id else md5)
     in snd (CRYPT_MD5Finish md5))"

definition CheckUserPassword :: "'f pdf_env \<Rightarrow> bytes \<Rightarrow> bool \<Rightarrow> 'f security_handler \<Rightarrow> (bool \<times> 'f security_handler) option" where
  "CheckUserPassword env password bIgnoreEncryptMeta sh =
    Option.bind (m_pEncryptDict sh) (\<lambda>m.
    Option.bind (spancpy (sec_EncryptKey sh) 0
        (CalcEncryptKey env m password (sec_KeyLen sh) bIgnoreEncryptMeta (m_FileId sh))) (\<lambda>key.
    let sh = sh\<lparr>sec_EncryptKey := key\<rparr>;
        ukey = GetStringFor env m (B ''U'');
        key = take (sec_KeyLen sh) key
    in if length ukey < 16 then Some (False, sh)
       else if m_Revision sh = 2 then
         Some (take 16 ukey = take 16 (CRYPT_ArcFourCryptBlock kDefaultPasscode key), sh)
       else
         let test = rc4_rounds key (rev [0..<20]) (memcpy (replicate 32 0) 0 (take (min 32 (length ukey)) ukey))
         in Some (take 16 test = take 16 (user_digest (m_FileId sh)), sh)))"

definition owner_digest :: "int \<Rightarrow> bytes \<Rightarrow> bytes" where
  "owner_digest revision owner_password =
    (let digest = CRYPT_MD5Generate (GetPassCode owner_password)
     in if 3 \<le> revision then (CRYPT_MD5Generate ^^ 50) digest else digest)"

fun strip_passcode :: "bytes \<Rightarrow> nat \<Rightarrow> nat" where
  "strip_passcode passcode 0 = 0"
| "strip_passcode passcode (Suc len) =
    (if kDefaultPasscode ! len = passcode ! len then strip_passcode passcode len else Suc len)"

definition GetUserPassword :: "'f pdf_env \<Rightarrow> bytes \<Rightarrow> 'f security_handler \<Rightarrow> bytes option" where
  "GetUserPassword env owner_password sh =
    map_option (\<lambda>m.
      let okey = GetStringFor env m (B ''O'') in
      if length okey < 32 then []
      else
        let digest = owner_digest (m_Revision sh) owner_password;
            enckey = memcpy (replicate 32 0) 0 (take (min (sec_KeyLen sh) 16) digest);
            key = take (sec_KeyLen sh) enckey;
            okeybuf = (if m_Revision sh = 2 then CRYPT_ArcFourCryptBlock (take 32 okey) key
                       else rc4_rounds key (rev [0..<20]) (take 32 okey))
        in take (strip_passcode okeybuf 32) okeybuf) (m_pEncryptDict sh)"

definition check_both :: "'f pdf_env \<Rightarrow> bytes \<Rightarrow> 'f security_handler \<Rightarrow> (bool \<times> 'f security_handler) option" where
  "check_both env password sh =
    Option.bind (CheckUserPassword env password False sh) (\<lambda>(ok, sh).
    if ok then Some (True, sh) else CheckUserPassword env password True sh)"

definition CheckOwnerPassword :: "'f pdf_env \<Rightarrow> bytes \<Rightarrow> 'f security_handler \<Rightarrow> (bool \<times> 'f security_handler) option" where
  "CheckOwnerPassword env password sh =
    Option.bind (GetUserPassword env password sh) (\<lambda>user_pass. check_both env user_pass sh)"

definition CheckPasswordImpl :: "'f pdf_env \<Rightarrow> bytes \<Rightarrow> bool \<Rightarrow> 'f security_handler \<Rightarrow> (bool \<times> 'f security_handler) option" where
  "CheckPasswordImpl env password bOwner sh =
    (if 5 \<le> m_Revision sh then AES256_CheckPassword env password bOwner sh
     else if bOwner then CheckOwnerPassword env password sh
     else check_both env password sh)"

definition IsASCII :: "bytes \<Rightarrow> bool" where
  "IsASCII s \<longleftrightarrow> list_all (\<lambda>c. 0 < c \<and> c \<le> 127) s"

definition FromLatin1 :: "bytes \<Rightarrow> wstring" where
  "FromLatin1 s = map unat s"

definition ToLatin1 :: "wstring \<Rightarrow> bytes" where
  "ToLatin1 w = map of_nat w"

definition CheckPassword :: "'f pdf_env \<Rightarrow> bytes \<Rightarrow> bool \<Rightarrow> 'f security_handler \<Rightarrow> (bool \<times> 'f security_handler) option" where
  "CheckPassword env password bOwner sh =
    Option.bind (CheckPasswordImpl env password bOwner sh) (\<lambda>(ok, sh).
    if ok then Some (True, sh\<lparr>m_PasswordEncodingConversion := kNoConversion\<rparr>)
    else if IsASCII password then Some (False, sh)
    else
      let (converted, conversion) =
            (if 5 \<le> m_Revision sh then (FX_UTF8Encode (FromLatin1 password), kLatin1ToUtf8)
             else (ToLatin1 (FX_UTF8Decode password), kUtf8toLatin1))
      in Option.bind (CheckPasswordImpl env converted bOwner sh) (\<lambda>(ok, sh).
         Some (if ok then (True, sh\<lparr>m_PasswordEncodingConversion := conversion\<rparr>) else (False, sh))))"

definition GetEncodedPassword :: "'f security_handler \<Rightarrow> bytes \<Rightarrow> bytes" where
  "GetEncodedPassword sh password = (case m_PasswordEncodingConversion sh of
      kLatin1ToUtf8 \<Rightarrow> FX_UTF8Encode (FromLatin1 password)
    | kUtf8toLatin1 \<Rightarrow> ToLatin1 (FX_UTF8Decode password)
    | _ \<Rightarrow> password)"

definition CheckSecurity :: "'f pdf_env \<Rightarrow> bytes \<Rightarrow> 'f security_handler \<Rightarrow> (bool \<times> 'f security_handler) option" where
  "CheckSecurity env password sh =
    Option.bind (if password \<noteq> [] then CheckPassword env password True sh else Some (False, sh)) (\<lambda>(ok, sh).
    if ok then Some (True, sh\<lparr>m_bOwnerUnlocked := True\<rparr>) else CheckPassword env password False sh)"

definition id_string :: "'f pdf_env \<Rightarrow> 'f pdf_object list option \<Rightarrow> bytes" where
  "id_string env pIdArray = (case pIdArray of None \<Rightarrow> [] | Some os \<Rightarrow> GetStringAt env os 0)"

definition OnInit ::
  "'f pdf_env \<Rightarrow> 'f dict \<Rightarrow> 'f pdf_object list option \<Rightarrow> bytes \<Rightarrow> 'f security_handler \<Rightarrow> (bool \<times> 'f security_handler) option" where
  "OnInit env pEncryptDict pIdArray password sh =
    (let (ok, sh) = LoadDict env pEncryptDict (sh\<lparr>m_FileId := id_string env pIdArray\<rparr>) in
     if \<not> ok then Some (False, sh)
     else if sec_Cipher sh = kNone then Some (True, sh)
     else
       Option.bind (CheckSecurity env password sh) (\<lambda>(ok, sh).
       if \<not> ok then Some (False, sh) else map_option (Pair True) (InitCryptoHandler sh)))"

section \<open>Creating the dictionary\<close>

definition set_entry :: "string \<Rightarrow> bytes \<Rightarrow> 'f security_handler \<Rightarrow> 'f security_handler" where
  "set_entry key str sh = sh\<lparr>m_pEncryptDict := map_option (SetFor (B key) (PString str False)) (m_pEncryptDict sh)\<rparr>"

definition AES256_SetPassword :: "'f pdf_env \<Rightarrow> bytes \<Rightarrow> bool \<Rightarrow> 'f security_handler \<Rightarrow> 'f security_handler option" where
  "AES256_SetPassword env password bOwner sh =
    Option.bind (m_pEncryptDict sh) (\<lambda>m.
    let sha = CRYPT_SHA1Start;
        sha = CRYPT_SHA1Update sha (sec_EncryptKey sh);
        sha = CRYPT_SHA1Update sha (B ''hello'');
        digest = snd (CRYPT_SHA1Finish sha);
        ukey = GetStringFor env m (B ''U'')
    in Option.bind (if \<not> bOwner then Some None
           else if 6 \<le> m_Revision sh then map_option Some (subspan ukey 0 48) else Some (Some ukey)) (\<lambda>vec.
       Option.bind (password_hash (m_Revision sh) password (take 8 digest) vec) (\<lambda>digest1.
       let sh = set_entry (if bOwner then ''O'' else ''U'') (take 32 digest1 @ take 16 digest) sh
       in Option.bind (password_hash (m_Revision sh) password (take 8 (drop 8 digest)) vec) (\<lambda>digest1.
          let aes = CRYPT_AESSetIV (CRYPT_AESSetKey zero_aes_context (take 32 digest1) 32) (replicate 16 0)
          in map_option (\<lambda>(aes, out). set_entry (if bOwner then ''OE'' else ''UE'') out sh)
               (CRYPT_AESEncrypt aes (sec_EncryptKey sh) 32)))))"

definition AES256_SetPerms :: "bytes \<Rightarrow> 'f security_handler \<Rightarrow> 'f security_handler option" where
  "AES256_SetPerms random sh =
    Option.bind (m_pEncryptDict sh) (\<lambda>m.
    let p = m_Permissions sh;
        buf = [ucast p, ucast (drop_bit 8 p), ucast (drop_bit 16 p), ucast (drop_bit 24 p), 0xff, 0xff, 0xff, 0xff,
          if GetBooleanFor m (B ''EncryptMetadata'') True then 0x54 else 0x46, 0x61, 0x64, 0x62] @ random;
        aes = CRYPT_AESSetIV (CRYPT_AESSetKey zero_aes_context (sec_EncryptKey sh) 32) (replicate 16 0)
    in map_option (\<lambda>(aes, buf1). set_entry ''Perms'' buf1 sh) (CRYPT_AESEncrypt aes buf 16))"

definition create_owner_entry :: "bytes \<Rightarrow> bytes \<Rightarrow> 'f security_handler \<Rightarrow> 'f security_handler option" where
  "create_owner_entry user_password owner_password sh =
    map_option (\<lambda>enckey.
        let passcode = CRYPT_ArcFourCryptBlock (GetPassCode user_password) enckey;
            passcode = (if 3 \<le> m_Revision sh then rc4_rounds enckey [1..<20] passcode else passcode)
        in set_entry ''O'' passcode sh)
      (subspan (owner_digest (m_Revision sh) owner_password) 0 (sec_KeyLen sh))"

definition create_user_entry :: "'f pdf_env \<Rightarrow> bytes \<Rightarrow> bytes \<Rightarrow> 'f security_handler \<Rightarrow> 'f security_handler option" where
  "create_user_entry env file_id user_password sh =
    Option.bind (m_pEncryptDict sh) (\<lambda>m.
    Option.bind (spancpy (sec_EncryptKey sh) 0 (CalcEncryptKey env m user_password (sec_KeyLen sh) False file_id)) (\<lambda>key.
    let sh = sh\<lparr>sec_EncryptKey := key\<rparr>;
        key = take (sec_KeyLen sh) key
    in if m_Revision sh < 3 then Some (set_entry ''U'' (CRYPT_ArcFourCryptBlock kDefaultPasscode key) sh)
       else
         let digest = rc4_rounds key [1..<20] (CRYPT_ArcFourCryptBlock (user_digest file_id) key)
         in Some (set_entry ''U'' (digest @ CRYPT_MD5Generate digest) sh)))"

text \<open>The arguments \<open>random\<close> and \<open>random1\<close> are the sixteen and the four bytes the random number generator gives.\<close>

definition OnCreateInternal ::
  "'f pdf_env \<Rightarrow> bytes \<Rightarrow> bytes \<Rightarrow> 'f dict \<Rightarrow> 'f pdf_object list option \<Rightarrow> bytes \<Rightarrow> bytes \<Rightarrow> bool \<Rightarrow>
    'f security_handler \<Rightarrow> 'f security_handler option" where
  "OnCreateInternal env random random1 pEncryptDict pIdArray user_password owner_password bDefault sh =
    (let (ok, sh) = LoadDict_out env pEncryptDict sh in
     if \<not> ok then Some sh
     else
       let owner_password_copy = (if bDefault \<and> owner_password = [] then user_password else owner_password) in
       if 5 \<le> m_Revision sh then
         let sha = CRYPT_SHA256Update CRYPT_SHA256Start random
         in Option.bind (spancpy (sec_EncryptKey sh) 0 (snd (CRYPT_SHA256Finish sha))) (\<lambda>key.
            Option.bind (AES256_SetPassword env user_password False (sh\<lparr>sec_EncryptKey := key\<rparr>)) (\<lambda>sh.
            Option.bind (if bDefault then AES256_SetPassword env owner_password_copy True sh else Some sh)
              (AES256_SetPerms random1)))
       else
         Option.bind (if bDefault then create_owner_entry user_password owner_password_copy sh else Some sh)
           (create_user_entry env (id_string env pIdArray) user_password))"

definition OnCreate ::
  "'f pdf_env \<Rightarrow> bytes \<Rightarrow> bytes \<Rightarrow> 'f dict \<Rightarrow> 'f pdf_object list option \<Rightarrow> bytes \<Rightarrow> bytes \<Rightarrow>
    'f security_handler \<Rightarrow> 'f security_handler option" where
  "OnCreate env random random1 pEncryptDict pIdArray user_password owner_password sh =
    Option.bind (OnCreateInternal env random random1 pEncryptDict pIdArray user_password owner_password True sh) InitCryptoHandler"

definition OnCreate_user ::
  "'f pdf_env \<Rightarrow> bytes \<Rightarrow> bytes \<Rightarrow> 'f dict \<Rightarrow> 'f pdf_object list option \<Rightarrow> bytes \<Rightarrow>
    'f security_handler \<Rightarrow> 'f security_handler option" where
  "OnCreate_user env random random1 pEncryptDict pIdArray user_password sh =
    Option.bind (OnCreateInternal env random random1 pEncryptDict pIdArray user_password [] False sh) InitCryptoHandler"

end
