(* ===== verification/Pdf_Passwords.thy ===== *)
theory Pdf_Passwords
  imports Pdf_Security
begin

text \<open>
  Correctness of the security handler of theory Pdf_Security: a document that was created can be opened with the user
  password and with the owner password, and opens it restores the key.
\<close>

section \<open>Entries of the dictionary\<close>

lemma GetStringFor_same: "keys_ok m \<Longrightarrow> GetStringFor env (SetFor k (PString s hex) m) k = s"
  by (simp add: GetStringFor_def GetObjectFor_def keys_ok_def SetFor_lookup GetString_def GetDirect_def direct_string_def)

lemma GetStringFor_other: "k \<noteq> key \<Longrightarrow> GetStringFor env (SetFor key ob m) k = GetStringFor env m k"
  by (simp add: GetStringFor_def GetObjectFor_def map_of_SetFor_other)

text \<open>The keys that creating a dictionary writes, and dictionaries that agree on all others.\<close>

definition created :: "bytes set" where
  "created = {B ''O'', B ''U'', B ''OE'', B ''UE'', B ''Perms''}"

definition agrees :: "'f dict \<Rightarrow> 'f dict \<Rightarrow> bool" where
  "agrees m m' \<longleftrightarrow> (\<forall>k. k \<notin> created \<longrightarrow> map_of m' k = map_of m k)"

lemma agrees_refl [simp]: "agrees m m"
  by (simp add: agrees_def)

lemma agrees_SetFor: "agrees m m' \<Longrightarrow> k \<in> created \<Longrightarrow> agrees m (SetFor k ob m')"
  unfolding agrees_def using map_of_SetFor_other by metis

lemma not_created:
  "B ''V'' \<notin> created" "B ''R'' \<notin> created" "B ''P'' \<notin> created" "B ''CF'' \<notin> created" "B ''Length'' \<notin> created"
  "B ''StmF'' \<notin> created" "B ''StrF'' \<notin> created" "B ''EncryptMetadata'' \<notin> created"
  by (simp_all add: created_def B_def)

lemma entry_names [simp]:
  "B ''O'' \<noteq> B ''U''" "B ''O'' \<noteq> B ''OE''" "B ''O'' \<noteq> B ''UE''" "B ''O'' \<noteq> B ''Perms''" "B ''U'' \<noteq> B ''O''"
  "B ''U'' \<noteq> B ''OE''" "B ''U'' \<noteq> B ''UE''" "B ''U'' \<noteq> B ''Perms''" "B ''OE'' \<noteq> B ''O''" "B ''OE'' \<noteq> B ''U''"
  "B ''OE'' \<noteq> B ''UE''" "B ''OE'' \<noteq> B ''Perms''" "B ''UE'' \<noteq> B ''O''" "B ''UE'' \<noteq> B ''U''" "B ''UE'' \<noteq> B ''OE''"
  "B ''UE'' \<noteq> B ''Perms''" "B ''Perms'' \<noteq> B ''O''" "B ''Perms'' \<noteq> B ''U''" "B ''Perms'' \<noteq> B ''OE''" "B ''Perms'' \<noteq> B ''UE''"
  "B ''O'' \<noteq> []" "B ''U'' \<noteq> []" "B ''OE'' \<noteq> []" "B ''UE'' \<noteq> []" "B ''Perms'' \<noteq> []"
  by (simp_all add: B_def)

lemma created_names [simp]:
  "B ''O'' \<in> created" "B ''U'' \<in> created" "B ''OE'' \<in> created" "B ''UE'' \<in> created" "B ''Perms'' \<in> created"
  by (simp_all add: created_def)

lemma agrees_values:
  assumes "agrees m m'" and "k \<notin> created"
  shows "GetIntegerFor env m' k = GetIntegerFor env m k" "GetIntegerOr env m' k d = GetIntegerOr env m k d"
    "GetStringFor env m' k = GetStringFor env m k" "GetBooleanFor m' k b = GetBooleanFor m k b" "GetDictFor env m' k = GetDictFor env m k"
  using assms by (simp_all add: agrees_def GetIntegerFor_def GetIntegerOr_def GetStringFor_def GetBooleanFor_def GetDictFor_def
      GetDirectObjectFor_def GetObjectFor_def)

lemma LoadCryptInfo_agrees:
  assumes "agrees m m'"
  shows "LoadCryptInfo env m' name = LoadCryptInfo env m name"
  unfolding LoadCryptInfo_def filter_key_bits_def agrees_values(1) [OF assms not_created(1)] agrees_values(5) [OF assms not_created(4)]
    agrees_values(2) [OF assms not_created(5)]
  by (rule refl)

text \<open>What reading the dictionary stores in the handler.\<close>

definition loaded :: "'f pdf_env \<Rightarrow> 'f dict \<Rightarrow> 'f security_handler \<Rightarrow> bool" where
  "loaded env m sh \<longleftrightarrow> m_pEncryptDict sh = Some m \<and> m_Version sh = GetIntegerFor env m (B ''V'') \<and>
    m_Revision sh = GetIntegerFor env m (B ''R'') \<and> m_Permissions sh = of_int (GetIntegerOr env m (B ''P'') (- 1)) \<and>
    (m_Version sh < 4 \<or> GetStringFor env m (B ''StmF'') = GetStringFor env m (B ''StrF'')) \<and>
    LoadCryptInfo env m (if m_Version sh < 4 then [] else GetStringFor env m (B ''StrF'')) = (True, sec_Cipher sh, sec_KeyLen sh)"

lemma LoadDict_out_loaded: "LoadDict_out env m sh = (True, sh') \<Longrightarrow>
    loaded env m sh' \<and> sec_EncryptKey sh' = sec_EncryptKey sh \<and> m_FileId sh' = m_FileId sh \<and>
    m_bOwnerUnlocked sh' = m_bOwnerUnlocked sh \<and> m_PasswordEncodingConversion sh' = m_PasswordEncodingConversion sh"
  by (auto simp: LoadDict_out_def loaded_def load_numbers_def Let_def split: if_splits prod.splits bool.splits)

lemma LoadDict_agrees:
  assumes "loaded env m sh" and "agrees m m'"
  shows "LoadDict env m' sh0 = (True, sh0\<lparr>m_pEncryptDict := Some m', m_Version := m_Version sh, m_Revision := m_Revision sh,
    m_Permissions := m_Permissions sh, sec_Cipher := sec_Cipher sh, sec_KeyLen := sec_KeyLen sh\<rparr>)"
  using assms(1) LoadCryptInfo_agrees [OF assms(2)] not_created agrees_values [OF assms(2)]
  by (auto simp: LoadDict_def loaded_def load_numbers_def Let_def)

lemma checked_key_valid: "checked_key c n = (True, c', k) \<Longrightarrow> c' = c \<and> k \<le> 32 \<and> int k = n \<and> IsValidKeyLengthForCipher c (int k)"
  by (auto simp: checked_key_def split: if_splits)

lemma LoadCryptInfo_valid:
  "LoadCryptInfo env m name = (True, c, k) \<Longrightarrow> k \<le> 32 \<and> IsValidKeyLengthForCipher c (int k) \<and> c \<noteq> kAES2"
  by (auto simp: LoadCryptInfo_def Let_def split: if_splits option.splits dest!: checked_key_valid)

lemma loaded_key_length: "loaded env m sh \<Longrightarrow> sec_KeyLen sh \<le> 32 \<and> IsValidKeyLengthForCipher (sec_Cipher sh) (int (sec_KeyLen sh)) \<and> sec_Cipher sh \<noteq> kAES2"
  by (auto simp: loaded_def dest: LoadCryptInfo_valid)

section \<open>Passcodes\<close>

lemma length_kDefaultPasscode: "length kDefaultPasscode = 32"
  by (simp add: kDefaultPasscode_def)

lemma length_GetPassCode [simp]: "length (GetPassCode p) = 32"
  by (cases "length p \<le> 32") (simp_all add: GetPassCode_def Let_def length_kDefaultPasscode)

lemma GetPassCode_full: "length p = 32 \<Longrightarrow> GetPassCode p = p"
  by (simp add: GetPassCode_def)

lemma CalcEncryptKey_passcode:
  "GetPassCode p = GetPassCode q \<Longrightarrow> CalcEncryptKey env m p n ig i = CalcEncryptKey env m q n ig i"
  by (simp add: CalcEncryptKey_def)

lemma length_CalcEncryptKey: "length (CalcEncryptKey env m p n ig i) = n"
proof -
  have "length (take (min n 16) d) \<le> n" for d :: bytes by simp
  then show ?thesis unfolding CalcEncryptKey_def Let_def by (subst length_memcpy) (simp_all only: length_replicate add_0)
qed

lemma CalcEncryptKey_user_entry: "CalcEncryptKey env (SetFor (B ''U'') ob m) p n ig i = CalcEncryptKey env m p n ig i"
proof -
  have "B ''P'' \<noteq> B ''U''" "B ''R'' \<noteq> B ''U''" "B ''EncryptMetadata'' \<noteq> B ''U''" by (simp_all add: B_def)
  then show ?thesis
    by (simp add: CalcEncryptKey_def GetStringFor_other GetIntegerFor_def GetBooleanFor_def GetDirectObjectFor_def GetObjectFor_def map_of_SetFor_other)
qed

section \<open>Chains of RC4\<close>

lemma rc4_block_twice: "CRYPT_ArcFourCryptBlock (CRYPT_ArcFourCryptBlock d k) k = d"
  by (simp add: CRYPT_ArcFourCryptBlock_def rc4_crypt_stream map2_xor_cancel)

lemma length_rc4_block [simp]: "length (CRYPT_ArcFourCryptBlock d k) = length d"
  by (simp add: CRYPT_ArcFourCryptBlock_def rc4_crypt_stream)

lemma rc4_block_append: "\<exists>b'. CRYPT_ArcFourCryptBlock (a @ b) k = CRYPT_ArcFourCryptBlock a k @ b'"
  by (simp add: CRYPT_ArcFourCryptBlock_def rc4_crypt_stream rc4_stream_append zip_append)

lemma length_rc4_rounds [simp]: "length (rc4_rounds k is d) = length d"
  by (induction "is" arbitrary: d) (simp_all add: rc4_rounds_def)

lemma rc4_rounds_Cons: "rc4_rounds k (i # is) d = rc4_rounds k is (CRYPT_ArcFourCryptBlock d (map (\<lambda>b. b XOR of_nat i) k))"
  by (simp add: rc4_rounds_def)

lemma rc4_rounds_append: "rc4_rounds k (is @ js) d = rc4_rounds k js (rc4_rounds k is d)"
  by (simp add: rc4_rounds_def)

lemma rc4_rounds_rev: "rc4_rounds k (rev is) (rc4_rounds k is d) = d"
proof (induction "is" arbitrary: d)
  case (Cons i "is")
  then show ?case by (simp add: rc4_rounds_Cons rc4_rounds_append) (simp add: rc4_rounds_def rc4_block_twice)
qed (simp add: rc4_rounds_def)

lemma rc4_rounds_prefix: "\<exists>b'. rc4_rounds k is (a @ b) = rc4_rounds k is a @ b'"
proof (induction "is" arbitrary: a b)
  case (Cons i "is")
  then show ?case unfolding rc4_rounds_Cons using rc4_block_append by metis
qed (simp add: rc4_rounds_def)

lemma rc4_rounds_upt: "rc4_rounds k [Suc 0..<20] (CRYPT_ArcFourCryptBlock d k) = rc4_rounds k [0..<20] d"
  using rc4_rounds_Cons [of k 0 "[Suc 0..<20]" d] by (simp add: upt_conv_Cons [of 0 20])

section \<open>The entries of revisions 2 to 4\<close>

definition user_entry :: "int \<Rightarrow> bytes \<Rightarrow> bytes \<Rightarrow> bytes" where
  "user_entry revision key file_id =
    (if revision < 3 then CRYPT_ArcFourCryptBlock kDefaultPasscode key
     else let d = rc4_rounds key [0..<20] (user_digest file_id) in d @ CRYPT_MD5Generate d)"

definition owner_entry :: "int \<Rightarrow> bytes \<Rightarrow> bytes \<Rightarrow> bytes" where
  "owner_entry revision key passcode =
    (if 3 \<le> revision then rc4_rounds key [0..<20] passcode else CRYPT_ArcFourCryptBlock passcode key)"

lemma length_MD5Finish [simp]: "length (snd (CRYPT_MD5Finish c)) = 16"
  by (simp add: CRYPT_MD5Finish_def Let_def PUT_UINT32_def length_concat comp_def sum_list_triv)

lemma length_user_digest [simp]: "length (user_digest i) = 16"
  by (simp add: user_digest_def Let_def)

lemma length_user_entry [simp]: "length (user_entry r k i) = 32"
  by (simp add: user_entry_def Let_def length_kDefaultPasscode)

lemma length_owner_entry [simp]: "length (owner_entry r k (GetPassCode p)) = 32"
  by (simp add: owner_entry_def)

lemma length_owner_digest [simp]: "length (owner_digest r p) = 16"
proof -
  have "length d = 16 \<Longrightarrow> length ((CRYPT_MD5Generate ^^ n) d) = 16" for d n by (induction n) simp_all
  then show ?thesis by (simp add: owner_digest_def Let_def)
qed

lemma memcpy_start [simp]: "n = length src \<Longrightarrow> take n (memcpy dst 0 src) = src"
  by (simp add: memcpy_def)

lemma spancpy_key: "length dst = 32 \<Longrightarrow> n \<le> 32 \<Longrightarrow> spancpy dst 0 (CalcEncryptKey env m p n ig i) = Some (memcpy dst 0 (CalcEncryptKey env m p n ig i))"
  by (simp add: spancpy_def length_CalcEncryptKey)

lemma create_user_entry_eq:
  assumes "m_pEncryptDict sh = Some m" and "length (sec_EncryptKey sh) = 32" and "sec_KeyLen sh \<le> 32"
  shows "create_user_entry env i p sh = (let key = CalcEncryptKey env m p (sec_KeyLen sh) False i in
    Some (set_entry ''U'' (user_entry (m_Revision sh) key i) (sh\<lparr>sec_EncryptKey := memcpy (sec_EncryptKey sh) 0 key\<rparr>)))"
  using assms by (simp add: create_user_entry_def spancpy_key Let_def length_CalcEncryptKey user_entry_def rc4_rounds_upt)

lemma create_owner_entry_eq:
  assumes "sec_KeyLen sh \<le> 16"
  shows "create_owner_entry p q sh = Some (set_entry ''O''
    (owner_entry (m_Revision sh) (take (sec_KeyLen sh) (owner_digest (m_Revision sh) q)) (GetPassCode p)) sh)"
  using assms by (simp add: create_owner_entry_def subspan_def Let_def owner_entry_def rc4_rounds_upt)

text \<open>Checking a password calculates a key and stores it; nothing else of the handler changes.\<close>

lemma CheckUserPassword_total:
  assumes "m_pEncryptDict sh = Some m" and "length (sec_EncryptKey sh) = 32" and "sec_KeyLen sh \<le> 32"
  shows "\<exists>ok. CheckUserPassword env p ig sh =
    Some (ok, sh\<lparr>sec_EncryptKey := memcpy (sec_EncryptKey sh) 0 (CalcEncryptKey env m p (sec_KeyLen sh) ig (m_FileId sh))\<rparr>)"
  using assms by (simp add: CheckUserPassword_def spancpy_key Let_def ex_bool_eq)

lemma CheckUserPassword_entry:
  assumes "m_pEncryptDict sh = Some m" and "length (sec_EncryptKey sh) = 32" and "sec_KeyLen sh \<le> 32" and "2 \<le> m_Revision sh"
    and "key = CalcEncryptKey env m p (sec_KeyLen sh) False (m_FileId sh)"
    and "GetStringFor env m (B ''U'') = user_entry (m_Revision sh) key (m_FileId sh)"
  shows "CheckUserPassword env p False sh = Some (True, sh\<lparr>sec_EncryptKey := memcpy (sec_EncryptKey sh) 0 key\<rparr>)"
proof -
  let ?i = "m_FileId sh"
  let ?d = "rc4_rounds key [0..<20] (user_digest ?i)"
  have key: "length key = sec_KeyLen sh" by (simp add: assms(5) length_CalcEncryptKey)
  obtain b where "rc4_rounds key (rev [0..<20]) (?d @ CRYPT_MD5Generate ?d) = rc4_rounds key (rev [0..<20]) ?d @ b"
    using rc4_rounds_prefix by blast
  then have "take 16 (rc4_rounds key (rev [0..<20]) (?d @ CRYPT_MD5Generate ?d)) = user_digest ?i"
    by (simp add: rc4_rounds_rev del: upt_conv_Cons)
  moreover have "memcpy (replicate 32 0) 0 (user_entry r k i) = user_entry r k i" for r k i by (simp add: memcpy_def)
  ultimately show ?thesis
    using assms key by (simp add: CheckUserPassword_def spancpy_key Let_def) (auto simp: user_entry_def Let_def)
qed

section \<open>The owner password of revisions 2 to 4\<close>

lemma strip_passcode_le: "strip_passcode p n \<le> n"
  by (induction n) auto

lemma strip_passcode_padding: "strip_passcode p n \<le> i \<Longrightarrow> i < n \<Longrightarrow> p ! i = kDefaultPasscode ! i"
  by (induction n) (auto simp: less_Suc_eq split: if_splits)

lemma last_padding: "i < 32 \<Longrightarrow> kDefaultPasscode ! i = 0x7a \<Longrightarrow> i = 31"
proof -
  have "\<forall>i\<in>{..<32}. kDefaultPasscode ! i = 0x7a \<longrightarrow> i = 31" by (simp add: kDefaultPasscode_def lessThan_nat_numeral lessThan_Suc)
  then show "i < 32 \<Longrightarrow> kDefaultPasscode ! i = 0x7a \<Longrightarrow> i = 31" by blast
qed

lemma strip_whole: "kDefaultPasscode ! 31 \<noteq> p ! 31 \<Longrightarrow> strip_passcode p 32 = 32"
  using strip_passcode.simps(2) [of p 31] by simp

lemma strip_default: "strip_passcode kDefaultPasscode n = 0"
  by (induction n) simp_all

text \<open>The passcode is found again unless its last byte is that of the padding by accident.\<close>

definition recoverable :: "bytes \<Rightarrow> bool" where
  "recoverable password \<longleftrightarrow> length password < 32 \<or> password ! 31 \<noteq> 0x7a"

lemma recoverable_passcode:
  assumes "recoverable p" and "c = GetPassCode p"
  shows "GetPassCode (take (strip_passcode c 32) c) = c"
proof (cases "p = []")
  case True
  then have "c = kDefaultPasscode" by (simp add: assms(2) GetPassCode_def length_kDefaultPasscode)
  then show ?thesis by (simp add: strip_default GetPassCode_def length_kDefaultPasscode)
next
  case False
  have "c ! 31 \<noteq> 0x7a"
  proof (cases "length p < 32")
    case True
    then have "c ! 31 = kDefaultPasscode ! (31 - length p)"
      by (simp add: assms(2) GetPassCode_def nth_append)
    moreover have "31 - length p < 32" "31 - length p \<noteq> 31" using False by (cases p; simp)+
    ultimately show ?thesis using last_padding by metis
  next
    case False
    then show ?thesis using assms by (simp add: recoverable_def GetPassCode_def)
  qed
  then have "strip_passcode c 32 = 32" by (intro strip_whole) (simp add: kDefaultPasscode_def)
  then show ?thesis using assms(2) GetPassCode_full [of c] by simp
qed

lemma GetPassCode_short: "length q \<le> 32 \<Longrightarrow> GetPassCode q = q @ take (32 - length q) kDefaultPasscode"
  by (simp add: GetPassCode_def)

lemma cut_passcode:
  assumes "32 \<le> length p" and "p ! 31 = 0x7a" and "take 32 p \<noteq> kDefaultPasscode"
  shows "GetPassCode (take (strip_passcode (GetPassCode p) 32) (GetPassCode p)) \<noteq> GetPassCode p"
proof
  define c n where "c = GetPassCode p" and "n = strip_passcode c 32"
  assume "GetPassCode (take (strip_passcode (GetPassCode p) 32) (GetPassCode p)) = GetPassCode p"
  then have eq: "GetPassCode (take n c) = c" by (simp add: c_def n_def)
  have c: "c = take 32 p" "c ! 31 = 0x7a" "kDefaultPasscode ! 31 = 0x7a" "length c = 32"
    using assms(1,2) by (simp_all add: c_def GetPassCode_def kDefaultPasscode_def)
  then have n: "n \<le> 31" using strip_passcode.simps(2) [of c 31] strip_passcode_le [of c 31] by (simp add: n_def)
  then have code: "c = take n c @ take (32 - n) kDefaultPasscode" using GetPassCode_short [of "take n c"] eq c(4) by simp
  have "(take n c @ take (32 - n) kDefaultPasscode) ! 31 = kDefaultPasscode ! (31 - n)" using n c(4) by (simp add: nth_append)
  then have "kDefaultPasscode ! (31 - n) = 0x7a" using code c(2) by simp
  moreover have "31 - n < 32" by simp
  ultimately have "31 - n = 31" by (intro last_padding)
  then have "n = 0" using n by simp
  then show False using code c(1) assms(3) length_kDefaultPasscode by simp
qed

lemma GetUserPassword_entry:
  assumes "m_pEncryptDict sh = Some m" and "sec_KeyLen sh \<le> 16" and "2 \<le> m_Revision sh" and "c = GetPassCode p"
    and "GetStringFor env m (B ''O'') = owner_entry (m_Revision sh) (take (sec_KeyLen sh) (owner_digest (m_Revision sh) q)) c"
  shows "GetUserPassword env q sh = Some (take (strip_passcode c 32) c)"
proof -
  let ?key = "take (sec_KeyLen sh) (owner_digest (m_Revision sh) q)"
  have "take (sec_KeyLen sh) (memcpy (replicate 32 0) 0 ?key) = ?key" using assms(2) by simp
  moreover have "min (sec_KeyLen sh) 16 = sec_KeyLen sh" using assms(2) by simp
  ultimately show ?thesis
    using assms by (auto simp: GetUserPassword_def Let_def owner_entry_def rc4_block_twice rc4_rounds_rev)
qed

section \<open>Opening documents of revisions 2 to 4\<close>

text \<open>The state in which passwords are checked against the created dictionary.\<close>

definition opens :: "'f dict \<Rightarrow> bytes \<Rightarrow> nat \<Rightarrow> int \<Rightarrow> 'f security_handler \<Rightarrow> bool" where
  "opens m i n r sh \<longleftrightarrow> m_pEncryptDict sh = Some m \<and> m_FileId sh = i \<and> sec_KeyLen sh = n \<and> m_Revision sh = r \<and>
    length (sec_EncryptKey sh) = 32 \<and> n \<le> 32"

definition rekeyed :: "'f security_handler \<Rightarrow> 'f security_handler \<Rightarrow> bool" where
  "rekeyed sh sh' \<longleftrightarrow> length (sec_EncryptKey sh') = length (sec_EncryptKey sh) \<and> sh'\<lparr>sec_EncryptKey := sec_EncryptKey sh\<rparr> = sh"

lemma rekeyed_refl [simp]: "rekeyed sh sh"
  by (simp add: rekeyed_def)

lemma rekeyed_trans: "rekeyed a b \<Longrightarrow> rekeyed b c \<Longrightarrow> rekeyed a c"
  unfolding rekeyed_def by (metis security_handler.surjective security_handler.update_convs(11))

lemma rekeyed_fields:
  assumes "rekeyed sh sh'"
  shows "m_pEncryptDict sh' = m_pEncryptDict sh" "m_FileId sh' = m_FileId sh" "sec_KeyLen sh' = sec_KeyLen sh"
    "m_Revision sh' = m_Revision sh" "sec_Cipher sh' = sec_Cipher sh" "m_bOwnerUnlocked sh' = m_bOwnerUnlocked sh"
    "m_Permissions sh' = m_Permissions sh" "length (sec_EncryptKey sh') = length (sec_EncryptKey sh)"
  using assms unfolding rekeyed_def
  by (metis security_handler.select_convs security_handler.surjective security_handler.update_convs(11))+

lemma opens_rekeyed: "opens m i n r sh \<Longrightarrow> rekeyed sh sh' \<Longrightarrow> opens m i n r sh'"
  by (simp add: opens_def rekeyed_fields)

lemma CheckUserPassword_rekeyed:
  assumes "opens m i n r sh"
  shows "\<exists>ok sh'. CheckUserPassword env p ig sh = Some (ok, sh') \<and> rekeyed sh sh'"
proof -
  obtain ok where "CheckUserPassword env p ig sh = Some (ok, sh\<lparr>sec_EncryptKey := memcpy (sec_EncryptKey sh) 0 (CalcEncryptKey env m p n ig i)\<rparr>)"
    using CheckUserPassword_total [of sh m env p ig] assms by (auto simp: opens_def)
  then show ?thesis using assms by (auto simp: rekeyed_def opens_def length_CalcEncryptKey)
qed

lemma check_both_rekeyed:
  assumes "opens m i n r sh"
  shows "\<exists>ok sh'. check_both env p sh = Some (ok, sh') \<and> rekeyed sh sh'"
proof -
  obtain ok sh1 where 1: "CheckUserPassword env p False sh = Some (ok, sh1)" "rekeyed sh sh1"
    using CheckUserPassword_rekeyed [OF assms] by blast
  obtain ok' sh2 where "CheckUserPassword env p True sh1 = Some (ok', sh2)" "rekeyed sh1 sh2"
    using CheckUserPassword_rekeyed [OF opens_rekeyed [OF assms 1(2)]] by blast
  then show ?thesis using 1 rekeyed_trans by (auto simp: check_both_def)
qed

lemma CheckPasswordImpl_rekeyed:
  assumes "opens m i n r sh" and "r < 5"
  shows "\<exists>ok sh'. CheckPasswordImpl env p own sh = Some (ok, sh') \<and> rekeyed sh sh'"
proof -
  obtain up where "GetUserPassword env p sh = Some up" using assms(1) by (auto simp: GetUserPassword_def opens_def)
  then show ?thesis using assms check_both_rekeyed [OF assms(1)]
    by (auto simp: CheckPasswordImpl_def CheckOwnerPassword_def opens_def)
qed

section \<open>Opening with a scheme of passwords\<close>

definition converted :: "'f security_handler \<Rightarrow> bytes \<Rightarrow> bytes" where
  "converted sh password = (if 5 \<le> m_Revision sh then FX_UTF8Encode (FromLatin1 password) else ToLatin1 (FX_UTF8Decode password))"

lemma CryptoHandler_key:
  assumes "n \<le> 32" and "length k = 32" and "length k' = 32" and "take n k = take n k'"
  shows "CPDF_CryptoHandler c k n = CPDF_CryptoHandler c k' n" "CPDF_CryptoHandler c k n \<noteq> None"
  using assms by (simp_all add: CPDF_CryptoHandler_def subspan_def spancpy_def Let_def)

text \<open>
  The contract of the two families of key derivations: in a state that is \<open>ready\<close> for the dictionary that was created with
  the two passwords, checking a password that is not too long returns and changes only the key, the user password
  restores the key of the document, and so does the owner password when the user password is \<open>safe\<close>.
\<close>

locale password_scheme =
  fixes env :: "'f pdf_env" and ready :: "'f security_handler \<Rightarrow> bool" and checked :: "bytes \<Rightarrow> bool"
    and user owner :: bytes and safe :: bool and key :: bytes
  assumes ready_rekeyed: "ready sh \<Longrightarrow> rekeyed sh sh' \<Longrightarrow> ready sh'"
    and ready_key: "ready sh \<Longrightarrow> sec_KeyLen sh \<le> 32 \<and> length (sec_EncryptKey sh) = 32"
    and returns: "ready sh \<Longrightarrow> checked p \<Longrightarrow> \<exists>ok sh'. CheckPasswordImpl env p own sh = Some (ok, sh') \<and> rekeyed sh sh'"
    and user_opens: "ready sh \<Longrightarrow> \<exists>sh'. CheckPasswordImpl env user False sh = Some (True, sh') \<and> rekeyed sh sh' \<and>
      take (sec_KeyLen sh) (sec_EncryptKey sh') = take (sec_KeyLen sh) key"
    and owner_opens: "ready sh \<Longrightarrow> safe \<Longrightarrow> \<exists>sh'. CheckPasswordImpl env owner True sh = Some (True, sh') \<and> rekeyed sh sh' \<and>
      take (sec_KeyLen sh) (sec_EncryptKey sh') = take (sec_KeyLen sh) key"
begin

lemma CheckPassword_returns:
  assumes "ready sh" and "checked p" and "checked (converted sh p)"
  shows "\<exists>ok sh'. CheckPassword env p own sh = Some (ok, sh') \<and> (\<exists>e. rekeyed sh (sh'\<lparr>m_PasswordEncodingConversion := e\<rparr>)) \<and>
    (\<not> ok \<longrightarrow> rekeyed sh sh')"
proof -
  obtain ok sh1 where 1: "CheckPasswordImpl env p own sh = Some (ok, sh1)" "rekeyed sh sh1" using returns [OF assms(1,2)] by blast
  obtain ok' sh2 where 2: "CheckPasswordImpl env (converted sh p) own sh1 = Some (ok', sh2)" "rekeyed sh1 sh2"
    using returns [OF ready_rekeyed [OF assms(1) 1(2)] assms(3)] by blast
  have e: "rekeyed a b \<Longrightarrow> \<exists>e'. rekeyed a (b\<lparr>m_PasswordEncodingConversion := e'\<rparr>)" for a b :: "'f security_handler"
    by (rule exI [of _ "m_PasswordEncodingConversion b"]) simp
  show ?thesis
    using 1 2 rekeyed_trans [OF 1(2) 2(2)] e rekeyed_fields(4) [OF 1(2)]
    by (auto simp: CheckPassword_def converted_def Let_def split: if_splits)
qed

lemma CheckPassword_opens:
  assumes "CheckPasswordImpl env p own sh = Some (True, sh')"
  shows "CheckPassword env p own sh = Some (True, sh'\<lparr>m_PasswordEncodingConversion := kNoConversion\<rparr>)"
  using assms by (simp add: CheckPassword_def)

lemma owner_security:
  assumes "ready sh" and "safe" and "owner \<noteq> []"
  shows "\<exists>sh'. CheckSecurity env owner sh = Some (True, sh') \<and> m_bOwnerUnlocked sh' \<and> sec_Cipher sh' = sec_Cipher sh \<and>
    sec_KeyLen sh' = sec_KeyLen sh \<and> length (sec_EncryptKey sh') = 32 \<and> take (sec_KeyLen sh) (sec_EncryptKey sh') = take (sec_KeyLen sh) key"
proof -
  obtain sh' where r: "CheckPasswordImpl env owner True sh = Some (True, sh')" "rekeyed sh sh'"
    "take (sec_KeyLen sh) (sec_EncryptKey sh') = take (sec_KeyLen sh) key" using owner_opens assms by blast
  then show ?thesis using CheckPassword_opens [OF r(1)] ready_key assms rekeyed_fields [OF r(2)] by (simp add: CheckSecurity_def)
qed

lemma user_security:
  assumes "ready sh" and "checked user" and "checked (converted sh user)"
  shows "\<exists>sh'. CheckSecurity env user sh = Some (True, sh') \<and> sec_Cipher sh' = sec_Cipher sh \<and>
    sec_KeyLen sh' = sec_KeyLen sh \<and> length (sec_EncryptKey sh') = 32 \<and>
    (m_bOwnerUnlocked sh' \<or> take (sec_KeyLen sh) (sec_EncryptKey sh') = take (sec_KeyLen sh) key)"
proof -
  obtain ok sh1 where 1: "(if user \<noteq> [] then CheckPassword env user True sh else Some (False, sh)) = Some (ok, sh1)"
    "\<exists>e. rekeyed sh (sh1\<lparr>m_PasswordEncodingConversion := e\<rparr>)" "\<not> ok \<longrightarrow> rekeyed sh sh1"
  proof (cases "user = []")
    case True
    then show ?thesis by (intro that [of False sh]) (auto intro: exI [of _ "m_PasswordEncodingConversion sh"])
  next
    case False
    then show ?thesis using CheckPassword_returns [OF assms] that by fastforce
  qed
  show ?thesis
  proof (cases ok)
    case True
    obtain e where "rekeyed sh (sh1\<lparr>m_PasswordEncodingConversion := e\<rparr>)" using 1(2) by blast
    from rekeyed_fields [OF this] show ?thesis using True 1(1) ready_key [OF assms(1)] by (simp add: CheckSecurity_def)
  next
    case False
    then have r: "rekeyed sh sh1" "ready sh1" using 1(3) ready_rekeyed [OF assms(1)] by auto
    obtain sh2 where "CheckPasswordImpl env user False sh1 = Some (True, sh2)" "rekeyed sh1 sh2"
      "take (sec_KeyLen sh1) (sec_EncryptKey sh2) = take (sec_KeyLen sh1) key" using user_opens [OF r(2)] by blast
    then show ?thesis using 1(1) False CheckPassword_opens ready_key [OF r(2)] r(1)
      by (auto simp: CheckSecurity_def rekeyed_fields)
  qed
qed

text \<open>Opening the document gives the cipher of the document.\<close>

lemma owner_init:
  assumes "LoadDict env m (sh\<lparr>m_FileId := id_string env ids\<rparr>) = (True, sh1)" and "ready sh1" and "sec_Cipher sh1 \<noteq> kNone"
    and "safe" and "owner \<noteq> []" and "length key = 32"
  shows "\<exists>opened. OnInit env m ids owner sh = Some (True, opened) \<and> m_bOwnerUnlocked opened \<and>
    m_pCryptoHandler opened = CPDF_CryptoHandler (sec_Cipher sh1) key (sec_KeyLen sh1)"
proof -
  obtain sh2 where "CheckSecurity env owner sh1 = Some (True, sh2)" "m_bOwnerUnlocked sh2" "sec_Cipher sh2 = sec_Cipher sh1"
    "sec_KeyLen sh2 = sec_KeyLen sh1" "length (sec_EncryptKey sh2) = 32" "take (sec_KeyLen sh1) (sec_EncryptKey sh2) = take (sec_KeyLen sh1) key"
    using owner_security assms(2,4,5) by blast
  then show ?thesis
    using assms(1,3,6) CryptoHandler_key [of "sec_KeyLen sh1" "sec_EncryptKey sh2" key "sec_Cipher sh1"] ready_key [OF assms(2)]
    by (auto simp: OnInit_def InitCryptoHandler_def)
qed

lemma user_init:
  assumes "LoadDict env m (sh\<lparr>m_FileId := id_string env ids\<rparr>) = (True, sh1)" and "ready sh1" and "sec_Cipher sh1 \<noteq> kNone"
    and "checked user" and "checked (converted sh1 user)" and "length key = 32"
  shows "\<exists>opened. OnInit env m ids user sh = Some (True, opened) \<and> (m_bOwnerUnlocked opened \<or>
    m_pCryptoHandler opened = CPDF_CryptoHandler (sec_Cipher sh1) key (sec_KeyLen sh1))"
proof -
  obtain sh2 where "CheckSecurity env user sh1 = Some (True, sh2)" "sec_Cipher sh2 = sec_Cipher sh1"
    "sec_KeyLen sh2 = sec_KeyLen sh1" "length (sec_EncryptKey sh2) = 32"
    "m_bOwnerUnlocked sh2 \<or> take (sec_KeyLen sh1) (sec_EncryptKey sh2) = take (sec_KeyLen sh1) key"
    using user_security assms(2,4,5) by blast
  then show ?thesis
    using assms(1,3,6) CryptoHandler_key [of "sec_KeyLen sh1" "sec_EncryptKey sh2" key "sec_Cipher sh1"] ready_key [OF assms(2)]
      CryptoHandler_key(2) [of "sec_KeyLen sh1" "sec_EncryptKey sh2" "sec_EncryptKey sh2" "sec_Cipher sh1"]
    by (auto simp: OnInit_def InitCryptoHandler_def)
qed

end

section \<open>Revisions 2 to 4\<close>

definition rc4_ready :: "'f pdf_env \<Rightarrow> bytes \<Rightarrow> bytes \<Rightarrow> bytes \<Rightarrow> 'f security_handler \<Rightarrow> bool" where
  "rc4_ready env user owner key sh \<longleftrightarrow> (\<exists>m. let n = sec_KeyLen sh; r = m_Revision sh in
    opens m (m_FileId sh) n r sh \<and> n \<le> 16 \<and> 2 \<le> r \<and> r < 5 \<and> take n key = CalcEncryptKey env m user n False (m_FileId sh) \<and>
    GetStringFor env m (B ''U'') = user_entry r (take n key) (m_FileId sh) \<and>
    GetStringFor env m (B ''O'') = owner_entry r (take n (owner_digest r owner)) (GetPassCode user))"

lemma rc4_check:
  assumes "rc4_ready env user owner key sh" and "GetPassCode p = GetPassCode user"
  shows "\<exists>sh'. check_both env p sh = Some (True, sh') \<and> rekeyed sh sh' \<and>
    take (sec_KeyLen sh) (sec_EncryptKey sh') = take (sec_KeyLen sh) key"
proof -
  let ?n = "sec_KeyLen sh"
  obtain m where m: "opens m (m_FileId sh) ?n (m_Revision sh) sh" "2 \<le> m_Revision sh"
    "take ?n key = CalcEncryptKey env m user ?n False (m_FileId sh)"
    "GetStringFor env m (B ''U'') = user_entry (m_Revision sh) (take ?n key) (m_FileId sh)"
    using assms(1) unfolding rc4_ready_def Let_def by blast
  let ?sh = "sh\<lparr>sec_EncryptKey := memcpy (sec_EncryptKey sh) 0 (take ?n key)\<rparr>"
  have "CheckUserPassword env p False sh = Some (True, ?sh)"
    using CheckUserPassword_entry [of sh m "take ?n key" env p] m(1,2,4) m(3) [folded CalcEncryptKey_passcode [OF assms(2), of env m ?n False]]
    by (simp add: opens_def)
  moreover have "length (take ?n key) = ?n" using m(3) by (simp add: length_CalcEncryptKey)
  ultimately show ?thesis using m(1) by (auto simp: check_both_def rekeyed_def opens_def intro!: exI [of _ ?sh])
qed

interpretation rc4_scheme: password_scheme env "rc4_ready env user owner key" "\<lambda>p. True" user owner "recoverable user" key
  for env :: "'f pdf_env" and user owner key
proof (unfold_locales, goal_cases)
  case (1 sh sh')
  then show ?case unfolding rc4_ready_def Let_def rekeyed_fields [OF 1(2)] using opens_rekeyed [OF _ 1(2)] by blast
next
  case (2 sh)
  then show ?case by (auto simp: rc4_ready_def opens_def Let_def)
next
  case (3 sh p own)
  then show ?case using CheckPasswordImpl_rekeyed by (fastforce simp: rc4_ready_def Let_def)
next
  case (4 sh)
  then show ?case using rc4_check [OF 4] by (auto simp: CheckPasswordImpl_def rc4_ready_def Let_def)
next
  case (5 sh)
  then obtain m where "m_pEncryptDict sh = Some m" "m_Revision sh < 5" "GetUserPassword env owner sh =
      Some (take (strip_passcode (GetPassCode user) 32) (GetPassCode user))"
    using GetUserPassword_entry [OF _ _ _ refl] by (fastforce simp: rc4_ready_def opens_def Let_def)
  then show ?case using rc4_check [OF 5(1) recoverable_passcode [OF 5(2) refl]]
    by (simp add: CheckPasswordImpl_def CheckOwnerPassword_def)
qed

lemma create_rc4:
  assumes "LoadDict_out env m sh0 = (True, sh)" and "keys_ok m" and "length (sec_EncryptKey sh0) = 32"
    and "2 \<le> m_Revision sh" and "m_Revision sh < 5" and "sec_KeyLen sh \<le> 16"
  shows "\<exists>m' key. OnCreateInternal env random random1 m ids user owner True sh0 =
      Some (sh\<lparr>m_pEncryptDict := Some m', sec_EncryptKey := key\<rparr>) \<and> agrees m m' \<and> length key = 32 \<and>
    GetStringFor env m' (B ''O'') = owner_entry (m_Revision sh) (take (sec_KeyLen sh) (owner_digest (m_Revision sh)
      (if owner = [] then user else owner))) (GetPassCode user) \<and>
    (\<forall>sh'. m_pEncryptDict sh' = Some m' \<longrightarrow> m_FileId sh' = id_string env ids \<longrightarrow> sec_KeyLen sh' = sec_KeyLen sh \<longrightarrow>
      m_Revision sh' = m_Revision sh \<longrightarrow> length (sec_EncryptKey sh') = 32 \<longrightarrow>
      rc4_ready env user (if owner = [] then user else owner) key sh')"
proof -
  let ?own = "if owner = [] then user else owner" and ?i = "id_string env ids" and ?n = "sec_KeyLen sh" and ?r = "m_Revision sh"
  let ?m1 = "SetFor (B ''O'') (PString (owner_entry ?r (take ?n (owner_digest ?r ?own)) (GetPassCode user)) False) m"
  let ?key = "CalcEncryptKey env ?m1 user ?n False ?i"
  let ?m2 = "SetFor (B ''U'') (PString (user_entry ?r ?key ?i) False) ?m1"
  have sh: "m_pEncryptDict sh = Some m" "length (sec_EncryptKey sh) = 32"
    using LoadDict_out_loaded [OF assms(1)] assms(3) by (auto simp: loaded_def)
  have k: "keys_ok ?m1" using assms(2) by (simp add: keys_ok_SetFor)
  have "OnCreateInternal env random random1 m ids user owner True sh0 =
      Some (sh\<lparr>m_pEncryptDict := Some ?m2, sec_EncryptKey := memcpy (sec_EncryptKey sh) 0 ?key\<rparr>)"
    using assms sh by (simp add: OnCreateInternal_def create_owner_entry_eq create_user_entry_eq set_entry_def Let_def)
  moreover have "agrees m ?m2" by (simp add: agrees_SetFor)
  moreover have "GetStringFor env ?m2 (B ''U'') = user_entry ?r ?key ?i"
    "GetStringFor env ?m2 (B ''O'') = owner_entry ?r (take ?n (owner_digest ?r ?own)) (GetPassCode user)"
    using assms(2) k by (simp_all add: GetStringFor_same GetStringFor_other)
  moreover have "take ?n (memcpy (sec_EncryptKey sh) 0 ?key) = ?key" "length (memcpy (sec_EncryptKey sh) 0 ?key) = 32"
    using sh(2) assms(6) by (simp_all add: length_CalcEncryptKey)
  ultimately show ?thesis
    using assms(4-6) by (intro exI [of _ ?m2] exI [of _ "memcpy (sec_EncryptKey sh) 0 ?key"])
      (auto simp: rc4_ready_def opens_def Let_def CalcEncryptKey_user_entry)
qed

end
