(* ===== verification/Pdf_Aes256.thy ===== *)
theory Pdf_Aes256
  imports Pdf_Passwords
begin

text \<open>
  The passwords of revisions 5 and 6, which protect the key of the document with AES: the hash of revision 6 returns,
  and a document that was created can be opened with both passwords.
\<close>

section \<open>Lengths of digests\<close>

lemma length_concat_map: "(\<And>x. length (f x) = n) \<Longrightarrow> length (concat (map f xs)) = length xs * n"
  by (induction xs) simp_all

lemma length_digests [simp]:
  "length (snd (CRYPT_SHA1Finish c)) = 20" "length (snd (CRYPT_SHA256Finish s)) = 32"
  "length (snd (CRYPT_SHA384Finish s)) = 48" "length (snd (CRYPT_SHA512Finish s)) = 64"
proof -
  have "length (concat (map (\<lambda>i. sha1_put_word (f i)) [0..<5])) = 20" for f
    by (subst length_concat_map [where n = 4]) (simp_all add: sha1_put_word_def)
  then show "length (snd (CRYPT_SHA1Finish c)) = 20" by (simp only: CRYPT_SHA1Finish_def Let_def snd_conv)
  have "length (concat (map (\<lambda>i. SHA_PUT_UINT32 (f i)) [0..<8])) = 32" for f
    by (subst length_concat_map [where n = 4]) (simp_all add: SHA_PUT_UINT32_def)
  then show "length (snd (CRYPT_SHA256Finish s)) = 32" by (simp only: CRYPT_SHA256Finish_def Let_def snd_conv)
  have 8: "length (concat (map (\<lambda>i. SHA_PUT_UINT64 (f i)) xs)) = length xs * 8" for f and xs :: "nat list"
    by (rule length_concat_map) (simp add: SHA_PUT_UINT64_def)
  show "length (snd (CRYPT_SHA384Finish s)) = 48" "length (snd (CRYPT_SHA512Finish s)) = 64"
    by (simp_all only: CRYPT_SHA384Finish_def CRYPT_SHA512Finish_def Let_def snd_conv 8) simp_all
qed

section \<open>AES with fresh contexts\<close>

lemma keyed_context:
  assumes "aes_arrays_ok a"
  shows "aes_arrays_ok (CRYPT_AESSetIV (CRYPT_AESSetKey a key k) v)" "length (iv (CRYPT_AESSetIV (CRYPT_AESSetKey a key k) v)) = 8"
proof -
  have "length (fold (\<lambda>i w. w[i := f i]) is w) = length w" for "is" :: "nat list" and f and w :: "u32 list"
    by (induction "is" arbitrary: w) simp_all
  then show "aes_arrays_ok (CRYPT_AESSetIV (CRYPT_AESSetKey a key k) v)"
    using aes_setup_arrays [OF assms] by (simp add: CRYPT_AESSetKey_def CRYPT_AESSetIV_def aes_arrays_ok_def)
  then show "length (iv (CRYPT_AESSetIV (CRYPT_AESSetKey a key k) v)) = 8" by (simp add: aes_arrays_ok_def kMaxNb_def)
qed

lemma cbc_arrays:
  "aes_encrypt_cbc c src len = Some (c', out) \<Longrightarrow> length (iv c') = 8 \<Longrightarrow> aes_arrays_ok c \<Longrightarrow> aes_arrays_ok c'"
  "aes_decrypt_cbc c src len = Some (c', out) \<Longrightarrow> length (iv c') = 8 \<Longrightarrow> aes_arrays_ok c \<Longrightarrow> aes_arrays_ok c'"
  by (auto simp: aes_encrypt_cbc_def aes_decrypt_cbc_def aes_arrays_ok_def kMaxNb_def)

lemma AESEncrypt_returns:
  assumes "aes_arrays_ok a" and "length src = 16 * n" and "16 * n < 2 ^ 31"
  shows "\<exists>a' out. CRYPT_AESEncrypt (CRYPT_AESSetIV (CRYPT_AESSetKey a key k) v) src (of_nat (16 * n)) = Some (a', out) \<and>
    length out = 16 * n \<and> aes_arrays_ok a'"
  using encrypt_cbc_defined [OF keyed_context(2) [OF assms(1)] assms(2), of key k v] keyed_context(1) [OF assms(1)] cbc_arrays(1)
  unfolding CRYPT_AESEncrypt_def sint_of_nat_u32 [OF assms(3)] by blast

lemma AESDecrypt_returns:
  assumes "aes_arrays_ok a" and "length src = 16 * n" and "16 * n < 2 ^ 31"
  shows "\<exists>a' out. CRYPT_AESDecrypt (CRYPT_AESSetIV (CRYPT_AESSetKey a key k) v) src (of_nat (16 * n)) = Some (a', out) \<and>
    length out = 16 * n \<and> aes_arrays_ok a'"
  using decrypt_cbc_defined [OF keyed_context(2) [OF assms(1)] assms(2), of key k v] keyed_context(1) [OF assms(1)] cbc_arrays(2)
  unfolding CRYPT_AESDecrypt_def sint_of_nat_u32 [OF assms(3)] by blast

lemma AES_inverse:
  assumes "aes_arrays_ok a" and "aes_arrays_ok b" and "unat k \<in> {16, 24, 32}" and "length src = 16 * n" and "16 * n < 2 ^ 31"
    and "CRYPT_AESEncrypt (CRYPT_AESSetIV (CRYPT_AESSetKey a key k) v) src (of_nat (16 * n)) = Some (a', out)"
  shows "\<exists>b'. CRYPT_AESDecrypt (CRYPT_AESSetIV (CRYPT_AESSetKey b key k) v) out (of_nat (16 * n)) = Some (b', src) \<and> aes_arrays_ok b'"
proof -
  obtain b' where b: "CRYPT_AESDecrypt (CRYPT_AESSetIV (CRYPT_AESSetKey b key k) v) out (of_nat (16 * n)) = Some (b', src)"
    using cbc_inverse_contexts [OF assms(1-4), of key v a' out] assms(6)
    unfolding CRYPT_AESEncrypt_def CRYPT_AESDecrypt_def sint_of_nat_u32 [OF assms(5)] by blast
  have "length out = 16 * n" using AESEncrypt_returns [OF assms(1,4,5), of key k v] assms(6) by simp
  from AESDecrypt_returns [OF assms(2) this assms(5), of key k v] b show ?thesis by auto
qed

section \<open>The hash of revision 6\<close>

lemma length_concat_replicate: "length (concat (replicate n xs)) = n * length xs"
  by (induction n) simp_all

lemma revision6_round_returns:
  assumes "aes_arrays_ok aes" and "64 * (length p + length input + length vec) < 2 ^ 31"
  shows "\<exists>aes' e digest. revision6_round p vec aes input = Some (aes', e, digest) \<and> aes_arrays_ok aes' \<and> length digest \<in> {32, 48, 64}"
proof -
  let ?content = "concat (replicate 64 (p @ input @ vec))"
  let ?n = "4 * (length p + length input + length vec)"
  have len: "length ?content = 16 * ?n" by (simp add: length_concat_replicate)
  obtain a' out where "CRYPT_AESEncrypt (CRYPT_AESSetIV (CRYPT_AESSetKey aes input 16) (drop 16 input)) ?content (of_nat (16 * ?n)) = Some (a', out)"
    "aes_arrays_ok a'" using AESEncrypt_returns [OF assms(1) len, of input 16 "drop 16 input"] assms(2) by auto
  moreover have "\<not> 2 ^ 31 \<le> length ?content" unfolding len using assms(2) by simp
  ultimately show ?thesis
    by (auto simp only: revision6_round_def Let_def if_False len option.map prod.case)
      (auto simp: CRYPT_SHA256Generate_def CRYPT_SHA384Generate_def CRYPT_SHA512Generate_def split: nat.splits)
qed

lemma revision6_loop_returns:
  assumes "aes_arrays_ok aes" and "length input \<in> {32, 48, 64}" and "64 * (length p + 64 + length vec) < 2 ^ 31"
  shows "\<exists>digest. revision6_loop p vec i aes e input = Some digest \<and> 32 \<le> length digest"
  using assms
proof (induction p vec i aes e input rule: revision6_loop.induct)
  case (1 p vec i aes e input)
  have "64 * (length p + length input + length vec) < 2 ^ 31" using "1.prems" by auto
  from revision6_round_returns [OF "1.prems"(1) this] obtain aes' e' d
    where r: "revision6_round p vec aes input = Some (aes', e', d)" "aes_arrays_ok aes'" "length d \<in> {32, 48, 64}" by blast
  show ?case
  proof (cases "i < 64 \<or> i < unat e + 32")
    case True
    then show ?thesis using "1.IH" [OF True r(1) refl refl r(2,3) "1.prems"(3)] r(1) by (subst revision6_loop.simps) simp
  next
    case False
    then show ?thesis using "1.prems"(2) by (subst revision6_loop.simps) auto
  qed
qed

definition hashable :: "bytes \<Rightarrow> bool" where
  "hashable password \<longleftrightarrow> length password < 2 ^ 24"

lemma Revision6_Hash_returns:
  assumes "hashable p" and "\<And>v. vec = Some v \<Longrightarrow> length v = 48"
  shows "\<exists>digest. Revision6_Hash p s vec = Some digest \<and> length digest = 32"
proof -
  let ?v = "case vec of None \<Rightarrow> [] | Some v \<Rightarrow> v"
  have "length ?v \<le> 48" using assms(2) by (cases vec) auto
  then have "64 * (length p + 64 + length ?v) < 2 ^ 31" using assms(1) by (simp add: hashable_def)
  then have "\<exists>d. revision6_loop p ?v 0 zero_aes_context 0 (snd (CRYPT_SHA256Finish c)) = Some d \<and> 32 \<le> length d" for c
    by (intro revision6_loop_returns [OF zero_aes_ok]) simp_all
  then obtain f where "\<And>c. revision6_loop p ?v 0 zero_aes_context 0 (snd (CRYPT_SHA256Finish c)) = Some (f c) \<and> 32 \<le> length (f c)"
    by metis
  then show ?thesis by (simp add: Revision6_Hash_def Let_def)
qed

lemma password_hash_returns:
  assumes "hashable p" and "\<And>v. vec = Some v \<Longrightarrow> length v = 48"
  shows "\<exists>digest. password_hash r p s vec = Some digest \<and> length digest = 32"
  using Revision6_Hash_returns [OF assms] by (simp add: password_hash_def Let_def)

section \<open>The entries of revisions 5 and 6\<close>

text \<open>A pair of entries, such as U and UE, from which a password restores a key.\<close>

definition unlocks :: "int \<Rightarrow> bytes \<Rightarrow> bytes option \<Rightarrow> bytes \<Rightarrow> bytes \<Rightarrow> bytes \<Rightarrow> bool" where
  "unlocks r p vec key entry ekey \<longleftrightarrow> length entry = 48 \<and> length ekey = 32 \<and> length key = 32 \<and>
    password_hash r p (take 8 (drop 32 entry)) vec = Some (take 32 entry) \<and>
    (\<exists>digest aes. password_hash r p (take 8 (drop 40 entry)) vec = Some digest \<and> aes_arrays_ok aes \<and>
      CRYPT_AESDecrypt (CRYPT_AESSetIV (CRYPT_AESSetKey zero_aes_context digest 32) (replicate 16 0)) ekey 32 = Some (aes, key))"

lemma AES256_SetPassword_entries:
  assumes "m_pEncryptDict sh = Some m" and "length (sec_EncryptKey sh) = 32" and "hashable p"
    and "vec = (if own then Some (GetStringFor env m (B ''U'')) else None)" and "own \<Longrightarrow> length (GetStringFor env m (B ''U'')) = 48"
  shows "\<exists>entry ekey. AES256_SetPassword env p own sh =
      Some (set_entry (if own then ''OE'' else ''UE'') ekey (set_entry (if own then ''O'' else ''U'') entry sh)) \<and>
    unlocks (m_Revision sh) p vec (sec_EncryptKey sh) entry ekey"
proof -
  let ?d = "snd (CRYPT_SHA1Finish (CRYPT_SHA1Update (CRYPT_SHA1Update CRYPT_SHA1Start (sec_EncryptKey sh)) (B ''hello'')))"
  have v: "\<And>v. vec = Some v \<Longrightarrow> length v = 48" using assms(4,5) by (auto split: if_splits)
  obtain d1 where d1: "password_hash (m_Revision sh) p (take 8 ?d) vec = Some d1" "length d1 = 32"
    using password_hash_returns [OF assms(3) v] by blast
  obtain d2 where d2: "password_hash (m_Revision sh) p (take 8 (drop 8 ?d)) vec = Some d2" "length d2 = 32"
    using password_hash_returns [OF assms(3) v] by blast
  let ?aes = "CRYPT_AESSetIV (CRYPT_AESSetKey zero_aes_context d2 32) (replicate 16 0)"
  obtain a out where e: "CRYPT_AESEncrypt ?aes (sec_EncryptKey sh) 32 = Some (a, out)" "length out = 32"
    using AESEncrypt_returns [OF zero_aes_ok, of "sec_EncryptKey sh" 2 d2 32 "replicate 16 0"] assms(2) by auto
  obtain b where b: "CRYPT_AESDecrypt ?aes out 32 = Some (b, sec_EncryptKey sh)" "aes_arrays_ok b"
    using AES_inverse [OF zero_aes_ok zero_aes_ok, of 32 "sec_EncryptKey sh" 2 d2 "replicate 16 0" a out] e(1) assms(2) by auto
  have vec: "(if \<not> own then Some None else if 6 \<le> m_Revision sh then map_option Some (subspan (GetStringFor env m (B ''U'')) 0 48)
      else Some (Some (GetStringFor env m (B ''U'')))) = Some vec"
    using assms(4,5) by (simp add: subspan_def)
  let ?entry = "take 32 d1 @ take 16 ?d"
  have "AES256_SetPassword env p own sh =
      Some (set_entry (if own then ''OE'' else ''UE'') out (set_entry (if own then ''O'' else ''U'') ?entry sh))"
    using d1 d2 e(1) assms(1) by (simp add: AES256_SetPassword_def Let_def vec set_entry_def)
  moreover have "take 8 (drop 32 ?entry) = take 8 ?d" "take 8 (drop 40 ?entry) = take 8 (drop 8 ?d)" "take 32 ?entry = d1"
    using d1(2) by (simp_all add: take_drop min_def)
  then have "unlocks (m_Revision sh) p vec (sec_EncryptKey sh) ?entry out"
    unfolding unlocks_def using d1 d2 e(2) b assms(2) by auto
  ultimately show ?thesis by blast
qed

text \<open>The permissions.\<close>

definition perms_entry :: "bytes \<Rightarrow> u32 \<Rightarrow> bool \<Rightarrow> bytes \<Rightarrow> bool" where
  "perms_entry key permissions metadata entry \<longleftrightarrow> length entry = 16 \<and>
    (\<forall>aes. aes_arrays_ok aes \<longrightarrow> (\<exists>aes' plain. CRYPT_AESDecrypt (CRYPT_AESSetIV (CRYPT_AESSetKey aes key 32) (replicate 16 0)) entry 16 = Some (aes', plain) \<and>
      FXSYS_UINT32_GET_LSBFIRST plain = permissions \<and> plain ! 9 = 0x61 \<and> plain ! 10 = 0x64 \<and> plain ! 11 = 0x62 \<and>
      plain ! 8 = (if metadata then 0x54 else 0x46)))"

lemma AES256_SetPerms_entry:
  assumes "m_pEncryptDict sh = Some m" and "length (sec_EncryptKey sh) = 32" and "length random = 4"
  shows "\<exists>entry. AES256_SetPerms random sh = Some (set_entry ''Perms'' entry sh) \<and>
    perms_entry (sec_EncryptKey sh) (m_Permissions sh) (GetBooleanFor m (B ''EncryptMetadata'') True) entry"
proof -
  let ?p = "m_Permissions sh" and ?meta = "GetBooleanFor m (B ''EncryptMetadata'') True" and ?key = "sec_EncryptKey sh"
  let ?plain = "[ucast ?p, ucast (drop_bit 8 ?p), ucast (drop_bit 16 ?p), ucast (drop_bit 24 ?p), 0xff, 0xff, 0xff, 0xff,
    if ?meta then 0x54 else 0x46, 0x61, 0x64, 0x62] @ random :: bytes"
  let ?aes = "\<lambda>a. CRYPT_AESSetIV (CRYPT_AESSetKey a ?key 32) (replicate 16 0)"
  obtain a out where e: "CRYPT_AESEncrypt (?aes zero_aes_context) ?plain 16 = Some (a, out)" "length out = 16"
    using AESEncrypt_returns [OF zero_aes_ok, of ?plain 1 ?key 32 "replicate 16 0"] assms(3) by auto
  have "\<exists>b. CRYPT_AESDecrypt (?aes c) out 16 = Some (b, ?plain)" if "aes_arrays_ok c" for c
    using AES_inverse [OF zero_aes_ok that, of 32 ?plain 1 ?key "replicate 16 0" a out] e(1) assms(3) by auto
  moreover have "FXSYS_UINT32_GET_LSBFIRST ?plain = ?p"
    using pack4_wbyte [of ?p] by (simp add: FXSYS_UINT32_GET_LSBFIRST_def pack4_def wbyte_def)
  ultimately have "perms_entry ?key ?p ?meta out" unfolding perms_entry_def using e(2) by fastforce
  moreover have "AES256_SetPerms random sh = Some (set_entry ''Perms'' out sh)"
    using e(1) assms(1) by (simp add: AES256_SetPerms_def Let_def)
  ultimately show ?thesis by blast
qed

section \<open>Checking passwords of revisions 5 and 6\<close>

definition aes_ready :: "'f pdf_env \<Rightarrow> bytes \<Rightarrow> bytes \<Rightarrow> bytes \<Rightarrow> 'f security_handler \<Rightarrow> bool" where
  "aes_ready env user owner key sh \<longleftrightarrow> (\<exists>m. let r = m_Revision sh; u = GetStringFor env m (B ''U'') in
    opens m (m_FileId sh) (sec_KeyLen sh) r sh \<and> 5 \<le> r \<and>
    unlocks r user None key u (GetStringFor env m (B ''UE'')) \<and>
    unlocks r owner (Some u) key (GetStringFor env m (B ''O'')) (GetStringFor env m (B ''OE'')) \<and>
    perms_entry key (m_Permissions sh) (GetBooleanFor m (B ''EncryptMetadata'') True) (GetStringFor env m (B ''Perms'')))"

lemma memcpy_all: "length dst = length src \<Longrightarrow> memcpy dst 0 src = src"
  by (simp add: memcpy_def)

lemma check_perms_opens:
  assumes "m_pEncryptDict sh = Some m" and "aes_arrays_ok aes"
    and "perms_entry (sec_EncryptKey sh) (m_Permissions sh) (GetBooleanFor m (B ''EncryptMetadata'') True) (GetStringFor env m (B ''Perms''))"
  shows "check_perms env aes sh = Some (True, sh)"
  using assms by (fastforce simp: check_perms_def perms_entry_def IsMetadataEncrypted_def memcpy_all Let_def split: if_splits)

lemma check_perms_returns:
  assumes "m_pEncryptDict sh = Some m" and "aes_arrays_ok aes" and "length (GetStringFor env m (B ''Perms'')) = 16"
  shows "\<exists>ok. check_perms env aes sh = Some (ok, sh)"
proof -
  let ?e = "GetStringFor env m (B ''Perms'')"
  obtain a out where "CRYPT_AESDecrypt (CRYPT_AESSetIV (CRYPT_AESSetKey aes (sec_EncryptKey sh) 32) (replicate 16 0)) ?e 16 = Some (a, out)"
    using AESDecrypt_returns [OF assms(2), of ?e 1 "sec_EncryptKey sh" 32 "replicate 16 0"] assms(3) by auto
  then show ?thesis using assms by (auto simp: check_perms_def IsMetadataEncrypted_def memcpy_all Let_def)
qed

lemma spancpy_all: "length dst = length src \<Longrightarrow> spancpy dst 0 src = Some src"
  by (simp add: spancpy_def memcpy_all)

lemma aes_opens:
  assumes "aes_ready env user owner key sh"
  shows "AES256_CheckPassword env (if own then owner else user) own sh = Some (True, sh\<lparr>sec_EncryptKey := key\<rparr>)"
proof -
  let ?p = "if own then owner else user"
  obtain m where m: "opens m (m_FileId sh) (sec_KeyLen sh) (m_Revision sh) sh"
    "unlocks (m_Revision sh) user None key (GetStringFor env m (B ''U'')) (GetStringFor env m (B ''UE''))"
    "unlocks (m_Revision sh) owner (Some (GetStringFor env m (B ''U''))) key (GetStringFor env m (B ''O'')) (GetStringFor env m (B ''OE''))"
    "perms_entry key (m_Permissions sh) (GetBooleanFor m (B ''EncryptMetadata'') True) (GetStringFor env m (B ''Perms''))"
    using assms unfolding aes_ready_def Let_def by blast
  have perms: "check_perms env aes (sh\<lparr>sec_EncryptKey := key\<rparr>) = Some (True, sh\<lparr>sec_EncryptKey := key\<rparr>)" if "aes_arrays_ok aes" for aes
    using check_perms_opens [OF _ that, of "sh\<lparr>sec_EncryptKey := key\<rparr>" m env] m(1,4) by (simp add: opens_def)
  show ?thesis using m(1,2,3)
    by (cases own) (auto simp: AES256_CheckPassword_def unlocks_def opens_def Let_def spancpy_all perms)
qed

lemma aes_returns:
  assumes "aes_ready env user owner key sh" and "hashable p"
  shows "\<exists>ok sh'. AES256_CheckPassword env p own sh = Some (ok, sh') \<and> rekeyed sh sh'"
proof -
  obtain m where m: "m_pEncryptDict sh = Some m" "length (sec_EncryptKey sh) = 32" "length (GetStringFor env m (B ''U'')) = 48"
    "length (GetStringFor env m (B ''UE'')) = 32" "length (GetStringFor env m (B ''O'')) = 48" "length (GetStringFor env m (B ''OE'')) = 32"
    "length (GetStringFor env m (B ''Perms'')) = 16"
    using assms(1) by (auto simp: aes_ready_def opens_def unlocks_def perms_entry_def Let_def)
  define vec where "vec = (if own then Some (take 48 (GetStringFor env m (B ''U''))) else None)"
  define pkey where "pkey = GetStringFor env m (if own then B ''O'' else B ''U'')"
  define ekey where "ekey = GetStringFor env m (if own then B ''OE'' else B ''UE'')"
  have v: "\<And>v. vec = Some v \<Longrightarrow> length v = 48" using m(3) by (auto simp: vec_def split: if_splits)
  obtain d1 d2 where d: "password_hash (m_Revision sh) p (take 8 (drop 32 pkey)) vec = Some d1"
    "password_hash (m_Revision sh) p (take 8 (drop 40 pkey)) vec = Some d2" using password_hash_returns [OF assms(2) v] by blast
  have e: "length ekey = 32" using m(4,6) by (simp add: ekey_def)
  obtain a k where a: "CRYPT_AESDecrypt (CRYPT_AESSetIV (CRYPT_AESSetKey zero_aes_context d2 32) (replicate 16 0)) ekey 32 = Some (a, k)"
    "length k = 32" "aes_arrays_ok a" using AESDecrypt_returns [OF zero_aes_ok, of ekey 2 d2 32 "replicate 16 0"] e by auto
  obtain ok where "check_perms env a (sh\<lparr>sec_EncryptKey := k\<rparr>) = Some (ok, sh\<lparr>sec_EncryptKey := k\<rparr>)"
    using check_perms_returns [OF _ a(3), of "sh\<lparr>sec_EncryptKey := k\<rparr>" m env] m(1,7) by auto
  moreover have "rekeyed sh (sh\<lparr>sec_EncryptKey := k\<rparr>)" using a(2) m(2) by (simp add: rekeyed_def)
  moreover have "pkey = (if own then GetStringFor env m (B ''O'') else GetStringFor env m (B ''U''))" by (simp add: pkey_def)
  ultimately show ?thesis
    using m d a e by (simp add: AES256_CheckPassword_def Let_def vec_def [symmetric] ekey_def [symmetric] spancpy_all ex_bool_eq)
qed

lemma length_utf8_input: "length (CFX_UTF8Encoder_Input c) \<le> 6"
proof -
  have "length (utf8_tail n c d) = n" for n d by (induction n c d rule: utf8_tail.induct) (simp_all add: Let_def)
  then show ?thesis by (simp add: CFX_UTF8Encoder_Input_def Let_def utf8_nbytes_def)
qed

lemma length_utf8: "length (FX_UTF8Encode s) \<le> 6 * length s"
  by (induction s) (use length_utf8_input in \<open>simp_all add: FX_UTF8Encode_def add_mono\<close>)

interpretation aes_scheme: password_scheme env "aes_ready env user owner key" hashable user owner True key
  for env :: "'f pdf_env" and user owner key
proof (unfold_locales, goal_cases)
  case (1 sh sh')
  then show ?case unfolding aes_ready_def Let_def rekeyed_fields [OF 1(2)] using opens_rekeyed [OF _ 1(2)] by blast
next
  case (2 sh)
  then show ?case by (auto simp: aes_ready_def opens_def Let_def)
next
  case (3 sh p own)
  then show ?case using aes_returns [OF 3] by (auto simp: CheckPasswordImpl_def aes_ready_def Let_def)
next
  case (4 sh)
  then show ?case using aes_opens [OF 4, of False]
    by (auto simp: CheckPasswordImpl_def aes_ready_def opens_def unlocks_def rekeyed_def Let_def)
next
  case (5 sh)
  then show ?case using aes_opens [OF 5(1), of True]
    by (auto simp: CheckPasswordImpl_def aes_ready_def opens_def unlocks_def rekeyed_def Let_def)
qed

section \<open>Creating documents of revisions 5 and 6\<close>

lemma set_entry_dict [simp]: "m_pEncryptDict (set_entry k s sh) = map_option (SetFor (B k) (PString s False)) (m_pEncryptDict sh)"
  "sec_EncryptKey (set_entry k s sh) = sec_EncryptKey sh" "m_Revision (set_entry k s sh) = m_Revision sh"
  "m_Permissions (set_entry k s sh) = m_Permissions sh"
  by (simp_all add: set_entry_def)

lemma create_aes:
  assumes "LoadDict_out env m sh0 = (True, sh)" and "keys_ok m" and "length (sec_EncryptKey sh0) = 32" and "5 \<le> m_Revision sh"
    and "hashable user" and "hashable owner" and "length random1 = 4"
  shows "\<exists>m' key. OnCreateInternal env random random1 m ids user owner True sh0 =
      Some (sh\<lparr>m_pEncryptDict := Some m', sec_EncryptKey := key\<rparr>) \<and> agrees m m' \<and> length key = 32 \<and>
    (\<forall>sh'. m_pEncryptDict sh' = Some m' \<longrightarrow> sec_KeyLen sh' = sec_KeyLen sh \<longrightarrow> m_Revision sh' = m_Revision sh \<longrightarrow>
      m_Permissions sh' = m_Permissions sh \<longrightarrow> length (sec_EncryptKey sh') = 32 \<longrightarrow>
      aes_ready env user (if owner = [] then user else owner) key sh')"
proof -
  let ?own = "if owner = [] then user else owner" and ?key = "snd (CRYPT_SHA256Finish (CRYPT_SHA256Update CRYPT_SHA256Start random))"
  let ?r = "m_Revision sh" and ?sh = "sh\<lparr>sec_EncryptKey := ?key\<rparr>"
  have sh: "m_pEncryptDict sh = Some m" "length (sec_EncryptKey sh) = 32" "sec_KeyLen sh \<le> 32"
    using LoadDict_out_loaded [OF assms(1)] assms(3) loaded_key_length by (auto simp: loaded_def)
  obtain u ue where u: "AES256_SetPassword env user False ?sh = Some (set_entry ''UE'' ue (set_entry ''U'' u ?sh))"
    "unlocks ?r user None ?key u ue"
    using AES256_SetPassword_entries [of ?sh m user None False env] sh(1) assms(5) by auto
  let ?m1 = "SetFor (B ''UE'') (PString ue False) (SetFor (B ''U'') (PString u False) m)"
  have m1: "keys_ok ?m1" "GetStringFor env ?m1 (B ''U'') = u" using assms(2) by (simp_all add: keys_ok_SetFor GetStringFor_same GetStringFor_other)
  have "length u = 48" "hashable ?own" using u(2) assms(5,6) by (simp_all add: unlocks_def)
  then obtain o' oe where w: "AES256_SetPassword env ?own True (set_entry ''UE'' ue (set_entry ''U'' u ?sh)) =
      Some (set_entry ''OE'' oe (set_entry ''O'' o' (set_entry ''UE'' ue (set_entry ''U'' u ?sh))))" "unlocks ?r ?own (Some u) ?key o' oe"
    using AES256_SetPassword_entries [of "set_entry ''UE'' ue (set_entry ''U'' u ?sh)" ?m1 ?own "Some u" True env] sh(1) m1(2) by auto
  let ?m2 = "SetFor (B ''OE'') (PString oe False) (SetFor (B ''O'') (PString o' False) ?m1)"
  have m2: "agrees m ?m2" "keys_ok ?m2" using m1(1) by (simp_all add: agrees_SetFor keys_ok_SetFor)
  obtain p where p: "AES256_SetPerms random1 (set_entry ''OE'' oe (set_entry ''O'' o' (set_entry ''UE'' ue (set_entry ''U'' u ?sh)))) =
      Some (set_entry ''Perms'' p (set_entry ''OE'' oe (set_entry ''O'' o' (set_entry ''UE'' ue (set_entry ''U'' u ?sh)))))"
    "perms_entry ?key (m_Permissions sh) (GetBooleanFor m (B ''EncryptMetadata'') True) p"
    using AES256_SetPerms_entry [of "set_entry ''OE'' oe (set_entry ''O'' o' (set_entry ''UE'' ue (set_entry ''U'' u ?sh)))" ?m2 random1]
      sh(1) assms(7) agrees_values(4) [OF m2(1) not_created(8)] by auto
  let ?m3 = "SetFor (B ''Perms'') (PString p False) ?m2"
  have "OnCreateInternal env random random1 m ids user owner True sh0 = Some (sh\<lparr>m_pEncryptDict := Some ?m3, sec_EncryptKey := ?key\<rparr>)"
    using assms(1,4) sh u(1) w(1) p(1) by (simp add: OnCreateInternal_def Let_def spancpy_all) (simp add: set_entry_def)
  moreover have "agrees m ?m3" using m2(1) by (simp add: agrees_SetFor)
  moreover have "GetStringFor env ?m3 (B ''U'') = u" "GetStringFor env ?m3 (B ''UE'') = ue" "GetStringFor env ?m3 (B ''O'') = o'"
    "GetStringFor env ?m3 (B ''OE'') = oe" "GetStringFor env ?m3 (B ''Perms'') = p"
    using assms(2) m1(1) m2(2) by (simp_all add: GetStringFor_same GetStringFor_other keys_ok_SetFor)
  ultimately show ?thesis
    using sh(3) assms(4) u(2) w(2) p(2) agrees_values(4) [OF \<open>agrees m ?m3\<close> not_created(8)]
    by (intro exI [of _ ?m3] exI [of _ ?key]) (simp add: aes_ready_def opens_def Let_def)
qed

section \<open>Property\<close>

text \<open>
  C14: the hash of revision 6 returns 32 bytes for every password below 16 MB, salt and vector: its loop, which runs for at least 64
  rounds and then as long as the last byte of the encrypted text demands, ends after at most 287, and no round leaves an array.
\<close>

theorem revision6_hash_returns:
  assumes "length password < 2 ^ 24" and "case vec of None \<Rightarrow> True | Some v \<Rightarrow> length v = 48"
  shows "\<exists>hash. Revision6_Hash password salts vec = Some hash \<and> length hash = 32"
  by (rule Revision6_Hash_returns) (use assms in \<open>simp_all add: hashable_def\<close>)

theorem revision6_hash_returns_witness:
  "\<exists>hash. Revision6_Hash [115, 101, 99] (replicate 8 1) (Some (replicate 48 2)) = Some hash \<and> length hash = 32"
  using revision6_hash_returns [of "[115, 101, 99]" "Some (replicate 48 2)" "replicate 8 1"] by simp

end
