(* ===== verification/Pdf_Opening.thy ===== *)
theory Pdf_Opening
  imports Pdf_Aes256
begin

text \<open>
  Creating an encrypted document and opening it again, for all revisions: the theorems about the security handler of
  theory Pdf_Security, from the schemes of passwords of theories Pdf_Passwords and Pdf_Aes256.
\<close>

section \<open>Creating and opening\<close>

lemma LoadDict_created:
  assumes "LoadDict_out env m sh0 = (True, sh)" and "agrees m m'"
  shows "LoadDict env m' sh1 = (True, sh1\<lparr>m_pEncryptDict := Some m', m_Version := m_Version sh, m_Revision := m_Revision sh,
    m_Permissions := m_Permissions sh, sec_Cipher := sec_Cipher sh, sec_KeyLen := sec_KeyLen sh\<rparr>)"
  using LoadDict_agrees LoadDict_out_loaded [OF assms(1)] assms(2) by blast

lemma created_handler:
  assumes "LoadDict_out env m sh0 = (True, sh)" and "length key = 32"
  shows "\<exists>h. CPDF_CryptoHandler (sec_Cipher sh) key (sec_KeyLen sh) = Some h"
proof -
  have "sec_KeyLen sh \<le> 32" using LoadDict_out_loaded [OF assms(1)] loaded_key_length by blast
  then show ?thesis using CryptoHandler_key(2) [of "sec_KeyLen sh" key key] assms(2) by auto
qed

lemma create_init:
  assumes "OnCreateInternal env random random1 m ids user owner True sh0 = Some (sh\<lparr>m_pEncryptDict := Some m', sec_EncryptKey := key\<rparr>)"
    and "LoadDict_out env m sh0 = (True, sh)" and "length key = 32"
  shows "\<exists>created. OnCreate env random random1 m ids user owner sh0 = Some created \<and> m_pEncryptDict created = Some m' \<and>
    m_pCryptoHandler created = CPDF_CryptoHandler (sec_Cipher sh) key (sec_KeyLen sh)"
  using created_handler [OF assms(2,3)] assms(1) by (auto simp: OnCreate_def InitCryptoHandler_def)

lemma handler_encrypts:
  assumes "LoadDict_out env m sh0 = (True, sh)" and "CPDF_CryptoHandler (sec_Cipher sh) key (sec_KeyLen sh) = Some h"
    and "sec_Cipher sh = kAES \<Longrightarrow> sec_KeyLen sh \<noteq> 24"
  shows "encrypts h"
proof -
  have "sec_KeyLen sh \<le> 32" "IsValidKeyLengthForCipher (sec_Cipher sh) (int (sec_KeyLen sh))" "sec_Cipher sh \<noteq> kAES2"
    using LoadDict_out_loaded [OF assms(1)] loaded_key_length by blast+
  then show ?thesis using assms(2,3) zero_aes_ok
    by (cases "sec_Cipher sh") (auto simp: CPDF_CryptoHandler_def encrypts_def crypto_ok_def subspan_def spancpy_def Let_def split: if_splits)
qed

text \<open>What the passwords of a created document do, for one of the two families of revisions.\<close>

definition document_opens :: "'f pdf_env \<Rightarrow> 'f dict \<Rightarrow> 'f pdf_object list option \<Rightarrow> bytes \<Rightarrow> bytes \<Rightarrow> bool \<Rightarrow> bytes \<Rightarrow> crypto_handler \<Rightarrow> bool" where
  "document_opens env m ids user own safe memory h \<longleftrightarrow>
    (\<exists>opened. OnInit env m ids user (CPDF_SecurityHandler memory) = Some (True, opened) \<and>
      (m_bOwnerUnlocked opened \<or> m_pCryptoHandler opened = Some h)) \<and>
    (own \<noteq> [] \<longrightarrow> safe \<longrightarrow> (\<exists>opened. OnInit env m ids own (CPDF_SecurityHandler memory) = Some (True, opened) \<and>
        m_bOwnerUnlocked opened \<and> m_pCryptoHandler opened = Some h))"


lemma aes_document:
  assumes "LoadDict_out env m sh0 = (True, sh)" and "keys_ok m" and "length (sec_EncryptKey sh0) = 32" and "length memory = 32"
    and "5 \<le> m_Revision sh" and "sec_Cipher sh \<noteq> kNone" and "length random1 = 4"
    and "length user < 2 ^ 21" and "length owner < 2 ^ 21" and "own = (if owner = [] then user else owner)"
  shows "\<exists>created m' key h. OnCreate env random random1 m ids user owner sh0 = Some created \<and> m_pEncryptDict created = Some m' \<and>
    m_pCryptoHandler created = Some h \<and> CPDF_CryptoHandler (sec_Cipher sh) key (sec_KeyLen sh) = Some h \<and>
    document_opens env m' ids user own True memory h"
proof -
  have h: "hashable user" "hashable owner" "hashable (FX_UTF8Encode (FromLatin1 user))"
    using assms(8,9) length_utf8 [of "FromLatin1 user"] by (simp_all add: hashable_def FromLatin1_def)
  obtain m' key where c: "OnCreateInternal env random random1 m ids user owner True sh0 =
      Some (sh\<lparr>m_pEncryptDict := Some m', sec_EncryptKey := key\<rparr>)" "agrees m m'" "length key = 32"
    "\<forall>sh'. m_pEncryptDict sh' = Some m' \<longrightarrow> sec_KeyLen sh' = sec_KeyLen sh \<longrightarrow> m_Revision sh' = m_Revision sh \<longrightarrow>
      m_Permissions sh' = m_Permissions sh \<longrightarrow> length (sec_EncryptKey sh') = 32 \<longrightarrow> aes_ready env user own key sh'"
    using create_aes [OF assms(1-3,5) h(1,2) assms(7), of random ids, folded assms(10)] by blast
  note l = LoadDict_created [OF assms(1) c(2), of "(CPDF_SecurityHandler memory)\<lparr>m_FileId := id_string env ids\<rparr>"]
  obtain created where "OnCreate env random random1 m ids user owner sh0 = Some created" "m_pEncryptDict created = Some m'"
    "m_pCryptoHandler created = CPDF_CryptoHandler (sec_Cipher sh) key (sec_KeyLen sh)" using create_init [OF c(1) assms(1) c(3)] by blast
  moreover have "\<exists>opened. OnInit env m' ids user (CPDF_SecurityHandler memory) = Some (True, opened) \<and> (m_bOwnerUnlocked opened \<or>
      m_pCryptoHandler opened = CPDF_CryptoHandler (sec_Cipher sh) key (sec_KeyLen sh))"
    using aes_scheme.user_init [OF l, of user own key] c(3,4) h assms(4-6) by (simp add: CPDF_SecurityHandler_def converted_def)
  moreover have "\<exists>opened. OnInit env m' ids own (CPDF_SecurityHandler memory) = Some (True, opened) \<and> m_bOwnerUnlocked opened \<and>
      m_pCryptoHandler opened = CPDF_CryptoHandler (sec_Cipher sh) key (sec_KeyLen sh)" if "own \<noteq> []"
    using aes_scheme.owner_init [OF l, of user own key] that c(3,4) assms(4,6) by (simp add: CPDF_SecurityHandler_def)
  ultimately show ?thesis using created_handler [OF assms(1) c(3)] by (fastforce simp: document_opens_def)
qed

section \<open>Examples\<close>

text \<open>Dictionaries of revision 3 and of revision 6.\<close>

definition sample_encryption :: "int dict" where
  "sample_encryption = [(B ''Length'', PNumber (Signed 128)), (B ''P'', PNumber (Signed (- 4))), (B ''R'', PNumber (Signed 3)),
    (B ''V'', PNumber (Signed 2))]"

definition sample_encryption6 :: "int dict" where
  "sample_encryption6 = [(B ''CF'', PDictionary [(B ''StdCF'', PDictionary [(B ''CFM'', PName (B ''AESV3''))])]),
    (B ''Length'', PNumber (Signed 256)), (B ''P'', PNumber (Signed (- 4))), (B ''R'', PNumber (Signed 6)),
    (B ''StmF'', PName (B ''StdCF'')), (B ''StrF'', PName (B ''StdCF'')), (B ''V'', PNumber (Signed 5))]"

definition sample_loaded :: "int dict \<Rightarrow> int security_handler" where
  "sample_loaded m = snd (LoadDict_out sample_pdf_env m (CPDF_SecurityHandler (replicate 32 0)))"

lemma sample_loads:
  "LoadDict_out sample_pdf_env sample_encryption (CPDF_SecurityHandler (replicate 32 0)) = (True, sample_loaded sample_encryption)"
  "LoadDict_out sample_pdf_env sample_encryption6 (CPDF_SecurityHandler (replicate 32 0)) = (True, sample_loaded sample_encryption6)"
proof -
  have "fst (LoadDict_out sample_pdf_env sample_encryption (CPDF_SecurityHandler (replicate 32 0)))"
    "fst (LoadDict_out sample_pdf_env sample_encryption6 (CPDF_SecurityHandler (replicate 32 0)))" by code_simp+
  then show "LoadDict_out sample_pdf_env sample_encryption (CPDF_SecurityHandler (replicate 32 0)) = (True, sample_loaded sample_encryption)"
    "LoadDict_out sample_pdf_env sample_encryption6 (CPDF_SecurityHandler (replicate 32 0)) = (True, sample_loaded sample_encryption6)"
    by (simp_all add: sample_loaded_def prod_eq_iff)
qed

lemma sample_loaded_values:
  "m_Revision (sample_loaded sample_encryption) = 3" "sec_KeyLen (sample_loaded sample_encryption) = 16"
  "sec_Cipher (sample_loaded sample_encryption) = kRC4" "m_Revision (sample_loaded sample_encryption6) = 6"
  "sec_KeyLen (sample_loaded sample_encryption6) = 32" "sec_Cipher (sample_loaded sample_encryption6) = kAES"
  by code_simp+

lemma sample_keys_ok: "keys_ok sample_encryption" "keys_ok sample_encryption6"
  by code_simp+

section \<open>Properties\<close>



text \<open>
  C9: a document of revision 5 or 6 can be opened with its passwords: both are accepted, whatever they are (below 2 MB), the
  permissions that were encrypted agree with those of the dictionary, and the cipher is the one of the document; for the user
  password unless it happens to be accepted as an owner password.
\<close>

theorem aes256_passwords_open_document:
  assumes "LoadDict_out env m sh0 = (True, sh)" and "keys_ok m" and "length (sec_EncryptKey sh0) = 32" and "length memory = 32"
    and "5 \<le> m_Revision sh" and "sec_Cipher sh \<noteq> kNone" and "length random1 = 4"
    and "length user < 2 ^ 21" and "length owner < 2 ^ 21" and "own = (if owner = [] then user else owner)"
  shows "\<exists>created m'. OnCreate env random random1 m ids user owner sh0 = Some created \<and> m_pEncryptDict created = Some m' \<and>
    (\<exists>opened. OnInit env m' ids user (CPDF_SecurityHandler memory) = Some (True, opened) \<and>
      (m_bOwnerUnlocked opened \<or> m_pCryptoHandler opened = m_pCryptoHandler created)) \<and>
    (own \<noteq> [] \<longrightarrow> (\<exists>opened. OnInit env m' ids own (CPDF_SecurityHandler memory) = Some (True, opened) \<and>
        m_bOwnerUnlocked opened \<and> m_pCryptoHandler opened = m_pCryptoHandler created))"
  using aes_document [OF assms, of random ids] by (auto simp: document_opens_def)

theorem aes256_passwords_open_document_witness:
  "\<exists>created m' opened. OnCreate sample_pdf_env (replicate 16 5) [1, 2, 3, 4] sample_encryption6 None [117] [111]
      (CPDF_SecurityHandler (replicate 32 0)) = Some created \<and>
    m_pEncryptDict created = Some m' \<and> OnInit sample_pdf_env m' None [111] (CPDF_SecurityHandler (replicate 32 9)) = Some (True, opened) \<and>
    m_bOwnerUnlocked opened \<and> m_pCryptoHandler opened = m_pCryptoHandler created"
  using aes256_passwords_open_document [OF sample_loads(2) sample_keys_ok(2), of "replicate 32 9" "[1, 2, 3, 4]" "[117]" "[111]" "[111]" "replicate 16 5" None]
  by (auto simp: sample_loaded_values CPDF_SecurityHandler_def)

text \<open>
  C36: the owner password does not give back every user password.  When the user password has 32 bytes or more and the 32nd is that of
  the padding, \<open>GetUserPassword\<close> cuts off trailing bytes that are equal to the end of the padding, while
  \<open>GetPassCode\<close> pads with its beginning: the passcode of the result is not that of the user password.
\<close>

theorem user_password_cut:
  assumes "LoadDict_out env m sh0 = (True, sh)" and "keys_ok m" and "length (sec_EncryptKey sh0) = 32"
    and "2 \<le> m_Revision sh" and "m_Revision sh < 5" and "sec_KeyLen sh \<le> 16"
    and "32 \<le> length user" and "user ! 31 = 0x7a" and "take 32 user \<noteq> kDefaultPasscode" and "owner \<noteq> []"
  shows "\<exists>created m'. OnCreate env random random1 m ids user owner sh0 = Some created \<and> m_pEncryptDict created = Some m' \<and>
    (\<forall>sh1. \<exists>sh2 found. LoadDict env m' sh1 = (True, sh2) \<and> GetUserPassword env owner sh2 = Some found \<and> GetPassCode found \<noteq> GetPassCode user)"
proof -
  obtain m' key where c: "OnCreateInternal env random random1 m ids user owner True sh0 =
      Some (sh\<lparr>m_pEncryptDict := Some m', sec_EncryptKey := key\<rparr>)" "agrees m m'" "length key = 32"
    "GetStringFor env m' (B ''O'') = owner_entry (m_Revision sh) (take (sec_KeyLen sh) (owner_digest (m_Revision sh) owner)) (GetPassCode user)"
    using create_rc4 [OF assms(1-6), of random random1 ids user owner] assms(10) by auto
  note l = LoadDict_created [OF assms(1) c(2)]
  let ?c = "GetPassCode user" and ?n = "strip_passcode (GetPassCode user) 32"
  have "\<exists>sh2. LoadDict env m' sh1 = (True, sh2) \<and> GetUserPassword env owner sh2 = Some (take ?n ?c)" for sh1
    using l [of sh1] GetUserPassword_entry [of _ m' ?c user env owner] assms(4,6) c(4) by simp
  moreover have "GetPassCode (take ?n ?c) \<noteq> ?c" using cut_passcode [OF assms(7-9)] .
  moreover obtain created where "OnCreate env random random1 m ids user owner sh0 = Some created" "m_pEncryptDict created = Some m'"
    using create_init [OF c(1) assms(1) c(3)] by blast
  ultimately show ?thesis by blast
qed

theorem user_password_cut_witness:
  "\<exists>created m' sh2 found. OnCreate sample_pdf_env [] [] sample_encryption None (replicate 31 65 @ [0x7a]) [111] (CPDF_SecurityHandler (replicate 32 0)) = Some created \<and>
    m_pEncryptDict created = Some m' \<and> LoadDict sample_pdf_env m' (CPDF_SecurityHandler (replicate 32 9)) = (True, sh2) \<and>
    GetUserPassword sample_pdf_env [111] sh2 = Some found \<and> GetPassCode found \<noteq> GetPassCode (replicate 31 65 @ [0x7a])"
proof -
  have "take 32 (replicate 31 65 @ [0x7a]) \<noteq> kDefaultPasscode" by code_simp
  then show ?thesis
    using user_password_cut [OF sample_loads(1) sample_keys_ok(1), of "replicate 31 65 @ [0x7a]" "[111]" "[]" "[]" None]
    by (fastforce simp: sample_loaded_values CPDF_SecurityHandler_def nth_append)
qed

end
