(* ===== verification/Pdf_Text.thy ===== *)
theory Pdf_Text
  imports Wide_String Span
begin

text \<open>
  Text strings of PDF files: PDF_EncodeText and PDF_DecodeText of
  src/core/fpdfapi/parser/fpdf_parser_decode.cpp.  A text is written in the one-byte PDFDocEncoding when
  the table has all its characters and in big-endian UTF-16 behind a byte order mark otherwise.
\<close>

section \<open>The encoding table\<close>

definition kPDFDocEncoding :: "nat list" where
  "kPDFDocEncoding =
    [0, 1, 2, 3, 4, 5, 6, 7, 8,
     9, 0xA, 0xB, 0xC, 0xD, 0xE, 0xF, 0x10, 0x11,
     0x12, 0x13, 0x14, 0x15, 0x16, 0x17, 0x2D8, 0x2C7, 0x2C6,
     0x2D9, 0x2DD, 0x2DB, 0x2DA, 0x2DC, 0x20, 0x21, 0x22, 0x23,
     0x24, 0x25, 0x26, 0x27, 0x28, 0x29, 0x2A, 0x2B, 0x2C,
     0x2D, 0x2E, 0x2F, 0x30, 0x31, 0x32, 0x33, 0x34, 0x35,
     0x36, 0x37, 0x38, 0x39, 0x3A, 0x3B, 0x3C, 0x3D, 0x3E,
     0x3F, 0x40, 0x41, 0x42, 0x43, 0x44, 0x45, 0x46, 0x47,
     0x48, 0x49, 0x4A, 0x4B, 0x4C, 0x4D, 0x4E, 0x4F, 0x50,
     0x51, 0x52, 0x53, 0x54, 0x55, 0x56, 0x57, 0x58, 0x59,
     0x5A, 0x5B, 0x5C, 0x5D, 0x5E, 0x5F, 0x60, 0x61, 0x62,
     0x63, 0x64, 0x65, 0x66, 0x67, 0x68, 0x69, 0x6A, 0x6B,
     0x6C, 0x6D, 0x6E, 0x6F, 0x70, 0x71, 0x72, 0x73, 0x74,
     0x75, 0x76, 0x77, 0x78, 0x79, 0x7A, 0x7B, 0x7C, 0x7D,
     0x7E, 0, 0x2022, 0x2020, 0x2021, 0x2026, 0x2014, 0x2013, 0x192,
     0x2044, 0x2039, 0x203A, 0x2212, 0x2030, 0x201E, 0x201C, 0x201D, 0x2018,
     0x2019, 0x201A, 0x2122, 0xFB01, 0xFB02, 0x141, 0x152, 0x160, 0x178,
     0x17D, 0x131, 0x142, 0x153, 0x161, 0x17E, 0, 0x20AC, 0xA1,
     0xA2, 0xA3, 0xA4, 0xA5, 0xA6, 0xA7, 0xA8, 0xA9, 0xAA,
     0xAB, 0xAC, 0, 0xAE, 0xAF, 0xB0, 0xB1, 0xB2, 0xB3,
     0xB4, 0xB5, 0xB6, 0xB7, 0xB8, 0xB9, 0xBA, 0xBB, 0xBC,
     0xBD, 0xBE, 0xBF, 0xC0, 0xC1, 0xC2, 0xC3, 0xC4, 0xC5,
     0xC6, 0xC7, 0xC8, 0xC9, 0xCA, 0xCB, 0xCC, 0xCD, 0xCE,
     0xCF, 0xD0, 0xD1, 0xD2, 0xD3, 0xD4, 0xD5, 0xD6, 0xD7,
     0xD8, 0xD9, 0xDA, 0xDB, 0xDC, 0xDD, 0xDE, 0xDF, 0xE0,
     0xE1, 0xE2, 0xE3, 0xE4, 0xE5, 0xE6, 0xE7, 0xE8, 0xE9,
     0xEA, 0xEB, 0xEC, 0xED, 0xEE, 0xEF, 0xF0, 0xF1, 0xF2,
     0xF3, 0xF4, 0xF5, 0xF6, 0xF7, 0xF8, 0xF9, 0xFA, 0xFB,
     0xFC, 0xFD, 0xFE, 0xFF]"

lemma length_kPDFDocEncoding: "length kPDFDocEncoding = 256"
  by (simp add: kPDFDocEncoding_def)

section \<open>Decoding\<close>

definition GetUnicodeFromBigEndianBytes :: "byte \<Rightarrow> byte \<Rightarrow> nat" where
  "GetUnicodeFromBigEndianBytes a b = unat a * 256 + unat b"

definition GetUnicodeFromLittleEndianBytes :: "byte \<Rightarrow> byte \<Rightarrow> nat" where
  "GetUnicodeFromLittleEndianBytes a b = unat b * 256 + unat a"

text \<open>The code units of the text; an odd last byte is dropped.\<close>

fun text_units :: "(byte \<Rightarrow> byte \<Rightarrow> nat) \<Rightarrow> bytes \<Rightarrow> nat list" where
  "text_units get (a # b # bs) = get a b # text_units get bs"
| "text_units get bs = []"

text \<open>
  The loop over the code units.  The unit 0x1B opens a language region, which the next one closes; the
  unit after the region is taken as it is.
\<close>

function decode_units :: "nat list \<Rightarrow> wstring" where
  "decode_units [] = []"
| "decode_units (u # us) =
    (if u = 0x1B then
       (case dropWhile (\<lambda>v. v \<noteq> 0x1B) us of
          esc # v # rest \<Rightarrow> v # decode_units rest
        | _ \<Rightarrow> [])
     else u # decode_units us)"
  by pat_completeness auto
termination
proof (relation "measure length", simp, goal_cases)
  case (1 u us a b c d)
  then have "length (a # c # d) \<le> length us" by (metis length_dropWhile_le)
  then show ?case by simp
qed simp

definition has_text_mark :: "bytes \<Rightarrow> bool" where
  "has_text_mark span \<longleftrightarrow> 2 \<le> length span \<and>
    (span ! 0 = 0xFE \<and> span ! 1 = 0xFF \<or> span ! 0 = 0xFF \<and> span ! 1 = 0xFE)"

definition PDF_DecodeText :: "bytes \<Rightarrow> wstring" where
  "PDF_DecodeText span =
    (if has_text_mark span then
       decode_units (text_units
         (if span ! 0 = 0xFE then GetUnicodeFromBigEndianBytes else GetUnicodeFromLittleEndianBytes) (drop 2 span))
     else map (\<lambda>b. kPDFDocEncoding ! unat b) span)"

section \<open>Encoding\<close>

definition doc_code :: "nat \<Rightarrow> nat option" where
  "doc_code c = find (\<lambda>code. kPDFDocEncoding ! code = c) [0..<256]"

fun doc_codes :: "wstring \<Rightarrow> bytes option" where
  "doc_codes [] = Some []"
| "doc_codes (c # str) = (case doc_code c of None \<Rightarrow> None
    | Some code \<Rightarrow> map_option ((#) (of_nat code)) (doc_codes str))"

definition PDF_EncodeText :: "wstring \<Rightarrow> bytes" where
  "PDF_EncodeText str = (case doc_codes str of Some bs \<Rightarrow> bs
    | None \<Rightarrow>
      if (2 ^ 31 - 1) div 2 - 1 < length str then []
      else [0xFE, 0xFF] @ concat (map (\<lambda>c. [of_nat (c div 256), of_nat c]) str))"

section \<open>Reading back\<close>

text \<open>The first position of a character in the table.\<close>

lemma find_upt_takeWhile:
  "find (\<lambda>i. xs ! i = c) [0..<length xs] =
    (if length (takeWhile (\<lambda>x. x \<noteq> c) xs) < length xs then Some (length (takeWhile (\<lambda>x. x \<noteq> c) xs)) else None)"
proof (cases "c \<in> set xs")
  case True
  then obtain ys zs where xs: "xs = ys @ c # zs" "c \<notin> set ys" by (meson split_list_first)
  then have "takeWhile (\<lambda>x. x \<noteq> c) xs = ys" by (subst xs(1), subst takeWhile_append2) auto
  moreover have "\<forall>j<length ys. xs ! j \<noteq> c" using xs by (auto simp: nth_append dest: nth_mem)
  moreover have "length ys < length xs" "xs ! length ys = c" using xs(1) by simp_all
  ultimately show ?thesis by (auto simp: find_Some_iff intro!: exI [of _ "length ys"])
next
  case False
  then have "takeWhile (\<lambda>x. x \<noteq> c) xs = xs" by (subst takeWhile_eq_all_conv) auto
  then have "length (takeWhile (\<lambda>x. x \<noteq> c) xs) = length xs" by (rule arg_cong)
  then show ?thesis using False by (auto simp: find_None_iff)
qed

lemma doc_code_takeWhile:
  "doc_code c = (let n = length (takeWhile (\<lambda>x. x \<noteq> c) kPDFDocEncoding) in if n < 256 then Some n else None)"
  using find_upt_takeWhile [of kPDFDocEncoding c] by (simp add: doc_code_def Let_def length_kPDFDocEncoding)





section \<open>Properties\<close>



text \<open>
  the last condition is needed: the text of the two characters U+00FE and U+00FF followed by \<open>ab\<close> is
  written in the one-byte encoding as FE FF 61 62, and read back as the single character U+6162.
\<close>

theorem text_string_mark_misread:
  "PDF_EncodeText [0xFE, 0xFF, 0x61, 0x62] = [0xFE, 0xFF, 0x61, 0x62] \<and>
   PDF_DecodeText (PDF_EncodeText [0xFE, 0xFF, 0x61, 0x62]) = [0x6162]"
  by (simp add: PDF_EncodeText_def PDF_DecodeText_def doc_code_takeWhile kPDFDocEncoding_def has_text_mark_def
      GetUnicodeFromBigEndianBytes_def)

end
