(* ===== verification/Ofd_Package.thy ===== *)
theory Ofd_Package
  imports Xml_Roundtrip Fx_Number
begin

text \<open>
  The OFD package: the archive with its cache of parsed entries (src/ofd/cofd_zipentry.cpp), the reader
  of the entry document ofd.xml (src/ofd/cofd_ofdxml.cpp) and the package that ties them together
  (src/ofd/cofd_package.cpp).  The archive itself is read by a third-party library and is a parameter:
  the names of its entries and the bytes of an entry.  So are the character functions of the platform.
  A loop that may not end is a partial function, \<open>None\<close> when it never returns; following a null
  pointer and an index outside a container are errors of their own.
\<close>

section \<open>The environment\<close>

record platform =
  plat_iswspace :: "nat \<Rightarrow> bool"
  plat_towlower :: "nat \<Rightarrow> nat"
  plat_towupper :: "nat \<Rightarrow> nat"
  plat_acp :: FX_CodePage

record archive =
  entry_names :: "bytes option list"
  entry_data :: "bytes \<Rightarrow> bytes option"

datatype ofd_error = NullPointer | BadIndex | BadLength

text \<open>
  The parser on the bytes of an entry.  By the theorem that it is total its third outcome does not
  occur on a platform whose case folding keeps the marks of the syntax apart from the terminator.
\<close>

definition parse_xml :: "platform \<Rightarrow> bytes \<Rightarrow> xml_node option" where
  "parse_xml plat data =
    (case Parse (plat_iswspace plat) (plat_towlower plat) (plat_acp plat) data of
       Document root \<Rightarrow> Some root | NoDocument \<Rightarrow> None | Undefined \<Rightarrow> None)"

lemma parse_xml_saved:
  assumes "wf_node e" and "\<not> is_text e" and "list_all (\<lambda>c. c < 0x80000000) (save_chars e)"
    and "plat_acp plat = kOtherCodePage"
  shows "parse_xml plat (Save e) = Some (XMLElement (L ''root'') [] [e])"
  using assms by (cases e) (simp_all add: parse_xml_def parse_saved del: Save.simps save_chars.simps wf_node.simps(1))

section \<open>The archive and its cache\<close>

record zip_entry =
  zip_handler :: "archive option"
  cached_entries :: "bytes \<rightharpoonup> xml_node"
  zip_entries_name :: "bytes set"

definition new_zip_entry :: zip_entry where
  "new_zip_entry = \<lparr>zip_handler = None, cached_entries = Map.empty, zip_entries_name = {}\<rparr>"

definition Open :: "archive option \<Rightarrow> zip_entry \<Rightarrow> bool \<times> zip_entry" where
  "Open handler z = (case handler of
      None \<Rightarrow> (False, z\<lparr>zip_handler := None\<rparr>)
    | Some arc \<Rightarrow>
        (True, z\<lparr>zip_handler := Some arc,
          zip_entries_name := fold insert (List.map_filter id (entry_names arc)) (zip_entries_name z)\<rparr>))"

text \<open>The first character of an entry name is dropped when it is a slash.\<close>

definition entry_path :: "bytes \<Rightarrow> bytes" where
  "entry_path entry_name = (if hd entry_name = 47 then tl entry_name else entry_name)"

definition zip_entry_open :: "zip_entry \<Rightarrow> bytes \<Rightarrow> bytes option" where
  "zip_entry_open z name = Option.bind (zip_handler z) (\<lambda>arc. entry_data arc name)"

definition ReadAndCacheXml :: "platform \<Rightarrow> bytes \<Rightarrow> zip_entry \<Rightarrow> xml_node option \<times> zip_entry" where
  "ReadAndCacheXml plat entry_name z =
    (if entry_name = [] then (None, z)
     else
       let name = entry_path entry_name in
       case cached_entries z name of
         Some xml \<Rightarrow> (Some xml, z)
       | None \<Rightarrow> (case zip_entry_open z name of
           None \<Rightarrow> (None, z)
         | Some data \<Rightarrow> (case parse_xml plat data of
             None \<Rightarrow> (None, z)
           | Some xml \<Rightarrow> (Some xml, z\<lparr>cached_entries := (cached_entries z)(name \<mapsto> xml)\<rparr>))))"

definition ReadBinary :: "bytes \<Rightarrow> zip_entry \<Rightarrow> bytes option" where
  "ReadBinary entry_name z = (if entry_name = [] then None else zip_entry_open z (entry_path entry_name))"

text \<open>The names handed to the archive for deletion; the first character of an empty name is out of range.\<close>

definition DeleteEntries_names :: "wstring list \<Rightarrow> ofd_error + bytes list" where
  "DeleteEntries_names entries =
    (if list_all (\<lambda>e. FX_UTF8Encode e \<noteq> []) entries then Inr (map (\<lambda>e. entry_path (FX_UTF8Encode e)) entries)
     else Inl BadIndex)"

section \<open>The entry document\<close>

record doc_info =
  doc_root :: wstring
  doc_id :: wstring
  doc_title :: wstring
  doc_author :: wstring
  doc_create_date :: wstring
  doc_modify_date :: wstring
  doc_creator :: wstring
  doc_creator_version :: wstring
  signature_root :: wstring

definition new_doc_info :: doc_info where
  "new_doc_info = \<lparr>doc_root = [], doc_id = [], doc_title = [], doc_author = [], doc_create_date = [],
    doc_modify_date = [], doc_creator = [], doc_creator_version = [], signature_root = []\<rparr>"

text \<open>The text of the first child of a name, \<open>None\<close> when there is no such child.\<close>

definition child_text :: "string \<Rightarrow> xml_node \<Rightarrow> wstring option" where
  "child_text name node = (case GetFirstChildNamed_NoPrefix (L name) (element_children node) of
      [] \<Rightarrow> None | child # _ \<Rightarrow> Some (GetTextData (element_children child)))"

definition set_text :: "wstring option \<Rightarrow> ((wstring \<Rightarrow> wstring) \<Rightarrow> 'a \<Rightarrow> 'a) \<Rightarrow> 'a \<Rightarrow> 'a" where
  "set_text t upd r = (case t of None \<Rightarrow> r | Some s \<Rightarrow> upd (\<lambda>_. s) r)"

text \<open>The title is looked up below the node of the document id, which may be null.\<close>

definition read_doc_info :: "xml_node \<Rightarrow> doc_info \<Rightarrow> ofd_error + doc_info" where
  "read_doc_info info_node di =
    (case GetFirstChildNamed_NoPrefix (L ''DocID'') (element_children info_node) of
       [] \<Rightarrow> Inl NullPointer
     | id_node # _ \<Rightarrow> Inr
        (set_text (child_text ''CreatorVersion'' info_node) doc_creator_version_update
        (set_text (child_text ''Creator'' info_node) doc_creator_update
        (set_text (child_text ''ModDate'' info_node) doc_modify_date_update
        (set_text (child_text ''CreationDate'' info_node) doc_create_date_update
        (set_text (child_text ''Author'' info_node) doc_author_update
        (set_text (child_text ''Title'' id_node) doc_title_update
        (di\<lparr>doc_id := GetTextData (element_children id_node)\<rparr>))))))))"

definition read_doc_body :: "xml_node \<Rightarrow> xml_node \<Rightarrow> ofd_error + doc_info" where
  "read_doc_body root_node doc_body =
    (let di = new_doc_info\<lparr>doc_root := Trim (GetTextData (element_children root_node))\<rparr>;
         di = set_text (map_option Trim (child_text ''Signatures'' doc_body)) signature_root_update di
     in case GetFirstChildNamed_NoPrefix (L ''DocInfo'') (element_children doc_body) of
          [] \<Rightarrow> Inr di | info_node # _ \<Rightarrow> read_doc_info info_node di)"

text \<open>The loop over the document bodies; a body without a root is visited again without end.\<close>

partial_function (option) doc_bodies ::
  "xml_node list \<Rightarrow> doc_info list \<Rightarrow> (ofd_error + doc_info list) option" where
  "doc_bodies here acc = (case here of
      [] \<Rightarrow> Some (Inr acc)
    | doc_body # _ \<Rightarrow>
      (case GetFirstChildNamed_NoPrefix (L ''DocRoot'') (element_children doc_body) of
         [] \<Rightarrow> doc_bodies here acc
       | root_node # _ \<Rightarrow> (case read_doc_body root_node doc_body of
           Inl e \<Rightarrow> Some (Inl e)
         | Inr di \<Rightarrow> doc_bodies (GetNextSiblingNamed_NoPrefix (L ''DocBody'') here) (acc @ [di]))))"

definition COFD_ParseOfdXml :: "xml_node \<Rightarrow> (ofd_error + doc_info list) option" where
  "COFD_ParseOfdXml root =
    (case GetFirstChildNamed_NoPrefix (L ''OFD'') (element_children root) of
       [] \<Rightarrow> Some (Inr [])
     | ofd_node # _ \<Rightarrow>
        doc_bodies (GetFirstChildNamed_NoPrefix (L ''DocBody'') (element_children ofd_node)) [])"

definition GetDocInfo :: "nat \<Rightarrow> doc_info list \<Rightarrow> doc_info option" where
  "GetDocInfo idx infos = (if idx < length infos then Some (infos ! idx) else None)"

section \<open>The package\<close>

record package =
  pkg_zip :: zip_entry
  ofd_infos :: "doc_info list option"

definition new_package :: package where
  "new_package = \<lparr>pkg_zip = new_zip_entry, ofd_infos = None\<rparr>"

definition ParseOFD :: "platform \<Rightarrow> archive option \<Rightarrow> package \<Rightarrow> (ofd_error + bool \<times> package) option" where
  "ParseOFD plat handler pkg =
    (let (opened, z) = Open handler (pkg_zip pkg) in
     if \<not> opened then Some (Inr (False, pkg\<lparr>pkg_zip := z\<rparr>))
     else
       let (ofd_xml, z) = ReadAndCacheXml plat (FX_UTF8Encode (L ''ofd.xml'')) z in
       case ofd_xml of
         None \<Rightarrow> Some (Inr (False, pkg\<lparr>pkg_zip := z\<rparr>))
       | Some root \<Rightarrow> (case COFD_ParseOfdXml root of
           None \<Rightarrow> None
         | Some (Inl e) \<Rightarrow> Some (Inl e)
         | Some (Inr infos) \<Rightarrow> Some (Inr (infos \<noteq> [], pkg\<lparr>pkg_zip := z, ofd_infos := Some infos\<rparr>))))"

text \<open>Case-insensitive comparison of terminated wide strings.\<close>

fun FXSYS_wcsicmp :: "(nat \<Rightarrow> nat) \<Rightarrow> wstring \<Rightarrow> wstring \<Rightarrow> int" where
  "FXSYS_wcsicmp up [] [] = 0"
| "FXSYS_wcsicmp up [] (l # str2) = - int (up l)"
| "FXSYS_wcsicmp up (f # str1) [] = int (up f)"
| "FXSYS_wcsicmp up (f # str1) (l # str2) =
    (if up f \<noteq> 0 \<and> up f = up l then FXSYS_wcsicmp up str1 str2 else int (up f) - int (up l))"

definition CompareNoCase :: "(nat \<Rightarrow> nat) \<Rightarrow> wstring \<Rightarrow> wstring \<Rightarrow> int" where
  "CompareNoCase up s str = (if s \<noteq> [] then FXSYS_wcsicmp up s str else if str = [] \<or> hd str = 0 then 0 else - 1)"

text \<open>The search for the last separator at or before an index; the result is the length of the directory.\<close>

fun directory_length :: "wstring \<Rightarrow> nat \<Rightarrow> nat" where
  "directory_length s 0 = 0"
| "directory_length s (Suc len) = (if s ! len = 92 \<or> s ! len = 47 then Suc len else directory_length s len)"

definition document_base_url :: "(nat \<Rightarrow> nat) \<Rightarrow> wstring \<Rightarrow> wstring" where
  "document_base_url up root =
    (let len = length root in
     if 4 < len \<and> CompareNoCase up (Last root 4) (L ''.xml'') = 0 then
       (let n = directory_length root (len - 4) in if 0 < n then Substr root 0 n else [])
     else [])"

section \<open>The contract of a reader of entries\<close>

text \<open>
  What the layers above rely on: a read returns what the source of the reader holds under that name
  and leaves the source alone.  A sequence of reads gives the results in order and the state at the end.
\<close>

fun reads :: "('n \<Rightarrow> 's \<Rightarrow> 'v \<times> 's) \<Rightarrow> 'n list \<Rightarrow> 's \<Rightarrow> 'v list \<times> 's" where
  "reads read [] s = ([], s)"
| "reads read (n # ns) s = (let (v, s) = read n s; (vs, s) = reads read ns s in (v # vs, s))"

locale entry_reader =
  fixes ok :: "'s \<Rightarrow> bool" and src :: "'s \<Rightarrow> 'a" and read :: "'n \<Rightarrow> 's \<Rightarrow> 'v option \<times> 's"
    and lookup :: "'a \<Rightarrow> 'n \<Rightarrow> 'v option"
  assumes read_result: "ok s \<Longrightarrow> fst (read n s) = lookup (src s) n"
    and read_ok: "ok s \<Longrightarrow> ok (snd (read n s))"
    and read_src: "ok s \<Longrightarrow> src (snd (read n s)) = src s"
begin

lemma reads_lookup: "ok s \<Longrightarrow> fst (reads read ns s) = map (lookup (src s)) ns"
proof (induction ns arbitrary: s)
  case (Cons n ns)
  then show ?case
    using read_result [of s n] read_ok [of s n] read_src [of s n] by (auto simp: split_def Let_def)
qed simp

lemma reads_ok: "ok s \<Longrightarrow> ok (snd (reads read ns s)) \<and> src (snd (reads read ns s)) = src s"
proof (induction ns arbitrary: s)
  case (Cons n ns)
  then show ?case using read_ok [of s n] read_src [of s n] by (auto simp: split_def Let_def)
qed simp

end

text \<open>What an archive holds under a name, without any cache.\<close>

definition read_entry :: "platform \<Rightarrow> archive option \<Rightarrow> bytes \<Rightarrow> xml_node option" where
  "read_entry plat arc entry_name =
    (if entry_name = [] then None
     else Option.bind (Option.bind arc (\<lambda>a. entry_data a (entry_path entry_name))) (parse_xml plat))"

definition cache_ok :: "platform \<Rightarrow> zip_entry \<Rightarrow> bool" where
  "cache_ok plat z \<longleftrightarrow> (\<forall>name xml. cached_entries z name = Some xml \<longrightarrow>
    Option.bind (zip_entry_open z name) (parse_xml plat) = Some xml)"

lemma read_entry_open:
  "read_entry plat (zip_handler z) n =
    (if n = [] then None else Option.bind (zip_entry_open z (entry_path n)) (parse_xml plat))"
  by (simp add: read_entry_def zip_entry_open_def)

lemma zip_entry_open_cached [simp]: "zip_entry_open (z\<lparr>cached_entries := c\<rparr>) = zip_entry_open z"
  by (simp add: zip_entry_open_def fun_eq_iff)

lemma ReadAndCacheXml_result:
  "cache_ok plat z \<Longrightarrow> fst (ReadAndCacheXml plat n z) = read_entry plat (zip_handler z) n"
  by (auto simp: ReadAndCacheXml_def read_entry_open cache_ok_def Let_def split: option.split)

lemma ReadAndCacheXml_handler: "zip_handler (snd (ReadAndCacheXml plat n z)) = zip_handler z"
  by (auto simp: ReadAndCacheXml_def Let_def split: option.split)

lemma ReadAndCacheXml_cache: "cache_ok plat z \<Longrightarrow> cache_ok plat (snd (ReadAndCacheXml plat n z))"
  by (auto simp: ReadAndCacheXml_def cache_ok_def Let_def split: option.splits if_splits)

interpretation zip_reader: entry_reader "cache_ok plat" zip_handler "ReadAndCacheXml plat" "read_entry plat" for plat
  by unfold_locales (simp_all add: ReadAndCacheXml_result ReadAndCacheXml_handler ReadAndCacheXml_cache)

lemma cache_ok_Open: "cached_entries z = Map.empty \<Longrightarrow> cache_ok plat (snd (Open handler z))"
  by (simp add: Open_def cache_ok_def split: option.split)

lemma Open_handler: "zip_handler (snd (Open handler z)) = handler"
  by (simp add: Open_def split: option.split)

section \<open>The loop over the document bodies\<close>

text \<open>The outcome of the loop on the list of the document bodies.\<close>

fun bodies_outcome :: "xml_node list \<Rightarrow> (ofd_error + doc_info list) option" where
  "bodies_outcome [] = Some (Inr [])"
| "bodies_outcome (doc_body # rest) =
    (case GetFirstChildNamed_NoPrefix (L ''DocRoot'') (element_children doc_body) of
       [] \<Rightarrow> None
     | root_node # _ \<Rightarrow> (case read_doc_body root_node doc_body of
         Inl e \<Rightarrow> Some (Inl e)
       | Inr di \<Rightarrow> map_option (map_sum id ((#) di)) (bodies_outcome rest)))"

lemma doc_bodies_hangs:
  assumes "GetFirstChildNamed_NoPrefix (L ''DocRoot'') (element_children doc_body) = []"
  shows "doc_bodies (doc_body # rest) acc = None"
proof -
  have "here \<noteq> doc_body # rest" if "doc_bodies here a = Some r" for here a r
    using that by (rule doc_bodies.raw_induct [where P = "\<lambda>here a r. here \<noteq> doc_body # rest", rotated])
      (use assms in fastforce)
  then show ?thesis by (cases "doc_bodies (doc_body # rest) acc") auto
qed

lemma find_sibling_Cons_cases:
  obtains "find_sibling_NoPrefix name cs = []" "filter (named_NoPrefix name) cs = []"
  | c rest where "find_sibling_NoPrefix name cs = c # rest"
      "filter (named_NoPrefix name) cs = c # filter (named_NoPrefix name) rest" "length rest < length cs"
proof (cases "dropWhile (\<lambda>c. \<not> named_NoPrefix name c) cs")
  case Nil
  then show thesis using that(1) by (simp add: find_sibling_dropWhile filter_empty_conv)
next
  case (Cons c rest)
  have "filter (named_NoPrefix name) cs =
      filter (named_NoPrefix name) (dropWhile (\<lambda>c. \<not> named_NoPrefix name c) cs)"
    by (induction cs) auto
  moreover have "named_NoPrefix name c" using Cons by (metis hd_dropWhile list.distinct(1) list.sel(1))
  moreover have "length rest < length cs"
    using length_dropWhile_le [of "\<lambda>c. \<not> named_NoPrefix name c" cs] Cons by simp
  ultimately show thesis using that(2) Cons by (simp add: find_sibling_dropWhile)
qed

lemma doc_bodies_outcome:
  "doc_bodies (find_sibling_NoPrefix (L ''DocBody'') cs) acc =
    map_option (map_sum id ((@) acc)) (bodies_outcome (filter (named_NoPrefix (L ''DocBody'')) cs))"
proof (induction "length cs" arbitrary: cs acc rule: less_induct)
  case less
  show ?case
  proof (rule find_sibling_Cons_cases [of "L ''DocBody''" cs])
    fix c rest
    assume *: "find_sibling_NoPrefix (L ''DocBody'') cs = c # rest"
      "filter (named_NoPrefix (L ''DocBody'')) cs = c # filter (named_NoPrefix (L ''DocBody'')) rest"
      "length rest < length cs"
    show ?thesis
    proof (cases "GetFirstChildNamed_NoPrefix (L ''DocRoot'') (element_children c)")
      case Nil
      then show ?thesis using * by (simp add: doc_bodies_hangs)
    next
      case (Cons r rs)
      then show ?thesis using * less [OF *(3)]
        by (subst doc_bodies.simps)
          (auto simp: GetNextSiblingNamed_NoPrefix_def option.map_comp sum.map_comp comp_def split: sum.split
            intro!: option.map_cong0 sum.map_cong0)
    qed
  qed (simp add: doc_bodies.simps)
qed

section \<open>What the entry document says\<close>

definition text_of :: "wstring option \<Rightarrow> wstring" where
  "text_of t = (case t of None \<Rightarrow> [] | Some s \<Rightarrow> s)"

definition first_child :: "string \<Rightarrow> xml_node \<Rightarrow> xml_node option" where
  "first_child name node = (case filter (named_NoPrefix (L name)) (element_children node) of
    [] \<Rightarrow> None | child # _ \<Rightarrow> Some child)"

definition text_below :: "xml_node option \<Rightarrow> string \<Rightarrow> wstring" where
  "text_below node name = (case Option.bind node (first_child name) of
    None \<Rightarrow> [] | Some child \<Rightarrow> GetTextData (element_children child))"

text \<open>A body the reader can process, and the record it makes of it.\<close>

definition body_ok :: "xml_node \<Rightarrow> bool" where
  "body_ok body \<longleftrightarrow> first_child ''DocRoot'' body \<noteq> None \<and>
    (case first_child ''DocInfo'' body of None \<Rightarrow> True | Some info \<Rightarrow> first_child ''DocID'' info \<noteq> None)"

definition body_info :: "xml_node \<Rightarrow> doc_info" where
  "body_info body =
    (let info = first_child ''DocInfo'' body in
     \<lparr>doc_root = Trim (text_below (Some body) ''DocRoot''),
      doc_id = text_below info ''DocID'',
      doc_title = text_below (Option.bind info (first_child ''DocID'')) ''Title'',
      doc_author = text_below info ''Author'',
      doc_create_date = text_below info ''CreationDate'',
      doc_modify_date = text_below info ''ModDate'',
      doc_creator = text_below info ''Creator'',
      doc_creator_version = text_below info ''CreatorVersion'',
      signature_root = Trim (text_below (Some body) ''Signatures'')\<rparr>)"

lemma GetFirstChild_first_child:
  "GetFirstChildNamed_NoPrefix (L name) (element_children node) = [] \<longleftrightarrow> first_child name node = None"
  "GetFirstChildNamed_NoPrefix (L name) (element_children node) = c # cs \<Longrightarrow> first_child name node = Some c"
  unfolding GetFirstChildNamed_NoPrefix_def GetNthChildNamed_NoPrefix_0 first_child_def
  by (rule find_sibling_Cons_cases [of "L name" "element_children node"]; simp)+

lemma child_text_below: "text_of (child_text name node) = text_below (Some node) name"
  by (auto simp: child_text_def text_of_def text_below_def GetFirstChild_first_child split: list.split)

lemma Trim_Nil [simp]: "Trim [] = []"
  by (simp add: Trim_def TrimLeft_def TrimRight_def)

text \<open>Setting a field that is still empty.\<close>

lemma set_text_empty:
  "doc_title r = [] \<Longrightarrow> set_text t doc_title_update r = r\<lparr>doc_title := text_of t\<rparr>"
  "doc_author r = [] \<Longrightarrow> set_text t doc_author_update r = r\<lparr>doc_author := text_of t\<rparr>"
  "doc_create_date r = [] \<Longrightarrow> set_text t doc_create_date_update r = r\<lparr>doc_create_date := text_of t\<rparr>"
  "doc_modify_date r = [] \<Longrightarrow> set_text t doc_modify_date_update r = r\<lparr>doc_modify_date := text_of t\<rparr>"
  "doc_creator r = [] \<Longrightarrow> set_text t doc_creator_update r = r\<lparr>doc_creator := text_of t\<rparr>"
  "doc_creator_version r = [] \<Longrightarrow> set_text t doc_creator_version_update r = r\<lparr>doc_creator_version := text_of t\<rparr>"
  "signature_root r = [] \<Longrightarrow> set_text t signature_root_update r = r\<lparr>signature_root := text_of t\<rparr>"
  by (cases r; cases t; simp add: set_text_def text_of_def)+

lemma text_of_None [simp]: "text_of None = []"
  by (simp add: text_of_def)

lemma text_of_map_Trim: "text_of (map_option Trim t) = Trim (text_of t)"
  by (simp add: text_of_def split: option.split)

lemma read_doc_body_info:
  assumes "body_ok body" and "GetFirstChildNamed_NoPrefix (L ''DocRoot'') (element_children body) = r # rs"
  shows "read_doc_body r body = Inr (body_info body)"
proof -
  have r: "text_below (Some body) ''DocRoot'' = GetTextData (element_children r)"
    using assms(2) by (simp add: text_below_def GetFirstChild_first_child)
  show ?thesis
  proof (cases "GetFirstChildNamed_NoPrefix (L ''DocInfo'') (element_children body)")
    case Nil
    then have "first_child ''DocInfo'' body = None" by (simp add: GetFirstChild_first_child)
    moreover have "text_below None name = []" for name by (simp add: text_below_def)
    ultimately show ?thesis using Nil r
      by (simp add: read_doc_body_def body_info_def new_doc_info_def set_text_empty text_of_map_Trim Let_def
          flip: child_text_below [of _ body])
  next
    case (Cons info infos)
    then have info: "first_child ''DocInfo'' body = Some info" by (simp add: GetFirstChild_first_child)
    then obtain d ds where d: "GetFirstChildNamed_NoPrefix (L ''DocID'') (element_children info) = d # ds"
      using assms(1) GetFirstChild_first_child(1) [of "''DocID''" info]
      by (cases "GetFirstChildNamed_NoPrefix (L ''DocID'') (element_children info)") (auto simp: body_ok_def)
    then have "first_child ''DocID'' info = Some d" by (simp add: GetFirstChild_first_child)
    moreover from this have "text_below (Some info) ''DocID'' = GetTextData (element_children d)"
      by (simp add: text_below_def)
    ultimately show ?thesis using Cons info d r
      by (simp add: read_doc_body_def read_doc_info_def body_info_def new_doc_info_def set_text_empty
          text_of_map_Trim Let_def flip: child_text_below [of _ body] child_text_below [of _ info] child_text_below [of _ d])
  qed
qed

lemma outcome_Nil [simp]: "map_option (map_sum id ((@) [])) x = (x :: ('e + 'a list) option)"
  by (cases x) (auto simp: map_sum_def split: sum.split)

lemma bodies_outcome_ok:
  "list_all body_ok pre \<Longrightarrow>
   bodies_outcome (pre @ rest) = map_option (map_sum id ((@) (map body_info pre))) (bodies_outcome rest)"
proof (induction pre)
  case Nil
  show ?case by (cases "bodies_outcome rest") (auto simp: map_sum_def split: sum.split)
next
  case (Cons b pre)
  then obtain r rs where r: "GetFirstChildNamed_NoPrefix (L ''DocRoot'') (element_children b) = r # rs"
    using GetFirstChild_first_child(1) [of "''DocRoot''" b]
    by (cases "GetFirstChildNamed_NoPrefix (L ''DocRoot'') (element_children b)") (auto simp: body_ok_def)
  then show ?case using Cons
    by (simp add: read_doc_body_info option.map_comp sum.map_comp comp_def)
qed

lemma ParseOfdXml_outcome:
  "first_child ''OFD'' root = Some ofd \<Longrightarrow>
   COFD_ParseOfdXml root = bodies_outcome (filter (named_NoPrefix (L ''DocBody'')) (element_children ofd))"
  using GetFirstChild_first_child [of "''OFD''" root]
    doc_bodies_outcome [of "element_children ofd" "[]"]
  by (cases "GetFirstChildNamed_NoPrefix (L ''OFD'') (element_children root)")
    (auto simp: COFD_ParseOfdXml_def GetFirstChildNamed_NoPrefix_def GetNthChildNamed_NoPrefix_0)

lemma directory_length_split:
  "\<forall>c\<in>set name. c \<noteq> 47 \<and> c \<noteq> 92 \<Longrightarrow> dir = [] \<or> last dir = 47 \<or> last dir = 92 \<Longrightarrow>
   directory_length (dir @ name @ ext) (length dir + length name) = length dir"
proof (induction name arbitrary: ext rule: rev_induct)
  case Nil
  then show ?case by (cases dir rule: rev_cases) (auto simp: nth_append)
next
  case (snoc c name)
  then show ?case using snoc.IH [of "c # ext"] by (auto simp: nth_append)
qed

section \<open>Properties of the package\<close>

text \<open>
  C16: the cache of parsed entries is invisible: whatever sequence of entries is read from an opened
  archive, each read returns the document parsed from the bytes of that entry (its name without a leading
  slash), and nothing for an empty name, a missing entry or an entry that is not well formed.
\<close>

theorem zip_cache_transparent:
  "fst (reads (ReadAndCacheXml plat) names (snd (Open handler new_zip_entry))) = map (read_entry plat handler) names"
proof -
  have "cache_ok plat (snd (Open handler new_zip_entry))"
    by (rule cache_ok_Open) (simp add: new_zip_entry_def)
  then show ?thesis using zip_reader.reads_lookup by (metis Open_handler)
qed

text \<open>
  reading the entry document terminates and lists the documents of the package in order, one record
  per body, when every body names its root and every information node has an id; the title of a
  document is searched below the id node.
\<close>

theorem ofd_xml_lists_documents:
  assumes "first_child ''OFD'' root = Some ofd"
    and "list_all body_ok (filter (named_NoPrefix (L ''DocBody'')) (element_children ofd))"
  shows "COFD_ParseOfdXml root = Some (Inr (map body_info (filter (named_NoPrefix (L ''DocBody'')) (element_children ofd))))"
  using bodies_outcome_ok [OF assms(2), of "[]"] by (simp add: ParseOfdXml_outcome [OF assms(1)])

definition sample_body :: xml_node where
  "sample_body = XMLElement (L ''ofd:DocBody'') []
    [XMLElement (L ''ofd:DocInfo'') [] [XMLElement (L ''ofd:DocID'') [] [XMLText (L ''7f'')],
       XMLElement (L ''ofd:Title'') [] [XMLText (L ''Report'')]],
     XMLElement (L ''ofd:DocRoot'') [] [XMLText (L '' Doc_0/Document.xml'')]]"

definition sample_ofd :: "xml_node list \<Rightarrow> xml_node" where
  "sample_ofd bodies = XMLElement (L ''root'') [] [XMLElement (L ''ofd:OFD'') [] bodies]"

theorem ofd_xml_lists_documents_witness:
  "COFD_ParseOfdXml (sample_ofd [XMLText [10], sample_body]) = Some (Inr [body_info sample_body]) \<and>
   doc_root (body_info sample_body) = L ''Doc_0/Document.xml'' \<and> doc_id (body_info sample_body) = L ''7f'' \<and>
   doc_title (body_info sample_body) = []"
proof -
  have "first_child ''OFD'' (sample_ofd [XMLText [10], sample_body]) =
      Some (XMLElement (L ''ofd:OFD'') [] [XMLText [10], sample_body])"
    by code_simp
  moreover have "filter (named_NoPrefix (L ''DocBody'')) [XMLText [10], sample_body] = [sample_body]" by code_simp
  moreover have "body_ok sample_body" by code_simp
  ultimately have "COFD_ParseOfdXml (sample_ofd [XMLText [10], sample_body]) = Some (Inr [body_info sample_body])"
    using ofd_xml_lists_documents [of "sample_ofd [XMLText [10], sample_body]"] by simp
  moreover have "doc_root (body_info sample_body) = L ''Doc_0/Document.xml''" by code_simp
  moreover have "doc_id (body_info sample_body) = L ''7f''" by code_simp
  moreover have "doc_title (body_info sample_body) = []" by code_simp
  ultimately show ?thesis by simp
qed

text \<open>
  C34: the two defects of that reader.  The first body without a root is visited again for ever, so the
  constructor does not return; a body whose information node has no id makes it follow a null pointer.
\<close>

theorem ofd_xml_defective_body:
  assumes "first_child ''OFD'' root = Some ofd"
    and "filter (named_NoPrefix (L ''DocBody'')) (element_children ofd) = pre @ body # post"
    and "list_all body_ok pre" and "\<not> body_ok body"
  shows "COFD_ParseOfdXml root = (if first_child ''DocRoot'' body = None then None else Some (Inl NullPointer))"
proof (cases "first_child ''DocRoot'' body = None")
  case True
  then have "GetFirstChildNamed_NoPrefix (L ''DocRoot'') (element_children body) = []"
    by (simp add: GetFirstChild_first_child(1))
  then show ?thesis using True assms by (simp add: ParseOfdXml_outcome bodies_outcome_ok)
next
  case False
  then obtain r rs where r: "GetFirstChildNamed_NoPrefix (L ''DocRoot'') (element_children body) = r # rs"
    using GetFirstChild_first_child(1) [of "''DocRoot''" body] by (metis list.exhaust)
  obtain info where info: "first_child ''DocInfo'' body = Some info" "first_child ''DocID'' info = None"
    using False assms(4) by (auto simp: body_ok_def split: option.splits)
  then obtain infos where "GetFirstChildNamed_NoPrefix (L ''DocInfo'') (element_children body) = info # infos"
    using GetFirstChild_first_child [of "''DocInfo''" body]
    by (metis list.exhaust option.distinct(1) option.inject)
  then have "read_doc_body r body = Inl NullPointer"
    using info GetFirstChild_first_child(1) [of "''DocID''" info] by (simp add: read_doc_body_def read_doc_info_def Let_def)
  then show ?thesis using assms False r by (simp add: ParseOfdXml_outcome bodies_outcome_ok)
qed

theorem ofd_xml_defective_body_witness:
  "COFD_ParseOfdXml (sample_ofd [sample_body, XMLElement (L ''ofd:DocBody'') [] []]) = None"
proof -
  let ?bad = "XMLElement (L ''ofd:DocBody'') [] []"
  have "first_child ''OFD'' (sample_ofd [sample_body, ?bad]) = Some (XMLElement (L ''ofd:OFD'') [] [sample_body, ?bad])"
    by code_simp
  moreover have "filter (named_NoPrefix (L ''DocBody'')) [sample_body, ?bad] = [sample_body] @ ?bad # []" by code_simp
  moreover have "body_ok sample_body" "\<not> body_ok ?bad" "first_child ''DocRoot'' ?bad = None" by code_simp+
  ultimately show ?thesis
    using ofd_xml_defective_body [of "sample_ofd [sample_body, ?bad]" _ "[sample_body]" ?bad "[]"] by simp
qed

text \<open>
  the base of the relative names in a document is the directory of its root file: everything up to
  and including the last slash or backslash, in any case of the file extension.
\<close>

theorem document_base_url_directory:
  assumes "\<forall>c\<in>set name. c \<noteq> 47 \<and> c \<noteq> 92" and "dir = [] \<or> last dir = 47 \<or> last dir = 92"
    and "dir @ name \<noteq> []" and "length ext = 4" and "FXSYS_wcsicmp up ext (L ''.xml'') = 0"
  shows "document_base_url up (dir @ name @ ext) = dir"
proof -
  have "Last (dir @ name @ ext) 4 = ext"
    using assms(4) by (auto simp: Last_def Substr_def)
  then have "CompareNoCase up (Last (dir @ name @ ext) 4) (L ''.xml'') = 0"
    using assms(4,5) by (auto simp: CompareNoCase_def)
  moreover have "length (dir @ name @ ext) - 4 = length dir + length name" using assms(4) by simp
  ultimately show ?thesis
    using assms directory_length_split [OF assms(1,2), of ext]
    by (cases "dir = []") (auto simp: document_base_url_def Let_def Substr_def)
qed

theorem document_base_url_directory_witness:
  "document_base_url (\<lambda>c. if 97 \<le> c \<and> c \<le> 122 then c - 32 else c) (L ''Doc_0/Document.XML'') = L ''Doc_0/''"
  using document_base_url_directory [of "L ''Document''" "L ''Doc_0/''" "L ''.XML''"
      "\<lambda>c. if 97 \<le> c \<and> c \<le> 122 then c - 32 else c"]
  by (simp add: L_def)

end
