(* ===== verification/Ofd_Document.thy ===== *)
theory Ofd_Document
  imports Ofd_Package
begin

text \<open>
  An OFD document, src/ofd/cofd_document.cpp: the constructor with the readers it calls (common data,
  resources, pages, annotations, signatures) and the queries of the layers above.  What the document takes
  from the font engine, the colour spaces of the PDF layer and floating point reading is a parameter.
  \<open>std::map::insert\<close> keeps an existing key; a \<open>std::multimap\<close> is the list of its entries in key order.
  Reading the first character of an empty string fails the check of \<open>WideString::operator[]\<close>.
\<close>

section \<open>The document\<close>

record ('font, 'cs, 'box) environment =
  env_platform :: platform
  string_to_id :: "wstring \<Rightarrow> int"
  scan_box :: "wstring \<Rightarrow> 'box option"
  default_box :: 'box
  font_from_file :: "bytes \<Rightarrow> 'font option"
  font_by_name :: "wstring option \<Rightarrow> 'font option"
  color_space_by_name :: "wstring \<Rightarrow> 'cs option"
  default_color_space :: 'cs

record multi_media =
  m_id :: int
  m_type :: wstring
  m_format :: wstring
  m_fullpath :: wstring

record ofd_signature =
  sig_id :: int
  sig_type :: wstring
  sig_url :: wstring

record ('font, 'cs, 'box) document =
  doc_zip :: zip_entry
  docinfo :: doc_info
  base_url :: wstring
  pageno2pageid :: "int list"
  signatures :: "ofd_signature list"
  pageid2pageurl :: "int \<rightharpoonup> wstring"
  pageid2annoturl :: "(int \<times> wstring) list"
  drawparams :: "int \<rightharpoonup> xml_node"
  compositeobj :: "int \<rightharpoonup> xml_node"
  colorspaces :: "int \<rightharpoonup> 'cs"
  fonts :: "int \<rightharpoonup> 'font"
  multi_medias :: "int \<rightharpoonup> multi_media"
  id2templates :: "int \<rightharpoonup> wstring"
  max_id :: int
  bbox :: 'box
  max_signature_id :: int

definition kDefaultFontID :: int where
  "kDefaultFontID = - 1001"

text \<open>The member \<open>max_signature_id_\<close> is not initialised: its first value is an argument.\<close>

definition new_document ::
  "('font, 'cs, 'box) environment \<Rightarrow> int \<Rightarrow> zip_entry \<Rightarrow> doc_info \<Rightarrow> wstring \<Rightarrow> ('font, 'cs, 'box) document" where
  "new_document env stale z info base =
    \<lparr>doc_zip = z, docinfo = info, base_url = base, pageno2pageid = [], signatures = [],
     pageid2pageurl = Map.empty, pageid2annoturl = [], drawparams = Map.empty, compositeobj = Map.empty,
     colorspaces = Map.empty, fonts = Map.empty, multi_medias = Map.empty, id2templates = Map.empty,
     max_id = 15856, bbox = default_box env, max_signature_id = stale\<rparr>"

definition map_insert :: "'k \<Rightarrow> 'v \<Rightarrow> ('k \<rightharpoonup> 'v) \<Rightarrow> ('k \<rightharpoonup> 'v)" where
  "map_insert k v m = (if m k = None then m(k \<mapsto> v) else m)"

fun multimap_insert :: "int \<Rightarrow> 'v \<Rightarrow> (int \<times> 'v) list \<Rightarrow> (int \<times> 'v) list" where
  "multimap_insert k v [] = [(k, v)]"
| "multimap_insert k v ((k', v') # m) =
    (if k < k' then (k, v) # (k', v') # m else (k', v') # multimap_insert k v m)"

definition read_xml ::
  "('font, 'cs, 'box) environment \<Rightarrow> wstring \<Rightarrow> ('font, 'cs, 'box) document \<Rightarrow>
   xml_node option \<times> ('font, 'cs, 'box) document" where
  "read_xml env url d =
    (let (xml, z) = ReadAndCacheXml (env_platform env) (FX_UTF8Encode url) (doc_zip d) in (xml, d\<lparr>doc_zip := z\<rparr>))"

section \<open>Resources\<close>

text \<open>A child element of a given local name that has an identifier.\<close>

fun resource_id :: "('font, 'cs, 'box) environment \<Rightarrow> string \<Rightarrow> xml_node \<Rightarrow> int option" where
  "resource_id env tag (XMLElement n as cs) =
    (if GetLocalTagName n = L tag \<and> HasAttribute (L ''ID'') as
     then Some (string_to_id env (GetAttribute (L ''ID'') as)) else None)"
| "resource_id env tag _ = None"

definition HandleResDrawParam ::
  "('font, 'cs, 'box) environment \<Rightarrow> xml_node \<Rightarrow> ('font, 'cs, 'box) document \<Rightarrow> ('font, 'cs, 'box) document" where
  "HandleResDrawParam env elem d =
    fold (\<lambda>dp d. case resource_id env ''DrawParam'' dp of None \<Rightarrow> d
      | Some i \<Rightarrow> d\<lparr>drawparams := map_insert i dp (drawparams d)\<rparr>) (element_children elem) d"

definition HandleResCompositeObj ::
  "('font, 'cs, 'box) environment \<Rightarrow> xml_node \<Rightarrow> ('font, 'cs, 'box) document \<Rightarrow> ('font, 'cs, 'box) document" where
  "HandleResCompositeObj env elem d =
    fold (\<lambda>dp d. case resource_id env ''CompositeGraphicUnit'' dp of None \<Rightarrow> d
      | Some i \<Rightarrow> d\<lparr>compositeobj := map_insert i dp (compositeobj d)\<rparr>) (element_children elem) d"

definition color_space_of :: "('font, 'cs, 'box) environment \<Rightarrow> xml_node \<Rightarrow> 'cs" where
  "color_space_of env dp =
    (let cs = (if HasAttribute (L ''Type'') (element_attrs dp)
               then color_space_by_name env (GetAttribute (L ''Type'') (element_attrs dp)) else None)
     in case cs of Some cs \<Rightarrow> cs | None \<Rightarrow> default_color_space env)"

definition HandleResColorSpaces ::
  "('font, 'cs, 'box) environment \<Rightarrow> xml_node \<Rightarrow> ('font, 'cs, 'box) document \<Rightarrow> ('font, 'cs, 'box) document" where
  "HandleResColorSpaces env elem d =
    fold (\<lambda>dp d. case resource_id env ''ColorSpace'' dp of None \<Rightarrow> d
      | Some i \<Rightarrow> d\<lparr>colorspaces := map_insert i (color_space_of env dp) (colorspaces d)\<rparr>) (element_children elem) d"

text \<open>The location of a font or media file; empty when the element names none.\<close>

definition resource_file :: "string \<Rightarrow> xml_node \<Rightarrow> wstring \<Rightarrow> wstring" where
  "resource_file tag dp base_loc = (case child_text tag dp of None \<Rightarrow> []
    | Some file \<Rightarrow> if file \<noteq> [] \<and> hd file = 47 then file else base_loc @ file)"

definition load_font :: "('font, 'cs, 'box) environment \<Rightarrow> xml_node \<Rightarrow> wstring \<Rightarrow> zip_entry \<Rightarrow> 'font option" where
  "load_font env dp base_loc z =
    (let font_loc = resource_file ''FontFile'' dp base_loc in
     if font_loc \<noteq> [] then
       (case ReadBinary (FX_UTF8Encode font_loc) z of None \<Rightarrow> None
        | Some buf \<Rightarrow> if buf \<noteq> [] then font_from_file env buf else None)
     else font_by_name env (if HasAttribute (L ''FontName'') (element_attrs dp)
       then Some (GetAttribute (L ''FontName'') (element_attrs dp)) else None))"

definition HandleFonts ::
  "('font, 'cs, 'box) environment \<Rightarrow> xml_node \<Rightarrow> wstring \<Rightarrow> ('font, 'cs, 'box) document \<Rightarrow>
   ('font, 'cs, 'box) document" where
  "HandleFonts env elem base_loc d =
    fold (\<lambda>dp d. case resource_id env ''Font'' dp of None \<Rightarrow> d
      | Some i \<Rightarrow> (case load_font env dp base_loc (doc_zip d) of None \<Rightarrow> d
          | Some font \<Rightarrow> d\<lparr>fonts := map_insert i font (fonts d)\<rparr>)) (element_children elem) d"

definition HandleMultiMedias ::
  "('font, 'cs, 'box) environment \<Rightarrow> xml_node \<Rightarrow> wstring \<Rightarrow> ('font, 'cs, 'box) document \<Rightarrow>
   ('font, 'cs, 'box) document" where
  "HandleMultiMedias env elem base_loc d =
    fold (\<lambda>dp d. case resource_id env ''MultiMedia'' dp of None \<Rightarrow> d
      | Some i \<Rightarrow>
          let path = resource_file ''MediaFile'' dp base_loc in
          if path \<noteq> [] then
            d\<lparr>multi_medias := map_insert i \<lparr>m_id = i, m_type = GetAttribute (L ''Type'') (element_attrs dp),
                m_format = GetAttribute (L ''Format'') (element_attrs dp), m_fullpath = path\<rparr> (multi_medias d)\<rparr>
          else d) (element_children elem) d"

text \<open>The directory of the files a resource document names.\<close>

definition resource_base :: "xml_node \<Rightarrow> ('font, 'cs, 'box) document \<Rightarrow> wstring" where
  "resource_base res_node d =
    (let base_loc = (if HasAttribute (L ''BaseLoc'') (element_attrs res_node)
                     then GetAttribute (L ''BaseLoc'') (element_attrs res_node) else []) in
     if base_loc \<noteq> [] \<and> hd base_loc \<noteq> 47 then base_url d @ base_loc @ L ''/''
     else if base_loc \<noteq> [] then base_loc @ L ''/''
     else base_url d)"

fun handle_resource ::
  "('font, 'cs, 'box) environment \<Rightarrow> xml_node \<Rightarrow> xml_node \<Rightarrow> ('font, 'cs, 'box) document \<Rightarrow>
   ('font, 'cs, 'box) document" where
  "handle_resource env res_node (XMLElement n as cs) d =
    (let elem = XMLElement n as cs; tagName = GetLocalTagName n in
     if tagName = L ''DrawParams'' then HandleResDrawParam env elem d
     else if tagName = L ''ColorSpaces'' then HandleResColorSpaces env elem d
     else if tagName = L ''Fonts'' then HandleFonts env elem (resource_base res_node d) d
     else if tagName = L ''MultiMedias'' then HandleMultiMedias env elem (resource_base res_node d) d
     else if tagName = L ''CompositeGraphicUnits'' then HandleResCompositeObj env elem d
     else d)"
| "handle_resource env res_node _ d = d"

definition ParseRes ::
  "('font, 'cs, 'box) environment \<Rightarrow> wstring \<Rightarrow> ('font, 'cs, 'box) document \<Rightarrow> ('font, 'cs, 'box) document" where
  "ParseRes env res_url d =
    (let (res_xml, d) = read_xml env res_url d in
     case res_xml of None \<Rightarrow> d
     | Some root \<Rightarrow> (case GetFirstChildNamed_NoPrefix (L ''Res'') (element_children root) of [] \<Rightarrow> d
         | res_node # _ \<Rightarrow> fold (handle_resource env res_node) (element_children res_node) d))"

section \<open>Common data\<close>

definition ParseArea ::
  "('font, 'cs, 'box) environment \<Rightarrow> xml_node list \<Rightarrow> ('font, 'cs, 'box) document \<Rightarrow>
   ('font, 'cs, 'box) document" where
  "ParseArea env area_node d = (case area_node of [] \<Rightarrow> d
    | area # _ \<Rightarrow> (case child_text ''PhysicalBox'' area of None \<Rightarrow> d
        | Some t \<Rightarrow> (case scan_box env t of None \<Rightarrow> d | Some b \<Rightarrow> d\<lparr>bbox := b\<rparr>)))"

text \<open>A location relative to the document; its first character is read.\<close>

definition resolve :: "wstring \<Rightarrow> wstring \<Rightarrow> ofd_error + wstring" where
  "resolve base url = (if url = [] then Inl BadIndex else Inr (if hd url = 47 then url else base @ url))"

fun common_child ::
  "('font, 'cs, 'box) environment \<Rightarrow> xml_node \<Rightarrow> ('font, 'cs, 'box) document \<Rightarrow>
   ofd_error + ('font, 'cs, 'box) document" where
  "common_child env (XMLElement n as cs) d =
    (if GetLocalTagName n = L ''PublicRes'' \<or> GetLocalTagName n = L ''DocumentRes'' then
       (case resolve (base_url d) (GetTextData cs) of Inl e \<Rightarrow> Inl e | Inr url \<Rightarrow> Inr (ParseRes env url d))
     else if GetLocalTagName n = L ''TemplatePage'' then
       (let template_id = GetInteger (GetAttribute (L ''ID'') as) in
        if 0 < template_id then
          (case resolve (base_url d) (GetAttribute (L ''BaseLoc'') as) of Inl e \<Rightarrow> Inl e
           | Inr url \<Rightarrow> Inr (d\<lparr>id2templates := map_insert template_id url (id2templates d)\<rparr>))
        else Inr d)
     else Inr d)"
| "common_child env _ d = Inr d"

fun common_children ::
  "('font, 'cs, 'box) environment \<Rightarrow> xml_node list \<Rightarrow> ('font, 'cs, 'box) document \<Rightarrow>
   ofd_error + ('font, 'cs, 'box) document" where
  "common_children env [] d = Inr d"
| "common_children env (child # cs) d =
    (case common_child env child d of Inl e \<Rightarrow> Inl e | Inr d \<Rightarrow> common_children env cs d)"

definition ParseCommonData ::
  "('font, 'cs, 'box) environment \<Rightarrow> xml_node \<Rightarrow> ('font, 'cs, 'box) document \<Rightarrow>
   ofd_error + ('font, 'cs, 'box) document" where
  "ParseCommonData env root d =
    (case GetFirstChildNamed_NoPrefix (L ''CommonData'') (element_children root) of [] \<Rightarrow> Inr d
     | common # _ \<Rightarrow>
       let d = (case child_text ''MaxUnitID'' common of None \<Rightarrow> d
                | Some t \<Rightarrow> if 0 < GetInteger t then d\<lparr>max_id := GetInteger t\<rparr> else d);
           d = ParseArea env (GetFirstChildNamed_NoPrefix (L ''PageArea'') (element_children common)) d
       in common_children env (element_children common) d)"

section \<open>Pages\<close>

definition add_page :: "xml_node \<Rightarrow> ('font, 'cs, 'box) document \<Rightarrow> ('font, 'cs, 'box) document" where
  "add_page page d =
    (let as = element_attrs page; base_loc = GetAttribute (L ''BaseLoc'') as in
     if HasAttribute (L ''ID'') as \<and> HasAttribute (L ''BaseLoc'') as \<and> base_loc \<noteq> [] then
       (let pageid = GetInteger (GetAttribute (L ''ID'') as);
            url = (if hd base_loc = 47 then base_loc else base_url d @ base_loc)
        in d\<lparr>pageno2pageid := pageno2pageid d @ [pageid],
             pageid2pageurl := map_insert pageid url (pageid2pageurl d)\<rparr>)
     else d)"

section \<open>Annotations\<close>

text \<open>The loop over the file locations of a page; an empty one is visited again without end.\<close>

partial_function (option) file_locs ::
  "int \<Rightarrow> wstring \<Rightarrow> xml_node list \<Rightarrow> (int \<times> wstring) list \<Rightarrow> (int \<times> wstring) list option" where
  "file_locs pageid annots_path file_loc m = (case file_loc of [] \<Rightarrow> Some m
    | loc # _ \<Rightarrow>
      let annot_file_loc = GetTextData (element_children loc) in
      if annot_file_loc = [] then file_locs pageid annots_path file_loc m
      else file_locs pageid annots_path (GetNextSiblingNamed_NoPrefix (L ''FileLoc'') file_loc)
        (multimap_insert pageid (if hd annot_file_loc \<noteq> 47 then annots_path @ annot_file_loc else annot_file_loc) m))"

fun annot_pages :: "wstring \<Rightarrow> xml_node list \<Rightarrow> (int \<times> wstring) list \<Rightarrow> (int \<times> wstring) list option" where
  "annot_pages annots_path [] m = Some m"
| "annot_pages annots_path (XMLElement n as cs # rest) m =
    (if GetLocalTagName n \<noteq> L ''Page'' then annot_pages annots_path rest m
     else Option.bind (file_locs (GetInteger (GetAttribute (L ''PageID'') as)) annots_path
         (GetFirstChildNamed_NoPrefix (L ''FileLoc'') cs) m) (annot_pages annots_path rest))"
| "annot_pages annots_path (_ # rest) m = annot_pages annots_path rest m"

definition annots_dir :: "wstring \<Rightarrow> wstring \<Rightarrow> wstring" where
  "annots_dir base annot_url = (case ReverseFind annot_url 47 of None \<Rightarrow> base
    | Some i \<Rightarrow> Substr annot_url 0 i @ L ''/'')"

definition ParseAnnotations ::
  "('font, 'cs, 'box) environment \<Rightarrow> xml_node \<Rightarrow> ('font, 'cs, 'box) document \<Rightarrow>
   ('font, 'cs, 'box) document option" where
  "ParseAnnotations env root d = (case child_text ''Annotations'' root of None \<Rightarrow> Some d
    | Some annot_url \<Rightarrow>
      if annot_url = [] then Some d
      else
        let annot_url = (if hd annot_url \<noteq> 47 then base_url d @ annot_url else annot_url);
            (annotations_xml, d) = read_xml env annot_url d in
        case annotations_xml of None \<Rightarrow> Some d
        | Some annot_root \<Rightarrow>
          (case GetFirstChildNamed_NoPrefix (L ''Annotations'') (element_children annot_root) of [] \<Rightarrow> Some d
           | annot_node # _ \<Rightarrow>
             map_option (\<lambda>m. d\<lparr>pageid2annoturl := m\<rparr>)
               (annot_pages (annots_dir (base_url d) annot_url) (element_children annot_node) (pageid2annoturl d))))"

section \<open>Signatures\<close>

definition signature_url :: "xml_node \<Rightarrow> ('font, 'cs, 'box) document \<Rightarrow> wstring option" where
  "signature_url elem d =
    (if HasAttribute (L ''BaseLoc'') (element_attrs elem) then
       (let url = GetAttribute (L ''BaseLoc'') (element_attrs elem) in
        if url = [] then None
        else if hd url \<noteq> 47 then
          (case ReverseFind (signature_root (docinfo d)) 47 of
             Some i \<Rightarrow> Some (Substr (signature_root (docinfo d)) 0 (i + 1) @ url)
           | None \<Rightarrow> Some (base_url d @ url))
        else Some url)
     else Some [])"

fun signature_child ::
  "('font, 'cs, 'box) environment \<Rightarrow> xml_node \<Rightarrow> ('font, 'cs, 'box) document \<Rightarrow> ('font, 'cs, 'box) document" where
  "signature_child env (XMLElement n as cs) d =
    (if GetLocalTagName n = L ''MaxSignId'' then d\<lparr>max_signature_id := string_to_id env (GetTextData cs)\<rparr>
     else if GetLocalTagName n = L ''Signature'' then
       (let d = d\<lparr>max_signature_id := max_signature_id d + 1\<rparr>;
            i = (if HasAttribute (L ''ID'') as then string_to_id env (GetAttribute (L ''ID'') as)
                 else max_signature_id d);
            t = (if HasAttribute (L ''Type'') as then GetAttribute (L ''Type'') as else L ''Seal'')
        in case signature_url (XMLElement n as cs) d of None \<Rightarrow> d
           | Some url \<Rightarrow> d\<lparr>signatures := signatures d @ [\<lparr>sig_id = i, sig_type = t, sig_url = url\<rparr>]\<rparr>)
     else d)"
| "signature_child env _ d = d"

definition ParseSignatures ::
  "('font, 'cs, 'box) environment \<Rightarrow> ('font, 'cs, 'box) document \<Rightarrow> ('font, 'cs, 'box) document" where
  "ParseSignatures env d =
    (if signature_root (docinfo d) = [] then d
     else
       let (signatures_xml, d) = read_xml env (signature_root (docinfo d)) d in
       case signatures_xml of None \<Rightarrow> d
       | Some root \<Rightarrow> (case GetFirstChildNamed_NoPrefix (L ''Signatures'') (element_children root) of [] \<Rightarrow> d
           | signatures_node # _ \<Rightarrow> fold (signature_child env) (element_children signatures_node) d))"

section \<open>The constructor\<close>

definition COFD_Document ::
  "('font, 'cs, 'box) environment \<Rightarrow> int \<Rightarrow> zip_entry \<Rightarrow> doc_info \<Rightarrow> xml_node \<Rightarrow> wstring \<Rightarrow>
   (ofd_error + ('font, 'cs, 'box) document) option" where
  "COFD_Document env stale z info root base =
    (let d = new_document env stale z info base in
     case GetFirstChildNamed_NoPrefix (L ''Document'') (element_children root) of [] \<Rightarrow> Some (Inr d)
     | document_node # _ \<Rightarrow>
       (case ParseCommonData env document_node d of Inl e \<Rightarrow> Some (Inl e)
        | Inr d \<Rightarrow>
          (case GetFirstChildNamed_NoPrefix (L ''Pages'') (element_children document_node) of [] \<Rightarrow> Some (Inr d)
           | pages # _ \<Rightarrow>
             let d = fold add_page
                       (walk_named (L ''Page'') (GetFirstChildNamed_NoPrefix (L ''Page'') (element_children pages))) d
             in map_option (\<lambda>d. Inr (ParseSignatures env d)) (ParseAnnotations env document_node d))))"

section \<open>Queries\<close>


text \<open>The guard lets the number of pages itself through.\<close>

definition PageUrl :: "nat \<Rightarrow> ('font, 'cs, 'box) document \<Rightarrow> ofd_error + wstring" where
  "PageUrl index d =
    (if length (pageno2pageid d) < index then Inr []
     else if index = length (pageno2pageid d) then Inl BadIndex
     else Inr (case pageid2pageurl d (pageno2pageid d ! index) of None \<Rightarrow> [] | Some url \<Rightarrow> url))"


definition CountPageAnnot :: "int \<Rightarrow> ('font, 'cs, 'box) document \<Rightarrow> nat" where
  "CountPageAnnot pageid d = length (filter (\<lambda>(k, v). k = pageid) (pageid2annoturl d))"

definition QueryPagesAnnot :: "int \<Rightarrow> nat \<Rightarrow> ('font, 'cs, 'box) document \<Rightarrow> ofd_error + wstring" where
  "QueryPagesAnnot pageid idx d =
    (if CountPageAnnot pageid d = 0 then Inr []
     else
       let here = drop idx (dropWhile (\<lambda>(k, v). k \<noteq> pageid) (pageid2annoturl d)) in
       if here = [] then Inl BadIndex else Inr (snd (hd here)))"

definition TemplateUrl :: "int \<Rightarrow> ('font, 'cs, 'box) document \<Rightarrow> wstring" where
  "TemplateUrl i d = (case id2templates d i of None \<Rightarrow> [] | Some url \<Rightarrow> url)"

definition FindDrawParam :: "int \<Rightarrow> ('font, 'cs, 'box) document \<Rightarrow> xml_node option" where
  "FindDrawParam i d = drawparams d i"

definition FindCompositeObject :: "int \<Rightarrow> ('font, 'cs, 'box) document \<Rightarrow> xml_node option" where
  "FindCompositeObject i d = compositeobj d i"

definition FindColorSpace :: "('font, 'cs, 'box) environment \<Rightarrow> int \<Rightarrow> ('font, 'cs, 'box) document \<Rightarrow> 'cs" where
  "FindColorSpace env i d = (case colorspaces d i of None \<Rightarrow> default_color_space env | Some cs \<Rightarrow> cs)"

definition FindMedia :: "int \<Rightarrow> ('font, 'cs, 'box) document \<Rightarrow> multi_media option" where
  "FindMedia i d = multi_medias d i"

text \<open>A font that is not found is replaced by the default font, which is loaded once.\<close>

definition FindFont ::
  "('font, 'cs, 'box) environment \<Rightarrow> int \<Rightarrow> ('font, 'cs, 'box) document \<Rightarrow>
   'font option \<times> ('font, 'cs, 'box) document" where
  "FindFont env i d =
    (case fonts d i of Some font \<Rightarrow> (Some font, d)
     | None \<Rightarrow> (case fonts d kDefaultFontID of Some font \<Rightarrow> (Some font, d)
         | None \<Rightarrow> (case font_by_name env (Some (L ''SimSun'')) of None \<Rightarrow> (None, d)
             | Some font \<Rightarrow> (Some font, d\<lparr>fonts := map_insert kDefaultFontID font (fonts d)\<rparr>))))"


section \<open>Opening a document of a package\<close>

definition OpenDocument ::
  "('font, 'cs, 'box) environment \<Rightarrow> int \<Rightarrow> nat \<Rightarrow> package \<Rightarrow>
   (ofd_error + ('font, 'cs, 'box) document option \<times> package) option" where
  "OpenDocument env stale index pkg =
    (case ofd_infos pkg of None \<Rightarrow> Some (Inr (None, pkg))
     | Some infos \<Rightarrow>
       if infos = [] then Some (Inr (None, pkg))
       else (case GetDocInfo index infos of None \<Rightarrow> Some (Inr (None, pkg))
         | Some info \<Rightarrow>
           let (document_xml, z) = ReadAndCacheXml (env_platform env) (FX_UTF8Encode (doc_root info)) (pkg_zip pkg) in
           case document_xml of None \<Rightarrow> Some (Inr (None, pkg\<lparr>pkg_zip := z\<rparr>))
           | Some root \<Rightarrow>
             (case COFD_Document env stale z info root
                     (document_base_url (plat_towupper (env_platform env)) (doc_root info)) of
                None \<Rightarrow> None
              | Some (Inl e) \<Rightarrow> Some (Inl e)
              | Some (Inr d) \<Rightarrow> Some (Inr (Some d, pkg\<lparr>pkg_zip := doc_zip d\<rparr>)))))"

section \<open>What each reader leaves alone\<close>

lemma fold_keeps: "(\<And>x d. f (g x d) = f d) \<Longrightarrow> f (fold g xs d) = f d"
  by (induction xs arbitrary: d) simp_all

text \<open>The part of a document the readers of common data do not touch.\<close>

definition page_part where
  "page_part d = (docinfo d, base_url d, pageno2pageid d, pageid2pageurl d, pageid2annoturl d, signatures d)"

lemma page_part_update [simp]:
  "page_part (d\<lparr>doc_zip := x\<rparr>) = page_part d"
  "page_part (d\<lparr>drawparams := y\<rparr>) = page_part d"
  "page_part (d\<lparr>compositeobj := z\<rparr>) = page_part d"
  "page_part (d\<lparr>colorspaces := u\<rparr>) = page_part d"
  "page_part (d\<lparr>fonts := v\<rparr>) = page_part d"
  "page_part (d\<lparr>multi_medias := w\<rparr>) = page_part d"
  "page_part (d\<lparr>id2templates := r\<rparr>) = page_part d"
  "page_part (d\<lparr>max_id := s\<rparr>) = page_part d"
  "page_part (d\<lparr>bbox := t\<rparr>) = page_part d"
  by (simp_all add: page_part_def)

lemma page_part_handlers [simp]:
  "page_part (HandleResDrawParam env elem d) = page_part d"
  "page_part (HandleResCompositeObj env elem d) = page_part d"
  "page_part (HandleResColorSpaces env elem d) = page_part d"
  "page_part (HandleFonts env elem base d) = page_part d"
  "page_part (HandleMultiMedias env elem base d) = page_part d"
  unfolding HandleResDrawParam_def HandleResCompositeObj_def HandleResColorSpaces_def HandleFonts_def
    HandleMultiMedias_def
  by (rule fold_keeps; simp add: Let_def split: option.split)+

lemma page_part_handle_resource [simp]: "page_part (handle_resource env res_node elem d) = page_part d"
  by (cases elem) (simp_all add: Let_def)

lemma page_part_read_xml [simp]: "page_part (snd (read_xml env url d)) = page_part d"
  by (simp add: read_xml_def split_def Let_def)

lemma page_part_ParseRes [simp]: "page_part (ParseRes env url d) = page_part d"
  by (simp add: ParseRes_def split_def Let_def fold_keeps [of page_part, OF page_part_handle_resource]
      split: option.split list.split)

lemma page_part_ParseArea [simp]: "page_part (ParseArea env area d) = page_part d"
  by (auto simp: ParseArea_def split: option.split list.split)

lemma page_part_common_child: "common_child env child d = Inr d' \<Longrightarrow> page_part d' = page_part d"
  by (cases child) (auto simp: Let_def split: if_splits sum.splits)

lemma page_part_common_children: "common_children env cs d = Inr d' \<Longrightarrow> page_part d' = page_part d"
  by (induction cs arbitrary: d) (auto split: sum.splits dest!: page_part_common_child)

lemma page_part_ParseCommonData: "ParseCommonData env root d = Inr d' \<Longrightarrow> page_part d' = page_part d"
  by (auto simp: ParseCommonData_def Let_def dest!: page_part_common_children split: list.splits option.splits if_splits)

text \<open>The pages are not changed by the readers that follow them.\<close>

definition page_table where
  "page_table d = (base_url d, pageno2pageid d, pageid2pageurl d)"

lemma page_part_table: "page_part d = page_part d' \<Longrightarrow> page_table d = page_table d'"
  by (simp add: page_part_def page_table_def)

lemma page_table_read_xml [simp]: "page_table (snd (read_xml env url d)) = page_table d"
  by (rule page_part_table) simp

lemma page_table_ParseAnnotations: "ParseAnnotations env root d = Some d' \<Longrightarrow> page_table d' = page_table d"
  using page_table_read_xml [of env _ d]
  by (auto simp: ParseAnnotations_def Let_def split_def page_table_def split: option.splits list.splits if_splits)

lemma page_table_signature_child [simp]: "page_table (signature_child env child d) = page_table d"
  by (cases child) (auto simp: Let_def page_table_def split: option.split)

lemma page_table_ParseSignatures [simp]: "page_table (ParseSignatures env d) = page_table d"
  by (simp add: ParseSignatures_def split_def Let_def fold_keeps [of page_table, OF page_table_signature_child]
      split: option.split list.split)

section \<open>The table of pages\<close>

definition valid_page :: "xml_node \<Rightarrow> bool" where
  "valid_page page \<longleftrightarrow> HasAttribute (L ''ID'') (element_attrs page) \<and>
    HasAttribute (L ''BaseLoc'') (element_attrs page) \<and> GetAttribute (L ''BaseLoc'') (element_attrs page) \<noteq> []"

definition page_id :: "xml_node \<Rightarrow> int" where
  "page_id page = GetInteger (GetAttribute (L ''ID'') (element_attrs page))"

definition page_location :: "wstring \<Rightarrow> xml_node \<Rightarrow> wstring" where
  "page_location base page =
    (let loc = GetAttribute (L ''BaseLoc'') (element_attrs page) in if hd loc = 47 then loc else base @ loc)"

lemma add_page_table:
  "base_url (add_page page d) = base_url d"
  "pageno2pageid (add_page page d) = pageno2pageid d @ (if valid_page page then [page_id page] else [])"
  "pageid2pageurl (add_page page d) =
    (if valid_page page then map_insert (page_id page) (page_location (base_url d) page) (pageid2pageurl d)
     else pageid2pageurl d)"
  by (simp_all add: add_page_def valid_page_def page_id_def page_location_def Let_def)

lemma fold_add_page:
  "base_url (fold add_page ps d) = base_url d"
  "pageno2pageid (fold add_page ps d) = pageno2pageid d @ map page_id (filter valid_page ps)"
  "pageid2pageurl (fold add_page ps d) k = (case pageid2pageurl d k of Some url \<Rightarrow> Some url
    | None \<Rightarrow> map_of (map (\<lambda>p. (page_id p, page_location (base_url d) p)) (filter valid_page ps)) k)"
proof (induction ps arbitrary: d)
  case (Cons p ps)
  { case 1 show ?case by (simp add: Cons.IH add_page_table) }
  { case 2 show ?case by (simp add: Cons.IH add_page_table) }
  { case 3 show ?case by (auto simp: Cons.IH add_page_table map_insert_def split: option.split) }
qed (simp_all split: option.split)

section \<open>The table of annotations\<close>

lemma sorted_multimap_insert: "sorted (map fst m) \<Longrightarrow> sorted (map fst (multimap_insert k v m))"
proof (induction k v m rule: multimap_insert.induct)
  case (2 k v k' v' m)
  have "fst ` set (multimap_insert k v m) = insert k (fst ` set m)"
    by (induction k v m rule: multimap_insert.induct) auto
  then show ?case using 2 by (auto simp: image_iff)
qed simp

lemma filter_multimap_insert:
  "sorted (map fst m) \<Longrightarrow> filter (\<lambda>(k, v). k = p) (multimap_insert k v m) =
    filter (\<lambda>(k, v). k = p) m @ (if k = p then [(k, v)] else [])"
proof (induction k v m rule: multimap_insert.induct)
  case (2 k v k' v' m)
  show ?case
  proof (cases "k < k'")
    case True
    then have "filter (\<lambda>(j, v). j = k) ((k', v') # m) = []" using "2.prems" by (fastforce simp: filter_empty_conv)
    then show ?thesis using True by auto
  qed (use 2 in auto)
qed simp

abbreviation put_annots :: "(int \<times> 'v) list \<Rightarrow> (int \<times> 'v) list \<Rightarrow> (int \<times> 'v) list" where
  "put_annots kvs m \<equiv> fold (\<lambda>(k, v). multimap_insert k v) kvs m"

lemma put_annots_sorted: "sorted (map fst m) \<Longrightarrow> sorted (map fst (put_annots kvs m))"
  by (induction kvs arbitrary: m) (auto simp: sorted_multimap_insert)

lemma put_annots_filter:
  "sorted (map fst m) \<Longrightarrow>
   filter (\<lambda>(k, v). k = p) (put_annots kvs m) = filter (\<lambda>(k, v). k = p) m @ filter (\<lambda>(k, v). k = p) kvs"
  by (induction kvs arbitrary: m) (auto simp: sorted_multimap_insert filter_multimap_insert)

text \<open>In key order the entries of a page are consecutive.\<close>

lemma sorted_dropWhile:
  assumes "sorted (map fst m)"
  shows "\<exists>rest. dropWhile (\<lambda>(k, v). k \<noteq> p) m = filter (\<lambda>(k, v). k = (p :: int)) m @ rest"
  using assms
proof (induction m)
  case (Cons e m)
  obtain k v where e: "e = (k, v)" by fastforce
  show ?case
  proof (cases "k = p")
    case True
    have "\<exists>rest. m = filter (\<lambda>(k, v). k = p) m @ rest" if "sorted (map fst m)" "\<forall>x\<in>fst ` set m. p \<le> x" for m :: "(int \<times> 'a) list"
      using that
    proof (induction m)
      case (Cons f m)
      show ?case
      proof (cases "fst f = p")
        case False
        then have "\<forall>x\<in>fst ` set (f # m). x \<noteq> p" using Cons.prems by force
        then have "filter (\<lambda>(k, v). k = p) (f # m) = []" by (auto simp: filter_empty_conv)
        then show ?thesis by simp
      qed (use Cons in \<open>auto simp: split_def\<close>)
    qed simp
    from this [of m] show ?thesis using Cons.prems True by (auto simp: e)
  qed (use Cons in \<open>auto simp: e\<close>)
qed simp

lemma file_locs_hangs:
  assumes "GetTextData (element_children loc) = []"
  shows "file_locs pid path (loc # rest) m = None"
proof -
  have "here \<noteq> loc # rest" if "file_locs p a here mm = Some r" for p a here mm r
    using that by (rule file_locs.raw_induct [where P = "\<lambda>p a here mm r. here \<noteq> loc # rest", rotated])
      (use assms in \<open>fastforce simp: Let_def\<close>)
  then show ?thesis by (metis not_None_eq)
qed

definition annot_location :: "wstring \<Rightarrow> xml_node \<Rightarrow> wstring" where
  "annot_location path loc =
    (let t = GetTextData (element_children loc) in if hd t \<noteq> 47 then path @ t else t)"

definition has_text :: "xml_node \<Rightarrow> bool" where
  "has_text loc \<longleftrightarrow> GetTextData (element_children loc) \<noteq> []"

lemma file_locs_outcome:
  "file_locs pid path (find_sibling_NoPrefix (L ''FileLoc'') cs) m =
    (let locs = filter (named_NoPrefix (L ''FileLoc'')) cs in
     if list_all has_text locs then Some (put_annots (map (\<lambda>loc. (pid, annot_location path loc)) locs) m) else None)"
proof (induction "length cs" arbitrary: cs m rule: less_induct)
  case less
  show ?case
  proof (rule find_sibling_Cons_cases [of "L ''FileLoc''" cs])
    fix c rest
    assume *: "find_sibling_NoPrefix (L ''FileLoc'') cs = c # rest"
      "filter (named_NoPrefix (L ''FileLoc'')) cs = c # filter (named_NoPrefix (L ''FileLoc'')) rest"
      "length rest < length cs"
    show ?thesis
    proof (cases "has_text c")
      case False
      then show ?thesis using * by (simp add: file_locs_hangs has_text_def)
    next
      case True
      then show ?thesis using * less [OF *(3)]
        by (subst file_locs.simps)
          (simp add: has_text_def GetNextSiblingNamed_NoPrefix_def annot_location_def Let_def)
    qed
  qed (simp add: file_locs.simps)
qed

text \<open>The entries of an annotation document, in document order.\<close>

definition page_locs :: "xml_node \<Rightarrow> xml_node list" where
  "page_locs page = filter (named_NoPrefix (L ''FileLoc'')) (element_children page)"

definition page_annots :: "wstring \<Rightarrow> xml_node \<Rightarrow> (int \<times> wstring) list" where
  "page_annots path page =
    map (\<lambda>loc. (GetInteger (GetAttribute (L ''PageID'') (element_attrs page)), annot_location path loc)) (page_locs page)"

definition annot_entries :: "wstring \<Rightarrow> xml_node list \<Rightarrow> (int \<times> wstring) list" where
  "annot_entries path cs = concat (map (page_annots path) (filter (named_NoPrefix (L ''Page'')) cs))"

definition locations_ok :: "xml_node list \<Rightarrow> bool" where
  "locations_ok cs \<longleftrightarrow> list_all (\<lambda>page. list_all has_text (page_locs page)) (filter (named_NoPrefix (L ''Page'')) cs)"

lemma annot_pages_outcome:
  "annot_pages path cs m = (if locations_ok cs then Some (put_annots (annot_entries path cs) m) else None)"
proof (induction path cs m rule: annot_pages.induct)
  case (2 path n as cs rest m)
  have "file_locs pid path (GetFirstChildNamed_NoPrefix (L ''FileLoc'') cs) m =
    (if list_all has_text (filter (named_NoPrefix (L ''FileLoc'')) cs)
     then Some (put_annots (map (\<lambda>loc. (pid, annot_location path loc)) (filter (named_NoPrefix (L ''FileLoc'')) cs)) m)
     else None)" for pid
    using file_locs_outcome [of pid path cs m]
    by (simp add: GetFirstChildNamed_NoPrefix_def GetNthChildNamed_NoPrefix_0 Let_def)
  then show ?case using 2
    by (auto simp: locations_ok_def annot_entries_def page_annots_def page_locs_def)
qed (auto simp: locations_ok_def annot_entries_def)

text \<open>The annotation document of a package and the directory its file locations are relative to.\<close>

definition annotation_source :: "platform \<Rightarrow> archive option \<Rightarrow> wstring \<Rightarrow> xml_node \<Rightarrow> (wstring \<times> xml_node) option" where
  "annotation_source plat arc base root = (case child_text ''Annotations'' root of None \<Rightarrow> None
    | Some t \<Rightarrow>
      if t = [] then None
      else
        let url = (if hd t \<noteq> 47 then base @ t else t) in
        Option.bind (read_entry plat arc (FX_UTF8Encode url)) (\<lambda>xml.
        map_option (Pair (annots_dir base url)) (first_child ''Annotations'' xml)))"

abbreviation annotation_document ::
  "('font, 'cs, 'box) environment \<Rightarrow> xml_node \<Rightarrow> ('font, 'cs, 'box) document \<Rightarrow> (wstring \<times> xml_node) option" where
  "annotation_document env root d \<equiv>
    annotation_source (env_platform env) (zip_handler (doc_zip d)) (base_url d) root"

lemma read_xml_result:
  assumes "cache_ok (env_platform env) (doc_zip d)"
  shows "fst (read_xml env url d) = read_entry (env_platform env) (zip_handler (doc_zip d)) (FX_UTF8Encode url)"
    and "base_url (snd (read_xml env url d)) = base_url d"
    and "pageid2annoturl (snd (read_xml env url d)) = pageid2annoturl d"
  using zip_reader.read_result [OF assms] by (simp_all add: read_xml_def split_def Let_def)

lemma ParseAnnotations_outcome:
  assumes "cache_ok (env_platform env) (doc_zip d)" and "annotation_document env root d = Some (path, node)"
  shows "map_option pageid2annoturl (ParseAnnotations env root d) =
    (if locations_ok (element_children node)
     then Some (put_annots (annot_entries path (element_children node)) (pageid2annoturl d)) else None)"
proof -
  obtain t where t: "child_text ''Annotations'' root = Some t" "t \<noteq> []"
    using assms(2) by (auto simp: annotation_source_def split: option.splits if_splits)
  define url where "url = (if hd t \<noteq> 47 then base_url d @ t else t)"
  obtain xml where xml: "read_entry (env_platform env) (zip_handler (doc_zip d)) (FX_UTF8Encode url) = Some xml"
      "first_child ''Annotations'' xml = Some node" "path = annots_dir (base_url d) url"
    using assms(2) t by (auto simp: annotation_source_def Let_def url_def bind_eq_Some_conv)
  then obtain rest where "GetFirstChildNamed_NoPrefix (L ''Annotations'') (element_children xml) = node # rest"
    using GetFirstChild_first_child [of "''Annotations''" xml] by (metis list.exhaust option.distinct(1) option.inject)
  then have "ParseAnnotations env root d =
      map_option (\<lambda>m. (snd (read_xml env url d))\<lparr>pageid2annoturl := m\<rparr>)
        (annot_pages path (element_children node) (pageid2annoturl d))"
    using t xml read_xml_result [OF assms(1), of url]
    by (simp add: ParseAnnotations_def Let_def split_def flip: url_def)
  then show ?thesis by (simp add: annot_pages_outcome)
qed

lemma first_child_Some:
  "first_child name node = Some c \<longleftrightarrow>
    (\<exists>cs. GetFirstChildNamed_NoPrefix (L name) (element_children node) = c # cs)"
  using GetFirstChild_first_child [of name node]
  by (cases "GetFirstChildNamed_NoPrefix (L name) (element_children node)") auto

section \<open>When the constructor returns\<close>

text \<open>The readers of resources do not touch the archive; reading an entry only fills its cache.\<close>

lemma doc_zip_handlers [simp]:
  "doc_zip (HandleResDrawParam env elem d) = doc_zip d"
  "doc_zip (HandleResCompositeObj env elem d) = doc_zip d"
  "doc_zip (HandleResColorSpaces env elem d) = doc_zip d"
  "doc_zip (HandleFonts env elem base d) = doc_zip d"
  "doc_zip (HandleMultiMedias env elem base d) = doc_zip d"
  unfolding HandleResDrawParam_def HandleResCompositeObj_def HandleResColorSpaces_def HandleFonts_def
    HandleMultiMedias_def
  by (rule fold_keeps; simp add: Let_def split: option.split)+

lemma doc_zip_handle_resource [simp]: "doc_zip (handle_resource env res_node elem d) = doc_zip d"
  by (cases elem) (simp_all add: Let_def)

definition archive_ok :: "('font, 'cs, 'box) environment \<Rightarrow> archive option \<Rightarrow> ('font, 'cs, 'box) document \<Rightarrow> bool" where
  "archive_ok env arc d \<longleftrightarrow> cache_ok (env_platform env) (doc_zip d) \<and> zip_handler (doc_zip d) = arc"

lemma archive_ok_cong: "doc_zip d = doc_zip d' \<Longrightarrow> archive_ok env arc d = archive_ok env arc d'"
  by (simp add: archive_ok_def)

lemma archive_ok_read_xml: "archive_ok env arc d \<Longrightarrow> archive_ok env arc (snd (read_xml env url d))"
  using zip_reader.read_ok [of "env_platform env" "doc_zip d"] zip_reader.read_src [of "env_platform env" "doc_zip d"]
  by (simp add: archive_ok_def read_xml_def split_def Let_def)

lemma archive_ok_ParseRes:
  assumes "archive_ok env arc d"
  shows "archive_ok env arc (ParseRes env url d)"
proof -
  have "doc_zip (ParseRes env url d) = doc_zip (snd (read_xml env url d))"
    by (simp add: ParseRes_def split_def Let_def fold_keeps [of doc_zip, OF doc_zip_handle_resource]
        split: option.split list.split)
  then show ?thesis using archive_ok_read_xml [OF assms] archive_ok_cong by metis
qed

lemma archive_ok_update [simp]:
  "archive_ok env arc (d\<lparr>id2templates := x\<rparr>) = archive_ok env arc d"
  "archive_ok env arc (d\<lparr>max_id := n\<rparr>) = archive_ok env arc d"
  "archive_ok env arc (d\<lparr>bbox := b\<rparr>) = archive_ok env arc d"
  by (simp_all add: archive_ok_def)

lemma archive_ok_common_child:
  "archive_ok env arc d \<Longrightarrow> common_child env child d = Inr d' \<Longrightarrow> archive_ok env arc d'"
  by (cases child) (auto simp: Let_def archive_ok_ParseRes split: if_splits sum.splits)

lemma archive_ok_common_children:
  "archive_ok env arc d \<Longrightarrow> common_children env cs d = Inr d' \<Longrightarrow> archive_ok env arc d'"
  by (induction cs arbitrary: d) (auto split: sum.splits dest: archive_ok_common_child)

lemma archive_ok_ParseCommonData:
  assumes "archive_ok env arc d" and "ParseCommonData env root d = Inr d'"
  shows "archive_ok env arc d'"
proof -
  have "archive_ok env arc (ParseArea env area e) = archive_ok env arc e" for area e
    by (simp add: ParseArea_def split: option.split list.split)
  then show ?thesis using assms
    by (auto simp: ParseCommonData_def Let_def dest!: archive_ok_common_children [rotated]
        split: list.splits option.splits if_splits)
qed

text \<open>Common data the reader can process: every resource and every template names its file.\<close>

fun common_ok :: "xml_node \<Rightarrow> bool" where
  "common_ok (XMLElement n as cs) \<longleftrightarrow>
    (GetLocalTagName n = L ''PublicRes'' \<or> GetLocalTagName n = L ''DocumentRes'' \<longrightarrow> GetTextData cs \<noteq> []) \<and>
    (GetLocalTagName n = L ''TemplatePage'' \<and> 0 < GetInteger (GetAttribute (L ''ID'') as) \<longrightarrow>
      GetAttribute (L ''BaseLoc'') as \<noteq> [])"
| "common_ok _ \<longleftrightarrow> True"

lemma common_child_ok: "common_ok child \<Longrightarrow> \<exists>d'. common_child env child d = Inr d'"
  by (cases child) (auto simp: Let_def resolve_def split: sum.splits)

lemma common_children_ok: "list_all common_ok cs \<Longrightarrow> \<exists>d'. common_children env cs d = Inr d'"
proof (induction cs arbitrary: d)
  case (Cons c cs)
  then show ?case using common_child_ok [of c env d] by (auto split: sum.splits)
qed simp

lemma ParseCommonData_ok:
  "(\<forall>common. first_child ''CommonData'' root = Some common \<longrightarrow> list_all common_ok (element_children common)) \<Longrightarrow>
   \<exists>d'. ParseCommonData env root d = Inr d'"
  using common_children_ok by (auto simp: ParseCommonData_def first_child_Some Let_def split: list.split)

lemma ParseAnnotations_None:
  assumes "cache_ok (env_platform env) (doc_zip d)" and "annotation_document env root d = None"
  shows "ParseAnnotations env root d \<noteq> None"
  using assms(2) read_xml_result [OF assms(1)] GetFirstChild_first_child [of "''Annotations''"]
  by (auto simp: ParseAnnotations_def annotation_source_def Let_def split_def bind_eq_None_conv split: option.splits list.splits)

lemma COFD_Document_returns:
  assumes "first_child ''Document'' root = Some document_node" and "cache_ok (env_platform env) z"
    and "\<forall>common. first_child ''CommonData'' document_node = Some common \<longrightarrow>
      list_all common_ok (element_children common)"
    and "\<forall>path node. annotation_source (env_platform env) (zip_handler z) base document_node = Some (path, node) \<longrightarrow>
      locations_ok (element_children node)"
  shows "\<exists>d. COFD_Document env stale z info root base = Some (Inr d)"
proof -
  let ?d0 = "new_document env stale z info base"
  obtain d1 where d1: "ParseCommonData env document_node ?d0 = Inr d1" using ParseCommonData_ok [OF assms(3)] by blast
  have "archive_ok env (zip_handler z) ?d0" using assms(2) by (simp add: archive_ok_def new_document_def)
  then have d1z: "archive_ok env (zip_handler z) d1" using d1 by (rule archive_ok_ParseCommonData)
  have d1b: "base_url d1 = base"
    using page_part_ParseCommonData [OF d1] by (simp add: page_part_def new_document_def)
  have "ParseAnnotations env document_node (fold add_page ps d1) \<noteq> None" for ps
  proof -
    have "doc_zip (fold add_page ps d1) = doc_zip d1"
      by (rule fold_keeps) (simp add: add_page_def Let_def)
    then have *: "cache_ok (env_platform env) (doc_zip (fold add_page ps d1))"
        "annotation_document env document_node (fold add_page ps d1) =
          annotation_source (env_platform env) (zip_handler z) base document_node"
      using d1z by (simp_all add: archive_ok_def fold_add_page d1b)
    show ?thesis
    proof (cases "annotation_source (env_platform env) (zip_handler z) base document_node")
      case None
      then show ?thesis using ParseAnnotations_None * by metis
    next
      case (Some pn)
      then obtain path node where pn: "annotation_source (env_platform env) (zip_handler z) base document_node = Some (path, node)"
        by (cases pn) auto
      then have "locations_ok (element_children node)" using assms(4) by blast
      then show ?thesis using ParseAnnotations_outcome [OF *(1), of document_node path node] *(2) pn by auto
    qed
  qed
  then show ?thesis using assms(1) d1 by (auto simp: COFD_Document_def first_child_Some Let_def split: list.split)
qed

lemma COFD_Document_pages:
  assumes "COFD_Document env stale z info root base = Some (Inr d)"
    and "first_child ''Document'' root = Some document_node" and "first_child ''Pages'' document_node = Some pages"
    and "ps = filter valid_page (filter (named_NoPrefix (L ''Page'')) (element_children pages))"
  shows "pageno2pageid d = map page_id ps \<and>
    (\<forall>i<length ps. PageUrl i d = Inr (page_location base (hd (filter (\<lambda>p. page_id p = page_id (ps ! i)) ps))))"
proof -
  obtain dn where dn: "GetFirstChildNamed_NoPrefix (L ''Document'') (element_children root) = document_node # dn"
    using assms(2) GetFirstChild_first_child [of "''Document''" root] by (metis list.exhaust option.distinct(1) option.inject)
  obtain pn where pn: "GetFirstChildNamed_NoPrefix (L ''Pages'') (element_children document_node) = pages # pn"
    using assms(3) GetFirstChild_first_child [of "''Pages''" document_node] by (metis list.exhaust option.distinct(1) option.inject)
  let ?walk = "walk_named (L ''Page'') (GetFirstChildNamed_NoPrefix (L ''Page'') (element_children pages))"
  obtain d1 d2 where d1: "ParseCommonData env document_node (new_document env stale z info base) = Inr d1"
      "ParseAnnotations env document_node (fold add_page ?walk d1) = Some d2" "d = ParseSignatures env d2"
    using assms(1) by (auto simp: COFD_Document_def Let_def dn pn split: sum.splits)
  have walk: "?walk = filter (named_NoPrefix (L ''Page'')) (element_children pages)"
    by (simp add: GetFirstChildNamed_NoPrefix_def GetNthChildNamed_NoPrefix_0 walk_find_sibling)
  have "page_table d = page_table (fold add_page ?walk d1)"
    using d1 page_table_ParseAnnotations by auto
  moreover have "page_part d1 = page_part (new_document env stale z info base)"
    using d1(1) by (rule page_part_ParseCommonData)
  ultimately have ids: "pageno2pageid d = map page_id ps"
    and urls: "pageid2pageurl d k = map_of (map (\<lambda>p. (page_id p, page_location base p)) ps) k" for k
    by (auto simp: page_table_def page_part_def new_document_def fold_add_page walk assms(4))
  have first: "map_of (map (\<lambda>p. (page_id p, page_location base p)) xs) k =
      (case filter (\<lambda>p. page_id p = k) xs of [] \<Rightarrow> None | p # _ \<Rightarrow> Some (page_location base p))" for xs k
    by (induction xs) auto
  have "filter (\<lambda>p. page_id p = page_id (ps ! i)) ps \<noteq> []" if "i < length ps" for i
    using that by (auto simp: filter_empty_conv)
  then show ?thesis by (auto simp: ids urls first PageUrl_def split: list.split)
qed

section \<open>Properties\<close>

text \<open>
  the constructor lists the pages of a document in order: one number per page element that has an
  identifier and a location, and the location of a page is that of the first page with its identifier,
  relative to the base of the document unless it is absolute.
\<close>

theorem document_pages:
  assumes "COFD_Document env stale z info root base = Some (Inr d)"
    and "first_child ''Document'' root = Some document_node" and "first_child ''Pages'' document_node = Some pages"
    and "ps = filter valid_page (filter (named_NoPrefix (L ''Page'')) (element_children pages))"
  shows "pageno2pageid d = map page_id ps \<and>
    (\<forall>i<length ps. PageUrl i d = Inr (page_location base (hd (filter (\<lambda>p. page_id p = page_id (ps ! i)) ps))))"
  using assms by (rule COFD_Document_pages)

definition sample_env :: "(unit, unit, unit) environment" where
  "sample_env = \<lparr>env_platform = \<lparr>plat_iswspace = (\<lambda>c. c = 32), plat_towlower = (\<lambda>c. c),
      plat_towupper = (\<lambda>c. if 97 \<le> c \<and> c \<le> 122 then c - 32 else c), plat_acp = kOtherCodePage\<rparr>,
    string_to_id = GetInteger, scan_box = (\<lambda>_. None), default_box = (), font_from_file = (\<lambda>_. None),
    font_by_name = (\<lambda>_. None), color_space_by_name = (\<lambda>_. None), default_color_space = ()\<rparr>"

definition sample_page :: "string \<Rightarrow> string \<Rightarrow> xml_node" where
  "sample_page i loc = XMLElement (L ''ofd:Page'') [(L ''BaseLoc'', L loc), (L ''ID'', L i)] []"

definition sample_document :: xml_node where
  "sample_document = XMLElement (L ''root'') [] [XMLElement (L ''ofd:Document'') []
    [XMLElement (L ''ofd:Pages'') [] [sample_page ''4'' ''Pages/P0.xml'', XMLText [10], sample_page ''9'' ''/P1.xml'',
       sample_page ''4'' ''P2.xml'']]]"

theorem document_pages_witness:
  "\<exists>d. COFD_Document sample_env 0 new_zip_entry new_doc_info sample_document (L ''Doc_0/'') = Some (Inr d) \<and>
     pageno2pageid d = [4, 9, 4] \<and> PageUrl 1 d = Inr (L ''/P1.xml'') \<and> PageUrl 2 d = Inr (L ''Doc_0/Pages/P0.xml'')"
proof -
  let ?ps = "[sample_page ''4'' ''Pages/P0.xml'', sample_page ''9'' ''/P1.xml'', sample_page ''4'' ''P2.xml'']"
  let ?pages = "XMLElement (L ''ofd:Pages'') [] [sample_page ''4'' ''Pages/P0.xml'', XMLText [10],
    sample_page ''9'' ''/P1.xml'', sample_page ''4'' ''P2.xml'']"
  let ?doc = "XMLElement (L ''ofd:Document'') [] [?pages]"
  have doc: "first_child ''Document'' sample_document = Some ?doc" "first_child ''Pages'' ?doc = Some ?pages" by code_simp+
  have ps: "?ps = filter valid_page (filter (named_NoPrefix (L ''Page'')) (element_children ?pages))" by code_simp
  have "\<exists>d. COFD_Document sample_env 0 new_zip_entry new_doc_info sample_document (L ''Doc_0/'') = Some (Inr d)"
  proof -
    have "GetFirstChildNamed_NoPrefix (L ''Document'') (element_children sample_document) = [?doc]"
      "GetFirstChildNamed_NoPrefix (L ''CommonData'') (element_children ?doc) = []"
      "GetFirstChildNamed_NoPrefix (L ''Pages'') (element_children ?doc) = [?pages]"
      "child_text ''Annotations'' ?doc = None"
      by code_simp+
    then show ?thesis by (simp add: COFD_Document_def ParseCommonData_def ParseAnnotations_def Let_def)
  qed
  then obtain d where d: "COFD_Document sample_env 0 new_zip_entry new_doc_info sample_document (L ''Doc_0/'') = Some (Inr d)"
    by blast
  have ids: "map page_id ?ps = [4, 9, 4]" by code_simp
  have urls: "page_location (L ''Doc_0/'') (hd (filter (\<lambda>p. page_id p = page_id (?ps ! 1)) ?ps)) = L ''/P1.xml''"
    "page_location (L ''Doc_0/'') (hd (filter (\<lambda>p. page_id p = page_id (?ps ! 2)) ?ps)) = L ''Doc_0/Pages/P0.xml''"
    by code_simp+
  have "pageno2pageid d = map page_id ?ps" and "\<forall>i<length ?ps. PageUrl i d =
      Inr (page_location (L ''Doc_0/'') (hd (filter (\<lambda>p. page_id p = page_id (?ps ! i)) ?ps)))"
    using document_pages [OF d doc ps] by blast+
  then show ?thesis using d urls ids by (intro exI [of _ d]) (simp del: nth_Cons_numeral)
qed

text \<open>
  C10: annotations are grouped by page.  The table read from the annotation document gives for each page
  the number of its files and, for every index below it, the file at that position in document order;
  the reader returns exactly when no file location is empty, and runs for ever otherwise.
\<close>

theorem annotations_by_page:
  assumes "cache_ok (env_platform env) (doc_zip d)" and "annotation_document env root d = Some (path, node)"
    and "pageid2annoturl d = []"
    and "files = map snd (filter (\<lambda>(k, v). k = p) (annot_entries path (element_children node)))"
  shows "case ParseAnnotations env root d of
      None \<Rightarrow> \<not> locations_ok (element_children node)
    | Some d' \<Rightarrow> locations_ok (element_children node) \<and> CountPageAnnot p d' = length files \<and>
        (\<forall>idx<length files. QueryPagesAnnot p idx d' = Inr (files ! idx))"
proof (cases "ParseAnnotations env root d")
  case None
  then show ?thesis using ParseAnnotations_outcome [OF assms(1,2)] by (auto split: if_splits)
next
  case (Some d')
  then have m: "locations_ok (element_children node)"
      "pageid2annoturl d' = put_annots (annot_entries path (element_children node)) []"
    using ParseAnnotations_outcome [OF assms(1,2)] assms(3) by (auto split: if_splits)
  let ?es = "filter (\<lambda>(k, v). k = p) (annot_entries path (element_children node))"
  have f: "filter (\<lambda>(k, v). k = p) (pageid2annoturl d') = ?es"
    using put_annots_filter [of "[]"] by (simp add: m)
  have "sorted (map fst (pageid2annoturl d'))" by (simp add: m put_annots_sorted)
  from sorted_dropWhile [OF this, of p] obtain rest
    where r: "dropWhile (\<lambda>(k, v). k \<noteq> p) (pageid2annoturl d') = ?es @ rest"
    by (auto simp: f)
  have "QueryPagesAnnot p idx d' = Inr (files ! idx)" if "idx < length files" for idx
    using that by (auto simp: QueryPagesAnnot_def CountPageAnnot_def f r assms(4) Let_def hd_append hd_drop_conv_nth)
  then show ?thesis using Some m(1) f assms(4) by (auto simp: CountPageAnnot_def)
qed

definition sample_annots :: xml_node where
  "sample_annots = XMLElement (L ''ofd:Annotations'') []
    [XMLElement (L ''ofd:Page'') [(L ''PageID'', L ''9'')] [XMLElement (L ''ofd:FileLoc'') [] [XMLText (L ''A1.xml'')]],
     XMLElement (L ''ofd:Page'') [(L ''PageID'', L ''4'')] [XMLElement (L ''ofd:FileLoc'') [] [XMLText (L ''A0.xml'')]]]"

definition annots_zip :: zip_entry where
  "annots_zip = new_zip_entry\<lparr>zip_handler := Some \<lparr>entry_names = [], entry_data = (\<lambda>n.
     if n = FX_UTF8Encode (L ''An/As.xml'') then Some (Save sample_annots) else None)\<rparr>\<rparr>"

definition annots_root :: xml_node where
  "annots_root = XMLElement (L ''ofd:Document'') [] [XMLElement (L ''ofd:Annotations'') [] [XMLText (L ''An/As.xml'')]]"

lemma sample_annots_saved:
  "read_entry (env_platform sample_env) (zip_handler annots_zip) (FX_UTF8Encode (L ''An/As.xml'')) =
    Some (XMLElement (L ''root'') [] [sample_annots])"
proof -
  have "wf_node sample_annots" "\<not> is_text sample_annots" "list_all (\<lambda>c. c < 0x80000000) (save_chars sample_annots)"
    by (simp_all add: sample_annots_def L_def xml_name_def IsXMLNameChar_def kXMLNameChars_def attrs_sorted_def
        AttributeToString_def EncodeEntities_concat encode_char_def)
  then have "parse_xml (env_platform sample_env) (Save sample_annots) = Some (XMLElement (L ''root'') [] [sample_annots])"
    by (rule parse_xml_saved) (simp add: sample_env_def)
  moreover have "FX_UTF8Encode (L ''An/As.xml'') \<noteq> []"
    "entry_path (FX_UTF8Encode (L ''An/As.xml'')) = FX_UTF8Encode (L ''An/As.xml'')" by code_simp+
  ultimately show ?thesis by (simp add: read_entry_def annots_zip_def)
qed

theorem annotations_by_page_witness:
  "\<exists>d. ParseAnnotations sample_env annots_root (new_document sample_env 0 annots_zip new_doc_info []) = Some d \<and>
     CountPageAnnot 9 d = 1 \<and> QueryPagesAnnot 9 0 d = Inr (L ''An/A1.xml'')"
proof -
  let ?d = "new_document sample_env 0 annots_zip new_doc_info []"
  have "cache_ok (env_platform sample_env) (doc_zip ?d)"
    by (simp add: cache_ok_def new_document_def annots_zip_def new_zip_entry_def)
  moreover have "child_text ''Annotations'' annots_root = Some (L ''An/As.xml'')" "L ''An/As.xml'' \<noteq> []"
    "hd (L ''An/As.xml'') \<noteq> 47" "annots_dir [] (L ''An/As.xml'') = L ''An/''"
    "first_child ''Annotations'' (XMLElement (L ''root'') [] [sample_annots]) = Some sample_annots"
    by code_simp+
  then have "annotation_document sample_env annots_root ?d = Some (L ''An/'', sample_annots)"
    using sample_annots_saved by (simp add: annotation_source_def new_document_def)
  moreover have "map snd (filter (\<lambda>(k, v). k = 9) (annot_entries (L ''An/'') (element_children sample_annots))) =
      [L ''An/A1.xml'']" "locations_ok (element_children sample_annots)" by code_simp+
  ultimately show ?thesis
    using annotations_by_page [of sample_env ?d annots_root "L ''An/''" sample_annots "[L ''An/A1.xml'']" 9]
    by (auto simp: new_document_def split: option.splits)
qed


text \<open>An index past the annotations of a page is answered with those of the next page.\<close>

lemma query_annot_past_count:
  "sorted (map fst (pageid2annoturl d)) \<Longrightarrow> pageid2annoturl d = pre @ (p, f) # (q, g) # post \<Longrightarrow>
   p \<noteq> q \<Longrightarrow> p \<notin> fst ` set pre \<Longrightarrow> CountPageAnnot p d = 1 \<and> QueryPagesAnnot p 1 d = Inr g"
proof -
  assume *: "sorted (map fst (pageid2annoturl d))" "pageid2annoturl d = pre @ (p, f) # (q, g) # post"
    "p \<noteq> q" "p \<notin> fst ` set pre"
  then have "p < q" "\<forall>x\<in>set post. q \<le> fst x" by (auto simp: sorted_append)
  then have "filter (\<lambda>(k, v). k = p) post = []" by (force simp: filter_empty_conv)
  moreover have "filter (\<lambda>(k, v). k = p) pre = []" "dropWhile (\<lambda>(k, v). k \<noteq> p) (pre @ (p, f) # (q, g) # post) = (p, f) # (q, g) # post"
    using *(4) by (force simp: filter_empty_conv, subst dropWhile_append2) (force+)
  ultimately show ?thesis using *(2,3) by (simp add: CountPageAnnot_def QueryPagesAnnot_def)
qed

end
