(* ===== verification/Ofd_Text.thy ===== *)
theory Ofd_Text
  imports Ofd_Package Span
begin

text \<open>
  The discrete part of the text and path objects of OFD pages: the lists of character distances with
  their repeat groups (CTextCodeData of src/ofd/cofd_parse_textobj.cpp) and the splitting of path
  descriptions into operators and numbers (GenPath of src/ofd/cofd_parse_pathobj.cpp).  Positions are
  floating point numbers and are left out: a distance is the token that names it.
\<close>

section \<open>Tokens\<close>

text \<open>
  \<open>absl::StrSplit\<close> at blanks; empty pieces and pieces of white space only are skipped.
\<close>

definition is_separator :: "nat \<Rightarrow> bool" where
  "is_separator c \<longleftrightarrow> c = 32 \<or> c = 9 \<or> c = 10 \<or> c = 13"

definition is_ascii_space :: "nat \<Rightarrow> bool" where
  "is_ascii_space c \<longleftrightarrow> c = 32 \<or> 9 \<le> c \<and> c \<le> 13"

function split_pieces :: "wstring \<Rightarrow> wstring list" where
  "split_pieces s =
    (let piece = takeWhile (\<lambda>c. \<not> is_separator c) s; rest = dropWhile (\<lambda>c. \<not> is_separator c) s in
     if rest = [] then [piece] else piece # split_pieces (tl rest))"
  by pat_completeness auto
termination
proof (relation "measure length", simp, goal_cases)
  case (1 s piece rest)
  then have "0 < length rest" and "length rest \<le> length s"
    using length_dropWhile_le [of "\<lambda>c. \<not> is_separator c" s] by auto
  then show ?case by (simp, linarith)
qed

declare split_pieces.simps [simp del]

definition StrSplit :: "wstring \<Rightarrow> wstring list" where
  "StrSplit s = filter (\<lambda>piece. \<not> list_all is_ascii_space piece) (split_pieces s)"

section \<open>Repeat groups\<close>

definition find_token :: "wstring \<Rightarrow> wstring list \<Rightarrow> nat option" where
  "find_token key delta =
    (let n = length (takeWhile (\<lambda>t. t \<noteq> key) delta) in if n < length delta then Some n else None)"

text \<open>
  One group at a given position: its key, its count and the distance to repeat.  A negative count
  becomes a huge unsigned one, which the insertion refuses.
\<close>

definition expand_group :: "wstring list \<Rightarrow> nat \<Rightarrow> ofd_error + wstring list" where
  "expand_group delta i =
    (if length delta \<le> i + 2 then Inl BadIndex
     else
       let cnt = FXSYS_atoi (delta ! (i + 1)); repeat_delta = delta ! (i + 2) in
       if cnt = 0 \<or> cnt = 1 then Inr (take i delta @ drop (i + 1) delta)
       else if cnt = 2 then Inr (take i delta @ [repeat_delta] @ drop (i + 2) delta)
       else if cnt < 0 then Inl BadLength
       else Inr (take i delta @ [repeat_delta] @ replicate (nat (cnt - 3)) repeat_delta @ [repeat_delta] @
         drop (i + 2) delta))"

partial_function (option) expand_g :: "wstring list \<Rightarrow> wstring \<Rightarrow> (ofd_error + wstring list) option" where
  "expand_g delta key = (case find_token key delta of None \<Rightarrow> Some (Inr delta)
    | Some i \<Rightarrow> (case expand_group delta i of Inl e \<Rightarrow> Some (Inl e) | Inr delta \<Rightarrow> expand_g delta (L ''g'')))"

record text_code =
  m_DeltaX :: "wstring list"
  m_DeltaY :: "wstring list"

text \<open>The attributes are passed as their text in the platform's encoding, \<open>None\<close> when absent.\<close>

definition expand_deltas :: "wstring list \<Rightarrow> (wstring list \<Rightarrow> (ofd_error + 'a) option) \<Rightarrow> wstring \<Rightarrow> (ofd_error + 'a) option" where
  "expand_deltas delta k key = (case expand_g delta key of None \<Rightarrow> None | Some (Inl e) \<Rightarrow> Some (Inl e) | Some (Inr delta) \<Rightarrow> k delta)"

definition parseDeltaXY :: "wstring option \<Rightarrow> wstring option \<Rightarrow> text_code \<Rightarrow> (ofd_error + text_code) option" where
  "parseDeltaXY delta_x delta_y t =
    Option.bind
      (case delta_x of None \<Rightarrow> Some (Inr t)
       | Some s \<Rightarrow> expand_deltas (StrSplit s) (\<lambda>d. expand_deltas d (\<lambda>d. Some (Inr (t\<lparr>m_DeltaX := d\<rparr>))) (L ''G'')) (L ''g''))
      (\<lambda>r. case r of Inl e \<Rightarrow> Some (Inl e)
       | Inr t \<Rightarrow> (case delta_y of None \<Rightarrow> Some (Inr t)
           | Some s \<Rightarrow> expand_deltas (StrSplit s) (\<lambda>d. expand_deltas (m_DeltaX t)
               (\<lambda>dx. Some (Inr (t\<lparr>m_DeltaX := dx, m_DeltaY := d\<rparr>))) (L ''G'')) (L ''g'')))"

text \<open>The distance used for the character at an index: the last one is used when there are too few.\<close>

definition delta_at :: "wstring list \<Rightarrow> nat \<Rightarrow> wstring option option" where
  "delta_at delta i = (if i = 0 \<or> delta = [] then Some None
    else map_option Some (read_at delta (min (length delta) i - 1)))"

section \<open>Operators stuck to numbers\<close>

definition is_alpha :: "nat \<Rightarrow> bool" where
  "is_alpha c \<longleftrightarrow> 65 \<le> c \<and> c \<le> 90 \<or> 97 \<le> c \<and> c \<le> 122"

text \<open>The loop over the characters of a token; \<open>flag\<close> is the start of the current run, \<open>c\<close> its class.\<close>

fun split_runs :: "wstring \<Rightarrow> nat \<Rightarrow> nat \<Rightarrow> nat \<Rightarrow> wstring \<Rightarrow> wstring list \<Rightarrow> nat \<times> wstring list" where
  "split_runs it flag i c [] v = (flag, v)"
| "split_runs it flag i c (ch # rest) v =
    (if is_alpha ch \<noteq> is_alpha c then
       let tmpstr = take (i - flag) (drop flag it) in
       split_runs it i (i + 1) ch rest (if tmpstr \<noteq> [] then v @ [tmpstr] else v)
     else split_runs it flag (i + 1) c rest v)"

definition split_token :: "wstring \<Rightarrow> wstring list \<Rightarrow> wstring list" where
  "split_token it v = (let (flag, v) = split_runs it 0 0 (hd it) it v in v @ [drop flag it])"

definition path_tokens :: "wstring \<Rightarrow> wstring list" where
  "path_tokens desc = fold split_token (StrSplit desc) []"

section \<open>Expansion of repeat groups\<close>





lemma find_token_append: "key \<notin> set pre \<Longrightarrow> find_token key (pre @ key # rest) = Some (length pre)"
proof -
  assume "key \<notin> set pre"
  then have "takeWhile (\<lambda>t. t \<noteq> key) (pre @ key # rest) = pre" by (induction pre) auto
  then show ?thesis by (simp add: find_token_def)
qed

lemma find_token_None: "key \<notin> set delta \<Longrightarrow> find_token key delta = None"
proof -
  assume "key \<notin> set delta"
  then have "length (takeWhile (\<lambda>t. t \<noteq> key) delta) = length delta" by (induction delta) auto
  then show ?thesis by (simp add: find_token_def Let_def)
qed

lemma expand_group_at:
  assumes "2 \<le> FXSYS_atoi cnt"
  shows "expand_group (pre @ key # cnt # d # rest) (length pre) = Inr (pre @ replicate (nat (FXSYS_atoi cnt)) d @ rest)"
proof -
  have three: "nat (FXSYS_atoi cnt) = Suc (nat (FXSYS_atoi cnt - 3) + 2)" if "FXSYS_atoi cnt \<noteq> 2"
    using assms that by auto
  have "replicate (Suc (k + 2)) d = d # replicate k d @ [d, d]" for k
    by (induction k) (auto simp: numeral_2_eq_2)
  then show ?thesis using assms three
    by (cases "FXSYS_atoi cnt = 2") (auto simp: expand_group_def nth_append Let_def numeral_2_eq_2)
qed

lemma expand_g_step:
  assumes "key \<notin> set pre" and "2 \<le> FXSYS_atoi cnt"
  shows "expand_g (pre @ key # cnt # d # rest) key = expand_g (pre @ replicate (nat (FXSYS_atoi cnt)) d @ rest) (L ''g'')"
  by (subst expand_g.simps) (simp add: find_token_append assms expand_group_at)


section \<open>Properties\<close>



text \<open>
  Of the groups written with a capital only the first is expanded, because the search goes on with the
  small letter; a group with a count of one keeps its count among the distances.
\<close>

lemma expand_capital_first_only:
  assumes "L ''G'' \<notin> set pre" and "2 \<le> FXSYS_atoi cnt" and "L ''g'' \<notin> set (pre @ d # rest)"
  shows "expand_g (pre @ L ''G'' # cnt # d # rest) (L ''G'') = Some (Inr (pre @ replicate (nat (FXSYS_atoi cnt)) d @ rest))"
proof -
  have "L ''g'' \<notin> set (pre @ replicate (nat (FXSYS_atoi cnt)) d @ rest)" using assms(3) by auto
  then show ?thesis using assms(1,2) by (simp add: expand_g_step) (subst expand_g.simps, simp add: find_token_None)
qed

lemma expand_count_one_kept:
  "expand_g [L ''g'', L ''1'', L ''2.5''] (L ''g'') = Some (Inr [L ''1'', L ''2.5''])"
proof -
  have "find_token (L ''g'') [L ''g'', L ''1'', L ''2.5''] = Some 0"
    "expand_group [L ''g'', L ''1'', L ''2.5''] 0 = Inr [L ''1'', L ''2.5'']"
    "find_token (L ''g'') [L ''1'', L ''2.5''] = None" by code_simp+
  then show ?thesis by (simp add: expand_g.simps)
qed

section \<open>Path descriptions\<close>

text \<open>A run of letters or a run without letters.\<close>

definition uniform :: "wstring \<Rightarrow> bool" where
  "uniform s \<longleftrightarrow> s \<noteq> [] \<and> (list_all is_alpha s \<or> list_all (\<lambda>c. \<not> is_alpha c) s)"

lemma split_runs_pieces:
  assumes "it = concat v0 @ run @ rest" and "flag = length (concat v0)" and "i = flag + length run"
    and "list_all (\<lambda>ch. is_alpha ch = is_alpha c) run" and "run = [] \<longrightarrow> (rest \<noteq> [] \<and> is_alpha (hd rest) = is_alpha c)"
    and "list_all uniform v0"
  shows "\<exists>flag' v'. split_runs it flag i c rest (v @ v0) = (flag', v @ v') \<and> concat v' @ drop flag' it = it \<and>
    list_all uniform v' \<and> uniform (drop flag' it)"
  using assms
proof (induction rest arbitrary: v0 run flag i c)
  case Nil
  then have "uniform run" by (cases run) (auto simp: uniform_def list_all_iff)
  then show ?case using Nil by auto
next
  case (Cons ch rest)
  show ?case
  proof (cases "is_alpha ch = is_alpha c")
    case True
    then show ?thesis using Cons.prems Cons.IH [of v0 "run @ [ch]" flag "i + 1" c] by simp
  next
    case False
    then have run: "run \<noteq> []" using Cons.prems(5) by auto
    then have "uniform run" using Cons.prems(4) by (cases run) (auto simp: uniform_def list_all_iff)
    moreover have "take (i - flag) (drop flag it) = run" using Cons.prems by simp
    ultimately show ?thesis
      using False run Cons.prems Cons.IH [of "v0 @ [run]" "[ch]" i "i + 1" ch] by (simp add: Let_def)
  qed
qed

lemma split_token_pieces:
  assumes "it \<noteq> []"
  shows "\<exists>ps. split_token it v = v @ ps \<and> concat ps = it \<and> list_all uniform ps"
proof -
  obtain flag v' where "split_runs it 0 0 (hd it) it v = (flag, v @ v')" "concat v' @ drop flag it = it"
      "list_all uniform v'" "uniform (drop flag it)"
    using split_runs_pieces [of it "[]" "[]" it 0 0 "hd it" v] assms by auto
  then show ?thesis by (intro exI [of _ "v' @ [drop flag it]"]) (simp add: split_token_def)
qed

text \<open>
  splitting the tokens of a path description loses and reorders nothing: the pieces joined are the
  characters of the description without its blanks, and each piece is a run of letters or a run without.
\<close>

theorem path_tokens_split:
  "concat (path_tokens desc) = concat (StrSplit desc) \<and> list_all uniform (path_tokens desc)"
proof -
  have ne: "\<forall>t\<in>set (StrSplit desc). t \<noteq> []" by (auto simp: StrSplit_def)
  have "\<exists>ps. fold split_token ts v = v @ ps \<and> concat ps = concat ts \<and> list_all uniform ps" if "\<forall>t\<in>set ts. t \<noteq> []" for ts v
    using that
  proof (induction ts arbitrary: v)
    case (Cons t ts)
    then obtain ps where ps: "split_token t v = v @ ps" "concat ps = t" "list_all uniform ps"
      using split_token_pieces [of t v] by auto
    moreover obtain qs where "fold split_token ts (v @ ps) = (v @ ps) @ qs" "concat qs = concat ts" "list_all uniform qs"
      using Cons.IH [of "v @ ps"] Cons.prems by auto
    ultimately show ?case by (intro exI [of _ "ps @ qs"]) simp
  qed simp
  from this [OF ne, of "[]"] show ?thesis by (auto simp: path_tokens_def)
qed

end
