(* ===== verification/Spec2Isabelle.thy ===== *)
theory Spec2Isabelle
  imports Md5 Rc4 Sha1 Sha2 Aes Fx_Number Xml_Roundtrip Tree_Node Run_Length Pdf_Opening Pdf_Text
    Ofd_Document Ofd_Text
begin

text \<open>
  A verification library for the C++ sources under src/: a fork of PDFium (src/core) that carries a
  reader of OFD documents (src/ofd) on top of it.

  \<^bold>\<open>The program.\<close>  An OFD document is an archive of XML files.  \<open>COFD_ZipEntry\<close> reads entries of the
  archive and keeps the XML trees it has parsed; \<open>COFD_ParseOfdXml\<close> reads the list of documents from
  ofd.xml; \<open>COFD_Package\<close> ties both together and opens documents; \<open>COFD_Document\<close> reads the root file of
  a document with its resources, pages, annotations and signatures and answers queries by page and by id.
  XML text reaches them through \<open>CFX_SeekableStreamProxy\<close>, which decodes bytes block by block, and
  \<open>CFX_XMLParser\<close>, a state machine that builds a tree of \<open>CFX_XMLElement\<close> nodes.  The tree itself is
  a pointer structure, \<open>fxcrt::TreeNode\<close>.  Below lie the string, number and character codecs of
  src/core/fxcrt.  On the PDF side the library covers the lexer \<open>CPDF_SyntaxParser\<close>, the notations of
  strings, names and text strings, the reader and the writers of objects, the stream filters that are written in
  this repository, and encryption: \<open>CPDF_SecurityHandler\<close> checks passwords against the encryption dictionary and derives
  the key of a document, \<open>CPDF_CryptoHandler\<close> decrypts the objects that the parser has read and encrypts what
  \<open>CPDF_Encryptor\<close> hands to the writers, both on the cryptographic primitives of src/core/fdrm.

  \<^bold>\<open>Shared layers.\<close>
  \<^item> \<open>Xilou_Prelude\<close>: names of machine types, byte order conversions, copies between arrays and generic
    lemmas on lists and words used by all other theories.
  \<^item> \<open>Span\<close>: access to buffers with the bounds written out; every read or write out of range is \<open>None\<close>.
  \<^item> \<open>Block_Hash\<close>: two locales for the hash functions.  \<open>streaming_hash\<close> is the interface of a context with a
    partly filled block buffer, \<open>padded_hash\<close> adds the padding at the end.  The lemma that any sequence of
    updates absorbs the concatenation of the data is proved there once and interpreted for MD5, SHA-1,
    SHA-256, SHA-384 and SHA-512.

  \<^bold>\<open>Cryptographic primitives\<close> (src/core/fdrm/fx_crypt.cpp, fx_crypt_sha.cpp, fx_crypt_aes.cpp).
  \<^item> \<open>Md5\<close>, \<open>Sha1\<close>, \<open>Sha2\<close>: contexts are records of 32- or 64-bit words with the byte buffer.  The digest is
    that of the padded message however the message was cut into updates.  MD5 counts its bits wrongly
    for single updates of 2^29 bytes and more.
  \<^item> \<open>Rc4\<close>: the table stays a permutation, every index stays in range, crypting is an involution.
  \<^item> \<open>Aes_Tables\<close>, \<open>Aes\<close>: the tables of the source, both key schedules and both ciphers on 32-bit words.
    The tables are shown to be linear where the proof needs it, the equivalent inverse cipher is shown
    to invert the cipher, and from that CBC decryption to invert CBC encryption for all three key sizes.

  \<^bold>\<open>Strings, numbers, character streams\<close> (src/core/fxcrt).
  \<^item> \<open>Wide_String\<close>: the operations of \<open>WideString\<close> the XML layer uses.  A wide string is a list of character
    codes; the comparison is the lexicographic order.
  \<^item> \<open>Fx_Number\<close>: reading integers saturates at the ends of the type; printing and reading are inverse.
  \<^item> \<open>Utf8\<close>: encoder, decoder, byte order marks, and the reading of blocks that gives back a character cut by
    the end of the block.  The blocks together are the encoded text.

  \<^bold>\<open>XML\<close> (src/core/fxcrt/xml, src/core/fxcrt/tree_node.h).
  \<^item> \<open>Xml_Dom\<close>: elements with sorted attributes, navigation by local name, namespaces, saving.
  \<^item> \<open>Xml_Parser\<close>: the states of the parser, one step function per state, the entity decoder and the loop over
    blocks.  Reads outside the block, the top of an empty stack and null nodes are a separate outcome
    \<open>Abort\<close>, shown never to occur; the loop is a \<open>function\<close> whose termination measure is the number of
    characters left together with the rank of the state, because some states do not consume a character.
  \<^item> \<open>Xml_Roundtrip\<close>: parsing what was saved gives the same element.  The relation \<open>runs\<close> describes the parser
    on a text cut into blocks in any way.  Two defects of the parser are proved on concrete texts.
  \<^item> \<open>Tree_Node\<close>: the pointer tree on an explicit store of nodes.  The abstraction maps a store to the child
    list of every node; insertions and removals implement the list operations and keep all pointers
    consistent.

  \<^bold>\<open>OFD\<close> (src/ofd).
  \<^item> \<open>Ofd_Package\<close>: archive reader, ofd.xml, package.  The archive library is a parameter (the records
    \<open>archive\<close> and \<open>platform\<close>: names and contents of the entries, the code page and the case mapping).  The locale
    \<open>entry_reader\<close> states what clients rely on when they read entries; it is interpreted on the cache.
    The loop over the bodies may run for ever, so it is a \<open>partial_function\<close>; both that it returns for
    complete bodies and that it does not for a body without root are proved.
  \<^item> \<open>Ofd_Document\<close>: the constructor and the queries.  Fonts, colour spaces and boxes are parameters of
    the record \<open>environment\<close>.  Page table, annotation table and the off-by-one tests of the queries.
  \<^item> \<open>Ofd_Text\<close>: repeat groups of distance lists and the splitting of path descriptions.
  \<^item> This theory: opening a package from the bytes of its archive, across all of these layers.

  \<^bold>\<open>PDF\<close> (src/core/fpdfapi/parser, src/core/fxcodec/basic).
  \<^item> \<open>Pdf_Syntax\<close>: the lexer on a file behind a block buffer: characters, words, strings, comments, lines, tags.
    The buffer is part of the state; reads outside the file fail as in the source.
  \<^item> \<open>Pdf_Words\<close>: the words the lexer reads are a function of the rest of the file.
  \<^item> \<open>Pdf_Strings\<close>: writers of literal strings, hexadecimal strings and names, each shown to be read back by
    the lexer; tag search and its defect.
  \<^item> \<open>Pdf_Object\<close>: the objects as a datatype, dictionaries as sorted association lists, copying, the writers of
    all kinds of objects, of streams and of indirect objects.  Floating point numbers are a type
    parameter; their conversions, the compressor, the filters and the lookup of indirect objects are fields
    of the record \<open>pdf_env\<close>.
  \<^item> \<open>Pdf_Reader\<close>: the reader of objects, streams and indirect objects in loose mode.  One turn of each loop is a
    definition over the calls it makes; the recursion has a bound on the number of calls.
  \<^item> \<open>Pdf_Reader_Safe\<close>: each part of the reader goes forward in the file, so twice the number of unread bytes
    is a sufficient bound for every file, and a larger one gives the same result; everything it returns is
    well formed.
  \<^item> \<open>Pdf_Roundtrip\<close>, \<open>Pdf_Indirect\<close>: what is written is read back, object by object by induction, then streams and
    indirect objects.  The hypotheses are on the object alone: names that fit the word buffer of the lexer,
    sorted dictionaries, numbers of objects below 2^31, nesting within the limit of the reader, and a text of
    numeric characters for floating point numbers.
  \<^item> \<open>Pdf_Text\<close>: text strings in the one-byte document encoding and in UTF-16.
  \<^item> \<open>Run_Length\<close>, \<open>Ascii85\<close>: both directions of both filters.  Decoders never leave their buffer for any input,
    encoders never leave the buffer they have estimated, and decoding inverts encoding.

  \<^bold>\<open>Encryption of PDF documents\<close> (src/core/fpdfapi/parser).
  \<^item> \<open>Pdf_Crypto\<close>: cpdf_crypto_handler.cpp and cpdf_encryptor.cpp.  The key arrays, the block buffer of a stream and the
    contexts are explicit; the initialisation vector is an argument.
  \<^item> \<open>Pdf_Cipher\<close>: decryption inverts encryption, never leaves an array whatever the bytes, and may be done in pieces.
    The loop over blocks is compared with a function that is fed single bytes.  With AES keys of 24 bytes the
    encryptor leaves its key array.
  \<^item> \<open>Pdf_Encrypted\<close>: decryption of all strings and streams of an object, signature contents apart; what is written through an
    encryptor is read back and decrypted to the same object.  Metadata streams are lost.
  \<^item> \<open>Pdf_Security\<close>: cpdf_security_handler.cpp.  The encryption dictionary is part of the state of the handler, random
    numbers are arguments.
  \<^item> \<open>Pdf_Passwords\<close>, \<open>Pdf_Aes256\<close>: the locale \<open>password_scheme\<close> is the contract of a family of key derivations: the user and the
    owner password restore the key that was used when the dictionary was created.  It is interpreted for revisions 2 to 4
    (chains of RC4) and for revisions 5 and 6 (AES); the hash of revision 6 ends after at most 287 rounds.
  \<^item> \<open>Pdf_Opening\<close>: a document that was created opens with its passwords, for both families, and the case in which
    the owner password does not give back the user password.
  \<^item> This theory: an encrypted document from its creation to the decryption of the objects read from it.

  \<^bold>\<open>Conventions.\<close>  A raised error, a failed CHECK, a null dereference and an access out of range are values
  (\<open>None\<close>, or \<open>Inl\<close> with the kind of error).  Machine words are kept where overflow matters; sizes are
  natural numbers where the source only compares them.  Loops are structural recursion or carry a
  termination proof; loops that may not end are partial functions, and returning is proved.

  \<^bold>\<open>Not modelled.\<close>  Rendering, fonts and images (floating point geometry and third-party engines), page
  objects of OFD pages, signatures (third-party cryptography), writing entries back to archives, forms,
  JavaScript and the vendored libraries.  Of the PDF parser the strict mode, the cross references
  and the PDF document above the objects are the next parts to add.
\<close>

section \<open>Opening a package\<close>

text \<open>An entry that holds a written element.\<close>

definition saved_entry :: "archive \<Rightarrow> bytes \<Rightarrow> xml_node \<Rightarrow> bool" where
  "saved_entry arc name e \<longleftrightarrow> entry_data arc name = Some (Save e) \<and> wf_node e \<and> \<not> is_text e \<and>
    list_all (\<lambda>c. c < 0x80000000) (save_chars e)"

lemma read_saved_entry:
  assumes "saved_entry arc (entry_path name) e" and "plat_acp plat = kOtherCodePage" and "name \<noteq> []"
  shows "read_entry plat (Some arc) name = Some (XMLElement (L ''root'') [] [e])"
  using assms by (simp add: saved_entry_def read_entry_def parse_xml_saved)

lemma first_child_singleton: "named_NoPrefix (L name) e \<Longrightarrow> first_child name (XMLElement n as [e]) = Some e"
  by (simp add: first_child_def)

lemma ParseOFD_saved:
  assumes "plat_acp plat = kOtherCodePage" and "saved_entry arc (FX_UTF8Encode (L ''ofd.xml'')) ofd"
    and "named_NoPrefix (L ''OFD'') ofd"
    and "bodies = filter (named_NoPrefix (L ''DocBody'')) (element_children ofd)" and "list_all body_ok bodies"
    and "bodies \<noteq> []"
  shows "\<exists>pkg. ParseOFD plat (Some arc) new_package = Some (Inr (True, pkg)) \<and>
    ofd_infos pkg = Some (map body_info bodies) \<and> cache_ok plat (pkg_zip pkg) \<and> zip_handler (pkg_zip pkg) = Some arc"
proof -
  let ?n = "FX_UTF8Encode (L ''ofd.xml'')"
  let ?z = "snd (Open (Some arc) new_zip_entry)"
  have n: "entry_path ?n = ?n" "?n \<noteq> []" by code_simp+
  have z: "cache_ok plat ?z" "zip_handler ?z = Some arc"
    by (rule cache_ok_Open, simp add: new_zip_entry_def) (rule Open_handler)
  then have r: "fst (ReadAndCacheXml plat ?n ?z) = Some (XMLElement (L ''root'') [] [ofd])"
    using read_saved_entry [of arc ?n ofd plat] assms n by (simp add: ReadAndCacheXml_result)
  have "COFD_ParseOfdXml (XMLElement (L ''root'') [] [ofd]) = Some (Inr (map body_info bodies))"
    using bodies_outcome_ok [OF assms(5), of "[]"] ParseOfdXml_outcome [OF first_child_singleton [OF assms(3)]]
    by (simp add: assms(4))
  then have "ParseOFD plat (Some arc) new_package = Some (Inr (True,
      new_package\<lparr>pkg_zip := snd (ReadAndCacheXml plat ?n ?z), ofd_infos := Some (map body_info bodies)\<rparr>))"
    using r assms(6) by (simp add: ParseOFD_def new_package_def Open_def split_def Let_def)
  then show ?thesis
    using zip_reader.read_ok [OF z(1), of ?n] zip_reader.read_src [OF z(1), of ?n] z(2) by simp
qed

text \<open>
  C1: opening a package, from the bytes of the archive to the pages.  When the entry ofd.xml and the root
  file of the document with number i hold saved XML elements of the expected names, the bodies listed in
  ofd.xml are complete and the locations the document refers to are not empty, then the package is parsed,
  the document opens, its page table lists the valid page elements in order, and every page number leads
  to the location written for the first page with its id, relative to the directory of the root file.
\<close>

theorem ofd_package_opens:
  fixes env :: "('font, 'cs, 'box) environment"
  assumes "plat = env_platform env" and "plat_acp plat = kOtherCodePage"
    and "saved_entry arc (FX_UTF8Encode (L ''ofd.xml'')) ofd" and "named_NoPrefix (L ''OFD'') ofd"
    and "bodies = filter (named_NoPrefix (L ''DocBody'')) (element_children ofd)" and "list_all body_ok bodies"
    and "i < length bodies" and "url = doc_root (body_info (bodies ! i))" and "FX_UTF8Encode url \<noteq> []"
    and "saved_entry arc (entry_path (FX_UTF8Encode url)) doc" and "named_NoPrefix (L ''Document'') doc"
    and "base = document_base_url (plat_towupper plat) url"
    and "\<forall>common. first_child ''CommonData'' doc = Some common \<longrightarrow> list_all common_ok (element_children common)"
    and "\<forall>path node. annotation_source plat (Some arc) base doc = Some (path, node) \<longrightarrow>
      locations_ok (element_children node)"
    and "first_child ''Pages'' doc = Some pages"
    and "ps = filter valid_page (filter (named_NoPrefix (L ''Page'')) (element_children pages))"
  shows "\<exists>pkg d pkg'. ParseOFD plat (Some arc) new_package = Some (Inr (True, pkg)) \<and>
    OpenDocument env stale i pkg = Some (Inr (Some d, pkg')) \<and> pageno2pageid d = map page_id ps \<and>
    (\<forall>j<length ps. PageUrl j d = Inr (page_location base (hd (filter (\<lambda>p. page_id p = page_id (ps ! j)) ps))))"
proof -
  have "bodies \<noteq> []" using assms(7) by auto
  then obtain pkg where pkg: "ParseOFD plat (Some arc) new_package = Some (Inr (True, pkg))"
      "ofd_infos pkg = Some (map body_info bodies)" "cache_ok plat (pkg_zip pkg)" "zip_handler (pkg_zip pkg) = Some arc"
    using ParseOFD_saved [OF assms(2-6)] by blast
  let ?info = "body_info (bodies ! i)"
  let ?n = "FX_UTF8Encode url"
  let ?root = "XMLElement (L ''root'') [] [doc]"
  let ?z = "snd (ReadAndCacheXml plat ?n (pkg_zip pkg))"
  have r: "fst (ReadAndCacheXml plat ?n (pkg_zip pkg)) = Some ?root"
    using read_saved_entry [OF assms(10,2,9)] pkg(3,4) by (simp add: ReadAndCacheXml_result)
  have root: "first_child ''Document'' ?root = Some doc" using assms(11) by (rule first_child_singleton)
  have "cache_ok (env_platform env) ?z" "zip_handler ?z = Some arc"
    using zip_reader.read_ok [OF pkg(3)] zip_reader.read_src [OF pkg(3)] pkg(4) by (simp_all add: assms(1))
  then obtain d where d: "COFD_Document env stale ?z ?info ?root base = Some (Inr d)"
    using COFD_Document_returns [OF root, of env ?z base stale ?info] assms(1,13,14) by auto
  then have "OpenDocument env stale i pkg = Some (Inr (Some d, pkg\<lparr>pkg_zip := doc_zip d\<rparr>))"
    using r pkg(2) assms(1,7,8,12) by (auto simp: OpenDocument_def GetDocInfo_def split_def Let_def)
  then show ?thesis using pkg(1) COFD_Document_pages [OF d root assms(15,16)] by blast
qed

definition small_ofd :: xml_node where
  "small_ofd = XMLElement (L ''ofd:OFD'') [] [sample_body]"

definition small_pages :: xml_node where
  "small_pages = XMLElement (L ''ofd:Pages'') [] [sample_page ''4'' ''P0.xml'', sample_page ''9'' ''/P1.xml'']"

definition small_doc :: xml_node where
  "small_doc = XMLElement (L ''ofd:Document'') [] [small_pages]"

definition small_archive :: archive where
  "small_archive = \<lparr>entry_names = [], entry_data = (\<lambda>n. if n = FX_UTF8Encode (L ''ofd.xml'') then Some (Save small_ofd)
    else if n = FX_UTF8Encode (L ''Doc_0/Document.xml'') then Some (Save small_doc) else None)\<rparr>"

lemma small_saved:
  "saved_entry small_archive (FX_UTF8Encode (L ''ofd.xml'')) small_ofd"
  "saved_entry small_archive (entry_path (FX_UTF8Encode (L ''Doc_0/Document.xml''))) small_doc"
proof -
  have n: "FX_UTF8Encode (L ''ofd.xml'') \<noteq> FX_UTF8Encode (L ''Doc_0/Document.xml'')"
    "entry_path (FX_UTF8Encode (L ''Doc_0/Document.xml'')) = FX_UTF8Encode (L ''Doc_0/Document.xml'')" by code_simp+
  have "wf_node small_ofd" "wf_node small_doc"
    "list_all (\<lambda>c. c < 0x80000000) (save_chars small_ofd)" "list_all (\<lambda>c. c < 0x80000000) (save_chars small_doc)"
    by (simp_all add: small_ofd_def small_doc_def small_pages_def sample_page_def sample_body_def L_def xml_name_def
        IsXMLNameChar_def kXMLNameChars_def attrs_sorted_def AttributeToString_def EncodeEntities_concat encode_char_def)
  moreover have "\<not> is_text small_ofd" "\<not> is_text small_doc" by code_simp+
  ultimately show "saved_entry small_archive (FX_UTF8Encode (L ''ofd.xml'')) small_ofd"
    "saved_entry small_archive (entry_path (FX_UTF8Encode (L ''Doc_0/Document.xml''))) small_doc"
    using n by (simp_all add: saved_entry_def small_archive_def)
qed

theorem ofd_package_opens_witness:
  "\<exists>pkg d pkg'. ParseOFD (env_platform sample_env) (Some small_archive) new_package = Some (Inr (True, pkg)) \<and>
     OpenDocument sample_env 0 0 pkg = Some (Inr (Some d, pkg')) \<and> pageno2pageid d = [4, 9] \<and>
     PageUrl 0 d = Inr (L ''Doc_0/P0.xml'')"
proof -
  let ?ps = "[sample_page ''4'' ''P0.xml'', sample_page ''9'' ''/P1.xml'']"
  let ?up = "plat_towupper (env_platform sample_env)"
  have url: "L ''Doc_0/Document.xml'' = doc_root (body_info ([sample_body] ! 0))" by code_simp
  have body: "[sample_body] = filter (named_NoPrefix (L ''DocBody'')) (element_children small_ofd)"
    "list_all body_ok [sample_body]" by code_simp+
  have names: "named_NoPrefix (L ''OFD'') small_ofd" "named_NoPrefix (L ''Document'') small_doc"
    "FX_UTF8Encode (L ''Doc_0/Document.xml'') \<noteq> []" "plat_acp (env_platform sample_env) = kOtherCodePage"
    "L ''Doc_0/'' = document_base_url ?up (L ''Doc_0/Document.xml'')" by code_simp+
  have none: "first_child ''CommonData'' small_doc = None" "child_text ''Annotations'' small_doc = None"
    "first_child ''Pages'' small_doc = Some small_pages" by code_simp+
  then have ok: "\<forall>common. first_child ''CommonData'' small_doc = Some common \<longrightarrow> list_all common_ok (element_children common)"
    "\<forall>path node. annotation_source (env_platform sample_env) (Some small_archive) (L ''Doc_0/'') small_doc = Some (path, node) \<longrightarrow>
      locations_ok (element_children node)"
    by (simp_all add: annotation_source_def)
  have ps: "?ps = filter valid_page (filter (named_NoPrefix (L ''Page'')) (element_children small_pages))" by code_simp
  have "map page_id ?ps = [4, 9]"
    "page_location (L ''Doc_0/'') (hd (filter (\<lambda>p. page_id p = page_id (?ps ! 0)) ?ps)) = L ''Doc_0/P0.xml''" by code_simp+
  then show ?thesis
    using ofd_package_opens [OF refl names(4) small_saved(1) names(1) body _ url names(3) small_saved(2) names(2)
        names(5) ok none(3) ps, of 0]
    by fastforce
qed

section \<open>Encrypted PDF documents\<close>





end
